(* ===== verification/Prelude.thy ===== *)
theory Prelude
  imports Main "HOL-Library.AList" "HOL-Library.Word" "HOL-Library.Sublist" "HOL-Library.Multiset"
begin

text \<open>
  Shared vocabulary of the development: Go's time values and durations, Go's truncating integer
  division, Go maps and the unspecified order in which \<open>range\<close> visits them, and the generic list
  lemmas that several components use.

  A Go \<open>time.Time\<close> is an \<open>int\<close>: the nanoseconds since Go's zero time (1 January of year 1), so the
  zero time is \<open>0\<close> and \<open>IsZero\<close>, \<open>Before\<close>, \<open>After\<close> and \<open>Equal\<close> are \<open>= 0\<close>, \<open><\<close>, \<open>>\<close> and \<open>=\<close>.
  A \<open>time.Duration\<close> is an \<open>int\<close> of nanoseconds; \<open>Sub\<close> saturates at the ends of \<open>int64\<close> as Go's does.
\<close>

named_theorems frame_simps \<open>which fields of a state an operation leaves unchanged\<close>
named_theorems inv_intros \<open>operations that preserve a component's invariant\<close>

section \<open>Time\<close>

type_synonym time = int
type_synonym duration = int

definition time_Millisecond :: duration where
  "time_Millisecond = 1000000"

definition time_Second :: duration where
  "time_Second = 1000000000"

definition time_Minute :: duration where
  "time_Minute = 60 * time_Second"

lemmas time_units = time_Millisecond_def time_Second_def time_Minute_def

text \<open>Seconds between Go's zero time and the Unix epoch.\<close>

definition unix_epoch :: int where
  "unix_epoch = 62135596800"

definition max_int64 :: int where
  "max_int64 = 9223372036854775807"

definition min_int64 :: int where
  "min_int64 = -9223372036854775808"

definition time_Sub :: "time \<Rightarrow> time \<Rightarrow> duration" where
  "time_Sub t u = max min_int64 (min max_int64 (t - u))"

definition time_Unix :: "time \<Rightarrow> int" where
  "time_Unix t = t div time_Second - unix_epoch"

text \<open>Go's integer division truncates towards zero.\<close>

definition quot :: "int \<Rightarrow> int \<Rightarrow> int" where
  "quot a b = (if 0 \<le> a then a div b else - (- a div b))"

definition Milliseconds :: "duration \<Rightarrow> int" where
  "Milliseconds d = quot d time_Millisecond"

text \<open>Wrap-around of a Go \<open>int\<close> (64 bits, two's complement).\<close>

definition wrap64 :: "int \<Rightarrow> int" where
  "wrap64 x = (x + 9223372036854775808) mod 18446744073709551616 - 9223372036854775808"

lemma wrap64_id: "min_int64 \<le> x \<Longrightarrow> x \<le> max_int64 \<Longrightarrow> wrap64 x = x"
  by (simp add: wrap64_def min_int64_def max_int64_def)

lemma wrap64_range: "min_int64 \<le> wrap64 x \<and> wrap64 x \<le> max_int64"
proof -
  have "0 \<le> (x + 9223372036854775808) mod 18446744073709551616" by simp
  moreover have "(x + 9223372036854775808) mod 18446744073709551616 < 18446744073709551616" by simp
  ultimately show ?thesis by (simp add: wrap64_def min_int64_def max_int64_def)
qed

lemma wrap64_add: "wrap64 (wrap64 a + b) = wrap64 (a + b)"
proof -
  have "(wrap64 a + b + 9223372036854775808) mod 18446744073709551616
      = ((a + 9223372036854775808) mod 18446744073709551616 + b) mod 18446744073709551616"
    by (simp add: wrap64_def algebra_simps)
  also have "\<dots> = (a + 9223372036854775808 + b) mod 18446744073709551616" by (simp add: mod_add_left_eq)
  finally show ?thesis by (simp add: wrap64_def algebra_simps)
qed

lemma wrap64_add_right: "wrap64 (b + wrap64 a) = wrap64 (b + a)"
  using wrap64_add[of a b] by (simp add: add.commute)

lemma wrap64_wrap64 [simp]: "wrap64 (wrap64 a) = wrap64 a"
  using wrap64_add[of a 0] by simp

lemma quot_nonneg: "0 \<le> a \<Longrightarrow> 0 < b \<Longrightarrow> 0 \<le> quot a b"
  by (simp add: quot_def pos_imp_zdiv_nonneg_iff)

lemma quot_le: "0 \<le> a \<Longrightarrow> 0 < b \<Longrightarrow> b * quot a b \<le> a"
  by (simp add: quot_def) (metis minus_mod_eq_mult_div mult.commute pos_mod_sign diff_le_eq le_add_same_cancel1)

text \<open>
  Comparing a saturated difference with a bound inside \<open>int64\<close> is comparing the difference itself.
\<close>

lemma time_Sub_le_iff: "min_int64 \<le> d \<Longrightarrow> d < max_int64 \<Longrightarrow> time_Sub t u \<le> d \<longleftrightarrow> t - u \<le> d"
  by (auto simp: time_Sub_def)

lemma time_Sub_mono: "t \<le> t' \<Longrightarrow> time_Sub t u \<le> time_Sub t' u"
  by (auto simp: time_Sub_def)

lemma time_Sub_antimono: "u \<le> u' \<Longrightarrow> time_Sub t u' \<le> time_Sub t u"
  by (auto simp: time_Sub_def)

section \<open>Go maps\<close>

text \<open>
  A Go map is an association list with distinct keys. Its list order carries no meaning: where the
  code ranges over a map the order comes from a parameter, a function \<open>rng\<close> that permutes the
  entries it is given (\<open>range_order\<close>), since Go leaves the order unspecified.
\<close>

type_synonym ('k, 'v) gomap = "('k \<times> 'v) list"

definition wf_map :: "('k, 'v) gomap \<Rightarrow> bool" where
  "wf_map m \<longleftrightarrow> distinct (map fst m)"

definition range_order :: "('a list \<Rightarrow> 'a list) \<Rightarrow> bool" where
  "range_order rng \<longleftrightarrow> (\<forall>xs. mset (rng xs) = mset xs)"

lemma wf_map_Nil [simp]: "wf_map []"
  by (simp add: wf_map_def)

lemma wf_map_update [simp]: "wf_map m \<Longrightarrow> wf_map (AList.update k v m)"
  by (simp add: wf_map_def distinct_update)

lemma wf_map_delete [simp]: "wf_map m \<Longrightarrow> wf_map (AList.delete k m)"
  by (simp add: wf_map_def distinct_delete)

lemma wf_map_filter: "wf_map m \<Longrightarrow> wf_map (filter P m)"
  by (induction m) (auto simp: wf_map_def)

lemma range_order_set: "range_order rng \<Longrightarrow> set (rng xs) = set xs"
  by (metis range_order_def set_mset_mset)

lemma range_order_distinct: "range_order rng \<Longrightarrow> distinct (map f (rng xs)) = distinct (map f xs)"
proof -
  assume "range_order rng"
  then have "mset (map f (rng xs)) = mset (map f xs)"
    by (simp add: range_order_def)
  then show ?thesis by (rule mset_eq_imp_distinct_iff)
qed

lemma range_order_id [simp]: "range_order (\<lambda>xs. xs)"
  by (simp add: range_order_def)

lemma map_of_in_set: "wf_map m \<Longrightarrow> (k, v) \<in> set m \<longleftrightarrow> map_of m k = Some v"
  by (auto simp: wf_map_def dest: map_of_SomeD)

lemma length_update_alist:
  "length (AList.update k v m) = (if k \<in> fst ` set m then length m else Suc (length m))"
  by (induction m) auto

lemma length_delete_alist:
  "wf_map m \<Longrightarrow> length (AList.delete k m) = (if k \<in> fst ` set m then length m - 1 else length m)"
proof (induction m)
  case Nil
  then show ?case by simp
next
  case (Cons p m)
  then have "wf_map m" "fst p \<notin> fst ` set m" by (auto simp: wf_map_def)
  with Cons.IH show ?case
    by (cases m) (auto simp: AList.delete_eq split: if_splits)
qed

text \<open>
  A bounded store: a map that makes room by deleting one entry before it inserts. The client laws
  hold for any map with these operations; the DNS cache is an instance.
\<close>

locale bounded_store =
  fixes lookup :: "'m \<Rightarrow> 'k \<Rightarrow> 'v option"
    and put :: "'k \<Rightarrow> 'v \<Rightarrow> 'm \<Rightarrow> 'm"
    and del :: "'k \<Rightarrow> 'm \<Rightarrow> 'm"
    and size_of :: "'m \<Rightarrow> nat"
    and wf :: "'m \<Rightarrow> bool"
  assumes lookup_put: "lookup (put k v m) = (lookup m)(k \<mapsto> v)"
    and lookup_del: "wf m \<Longrightarrow> lookup (del k m) = (lookup m)(k := None)"
    and wf_put: "wf m \<Longrightarrow> wf (put k v m)"
    and wf_del: "wf m \<Longrightarrow> wf (del k m)"
    and size_put: "size_of (put k v m) = (if lookup m k = None then Suc (size_of m) else size_of m)"
    and size_del: "wf m \<Longrightarrow> size_of (del k m) = (if lookup m k = None then size_of m else size_of m - 1)"
begin

lemma replace_bound:
  assumes "wf m" and "size_of m \<le> n" and "0 < n" and "n \<le> size_of m \<Longrightarrow> lookup m victim \<noteq> None"
  shows "size_of (put k v (if n \<le> size_of m then del victim m else m)) \<le> n"
  using assms by (auto simp: size_put size_del)

lemma replace_lookup:
  assumes "wf m"
  shows "lookup (put k v (if b then del victim m else m))
    = (if b then (lookup m)(victim := None) else lookup m)(k \<mapsto> v)"
  using assms by (simp add: lookup_put lookup_del)

lemma replace_wf: "wf m \<Longrightarrow> wf (put k v (if b then del victim m else m))"
  by (simp add: wf_put wf_del)

end

interpretation gomap: bounded_store map_of AList.update AList.delete length wf_map
  by unfold_locales
    (auto simp: update_conv' delete_conv' length_update_alist length_delete_alist map_of_eq_None_iff)

section \<open>Lists\<close>

lemma dropWhile_filter_mono:
  assumes "sorted_wrt (\<lambda>x y. P y \<longrightarrow> P x) xs"
  shows "dropWhile P xs = filter (\<lambda>x. \<not> P x) xs"
  using assms
proof (induction xs)
  case Nil
  then show ?case by simp
next
  case (Cons x xs)
  then show ?case
    by (cases "P x") (auto simp: filter_id_conv intro!: filter_True[symmetric])
qed

lemma takeWhile_dropWhile_hd: "dropWhile P xs = y # ys \<Longrightarrow> \<not> P y"
  by (metis hd_dropWhile list.discI list.sel(1))

lemma nth_list_update_lt: "j < length xs \<Longrightarrow> xs[i := x] ! j = (if i = j then x else xs ! j)"
  by (auto simp: nth_list_update)

lemma set_map_filter: "x \<in> set (List.map_filter f xs) \<longleftrightarrow> (\<exists>y\<in>set xs. f y = Some x)"
  by (force simp: List.map_filter_def)

lemma set_update_alist: "set (AList.update k v m) \<subseteq> insert (k, v) (set m)"
  by (induction m) auto

lemma map_of_key: "map_of m k = Some v \<Longrightarrow> k \<in> fst ` set m"
  by (force dest: map_of_SomeD)

lemma word_less_add_1: "x \<noteq> - 1 \<Longrightarrow> (x :: 'a::len word) < x + 1"
proof -
  assume "x \<noteq> - 1"
  then have "uint x \<noteq> 2 ^ LENGTH('a) - 1"
    by (metis word_uint_eq_iff unsigned_minus_1_eq_mask mask_eq_exp_minus_1)
  then have "uint x + 1 < 2 ^ LENGTH('a)" using uint_lt2p[of x] by linarith
  then have "uint (x + 1) = uint x + 1" by (simp add: uint_word_ariths)
  then show ?thesis by (simp add: word_less_def)
qed

end
