(* ===== verification/GoStrings.thy ===== *)
theory GoStrings
  imports Prelude "HOL-Library.Char_ord"
begin

text \<open>
  The string functions of Go's standard library that the program calls. A Go string is a byte
  sequence, so it is a \<open>string\<close> (\<open>char list\<close>, 8-bit characters). \<open>strings.ToLower\<close> and
  \<open>strings.TrimSpace\<close> are modelled on bytes: ASCII letters and ASCII white space are handled as Go
  does, bytes above 127 are kept, since the Unicode tables are not modelled.
\<close>

section \<open>Package strings\<close>

definition lower_char :: "char \<Rightarrow> char" where
  "lower_char c = (if CHR ''A'' \<le> c \<and> c \<le> CHR ''Z'' then char_of ((of_char c :: nat) + 32) else c)"

definition ToLower :: "string \<Rightarrow> string" where
  "ToLower s = map lower_char s"

definition is_space :: "char \<Rightarrow> bool" where
  "is_space c \<longleftrightarrow> c \<in> {CHR '' '', CHR 0x09, CHR 0x0A, CHR 0x0B, CHR 0x0C, CHR 0x0D}"

definition TrimSpace :: "string \<Rightarrow> string" where
  "TrimSpace s = rev (dropWhile is_space (rev (dropWhile is_space s)))"

definition HasPrefix :: "string \<Rightarrow> string \<Rightarrow> bool" where
  "HasPrefix s p \<longleftrightarrow> prefix p s"

definition HasSuffix :: "string \<Rightarrow> string \<Rightarrow> bool" where
  "HasSuffix s p \<longleftrightarrow> suffix p s"

definition TrimPrefix :: "string \<Rightarrow> string \<Rightarrow> string" where
  "TrimPrefix s p = (if HasPrefix s p then drop (length p) s else s)"

definition TrimSuffix :: "string \<Rightarrow> string \<Rightarrow> string" where
  "TrimSuffix s p = (if HasSuffix s p then take (length s - length p) s else s)"

definition Contains_str :: "string \<Rightarrow> string \<Rightarrow> bool" where
  "Contains_str s sub \<longleftrightarrow> sublist sub s"

text \<open>\<open>strings.Trim\<close> with a cutset, and \<open>strings.ContainsAny\<close>.\<close>

definition Trim :: "string \<Rightarrow> string \<Rightarrow> string" where
  "Trim s cutset = rev (dropWhile (\<lambda>c. c \<in> set cutset) (rev (dropWhile (\<lambda>c. c \<in> set cutset) s)))"

definition ContainsAny :: "string \<Rightarrow> string \<Rightarrow> bool" where
  "ContainsAny s cs \<longleftrightarrow> list_ex (\<lambda>c. c \<in> set cs) s"

text \<open>\<open>strings.Split\<close> with a one-character separator.\<close>

fun Split :: "string \<Rightarrow> char \<Rightarrow> string list" where
  "Split [] c = [[]]"
| "Split (x # xs) c =
     (if x = c then [] # Split xs c
      else (case Split xs c of [] \<Rightarrow> [[x]] | y # ys \<Rightarrow> (x # y) # ys))"

fun Join :: "string list \<Rightarrow> string \<Rightarrow> string" where
  "Join [] sep = []"
| "Join [x] sep = x"
| "Join (x # y # ys) sep = x @ sep @ Join (y # ys) sep"

section \<open>Package strconv\<close>

definition is_digit :: "char \<Rightarrow> bool" where
  "is_digit c \<longleftrightarrow> CHR ''0'' \<le> c \<and> c \<le> CHR ''9''"

definition digit_val :: "char \<Rightarrow> int" where
  "digit_val c = of_char c - 48"

fun dec_val :: "int \<Rightarrow> string \<Rightarrow> int" where
  "dec_val acc [] = acc"
| "dec_val acc (c # cs) = dec_val (10 * acc + digit_val c) cs"

datatype num_err = ErrSyntax | ErrRange

text \<open>
  \<open>strconv.Atoi\<close>: the value and the error. A syntax error gives the value 0, a range error the
  nearest \<open>int64\<close>, which callers that ignore the error see.
\<close>

definition Atoi :: "string \<Rightarrow> int \<times> num_err option" where
  "Atoi s =
     (let (neg, ds) = (case s of
            [] \<Rightarrow> (False, [])
          | c # cs \<Rightarrow> if c = CHR ''-'' then (True, cs) else if c = CHR ''+'' then (False, cs) else (False, s))
      in if ds = [] \<or> \<not> list_all is_digit ds then (0, Some ErrSyntax)
         else let v = dec_val 0 ds; n = (if neg then - v else v)
              in if n < min_int64 then (min_int64, Some ErrRange)
                 else if n > max_int64 then (max_int64, Some ErrRange)
                 else (n, None))"

function (sequential) dec_digits :: "int \<Rightarrow> string" where
  "dec_digits n = (if n < 10 then [char_of (n + 48)] else dec_digits (n div 10) @ [char_of (n mod 10 + 48)])"
  by pat_completeness auto
termination
  by (relation "measure nat") auto

declare dec_digits.simps [simp del]

definition Itoa :: "int \<Rightarrow> string" where
  "Itoa n = (if n < 0 then CHR ''-'' # dec_digits (- n) else dec_digits n)"

text \<open>
  \<open>strconv.Quote\<close>, the \<open>%q\<close> of format strings. Bytes above 127 are written as \<open>\x\<close> escapes.
\<close>

definition quote_char :: "char \<Rightarrow> string" where
  "quote_char c =
     (let n = (of_char c :: int); hex = (\<lambda>d. ''0123456789abcdef'' ! nat d) in
      if c = CHR 0x22 then [CHR 0x5C, CHR 0x22]
      else if c = CHR 0x5C then [CHR 0x5C, CHR 0x5C]
      else if 32 \<le> n \<and> n < 127 then [c]
      else if c = CHR 0x07 then [CHR 0x5C, CHR ''a'']
      else if c = CHR 0x08 then [CHR 0x5C, CHR ''b'']
      else if c = CHR 0x0C then [CHR 0x5C, CHR ''f'']
      else if c = CHR 0x0A then [CHR 0x5C, CHR ''n'']
      else if c = CHR 0x0D then [CHR 0x5C, CHR ''r'']
      else if c = CHR 0x09 then [CHR 0x5C, CHR ''t'']
      else if c = CHR 0x0B then [CHR 0x5C, CHR ''v'']
      else [CHR 0x5C, CHR ''x'', hex (n div 16), hex (n mod 16)])"

definition Quote :: "string \<Rightarrow> string" where
  "Quote s = [CHR 0x22] @ concat (map quote_char s) @ [CHR 0x22]"

text \<open>The text of the \<open>NumError\<close> that \<open>Atoi\<close> returns for \<open>s\<close>.\<close>

definition NumError_text :: "string \<Rightarrow> num_err \<Rightarrow> string" where
  "NumError_text s e = ''strconv.Atoi: parsing '' @ Quote s @ '': '' @ (case e of ErrSyntax \<Rightarrow> ''invalid syntax'' | ErrRange \<Rightarrow> ''value out of range'')"

section \<open>Package net: host and port\<close>

definition IndexByte :: "string \<Rightarrow> char \<Rightarrow> nat option" where
  "IndexByte s c = (if c \<in> set s then Some (length (takeWhile (\<lambda>x. x \<noteq> c) s)) else None)"

definition LastIndexByte :: "string \<Rightarrow> char \<Rightarrow> nat option" where
  "LastIndexByte s c =
     (if c \<in> set s then Some (length s - 1 - length (takeWhile (\<lambda>x. x \<noteq> c) (rev s))) else None)"

text \<open>\<open>net.SplitHostPort\<close>: the error carries the reason of the \<open>AddrError\<close>.\<close>

definition SplitHostPort :: "string \<Rightarrow> string + string \<times> string" where
  "SplitHostPort hp =
     (case LastIndexByte hp CHR '':'' of
        None \<Rightarrow> Inl ''missing port in address''
      | Some i \<Rightarrow>
          (if hp ! 0 = CHR ''['' then
             (case IndexByte hp CHR '']'' of
                None \<Rightarrow> Inl ''missing ']' in address''
              | Some e \<Rightarrow>
                  if Suc e = length hp then Inl ''missing port in address''
                  else if Suc e = i then
                    (if CHR ''['' \<in> set (drop 1 hp) then Inl ''unexpected '[' in address''
                     else if CHR '']'' \<in> set (drop (Suc e) hp) then Inl ''unexpected ']' in address''
                     else Inr (take (e - 1) (drop 1 hp), drop (Suc i) hp))
                  else if hp ! Suc e = CHR '':'' then Inl ''too many colons in address''
                  else Inl ''missing port in address'')
           else
             (if CHR '':'' \<in> set (take i hp) then Inl ''too many colons in address''
              else if CHR ''['' \<in> set hp then Inl ''unexpected '[' in address''
              else if CHR '']'' \<in> set hp then Inl ''unexpected ']' in address''
              else Inr (take i hp, drop (Suc i) hp))))"

definition JoinHostPort :: "string \<Rightarrow> string \<Rightarrow> string" where
  "JoinHostPort host port =
     (if CHR '':'' \<in> set host then ''['' @ host @ '']:'' @ port else host @ '':'' @ port)"

section \<open>Lemmas\<close>

lemma lower_char_idem [simp]: "lower_char (lower_char c) = lower_char c"
  by (simp add: lower_char_def less_eq_char_def)

lemma of_char_lower: "(of_char (lower_char c) :: nat) = (if 65 \<le> (of_char c :: nat) \<and> (of_char c :: nat) \<le> 90 then of_char c + 32 else of_char c)"
  by (auto simp: lower_char_def less_eq_char_def)

lemma lower_char_dot: "lower_char c = CHR ''.'' \<longleftrightarrow> c = CHR ''.''"
proof -
  have "lower_char c = CHR ''.'' \<longleftrightarrow> (of_char (lower_char c) :: nat) = of_char CHR ''.''" by (simp only: of_char_eq_iff)
  also have "\<dots> \<longleftrightarrow> (of_char c :: nat) = of_char CHR ''.''" by (simp only: of_char_lower) (auto)
  finally show ?thesis by (simp only: of_char_eq_iff)
qed

lemma Split_not_Nil [simp]: "Split s c \<noteq> []"
  by (induction s) (auto split: list.splits)

lemma Split_no_sep: "p \<in> set (Split s c) \<Longrightarrow> c \<notin> set p"
  by (induction s arbitrary: p) (auto split: list.splits if_splits)

lemma Join_Cons_Cons: "Join ((x # y) # ys) sep = x # Join (y # ys) sep"
  by (cases ys) auto

lemma Join_Split: "Join (Split s c) [c] = s"
proof (induction s)
  case (Cons x xs)
  obtain y ys where "Split xs c = y # ys" by (cases "Split xs c") auto
  with Cons show ?case by (auto simp: Join_Cons_Cons)
qed simp

lemma dec_val_append: "dec_val a (xs @ ys) = dec_val (dec_val a xs) ys"
  by (induction xs arbitrary: a) auto

lemma digit_char:
  assumes "0 \<le> n" and "n < 10"
  shows "is_digit (char_of (n + 48))" and "digit_val (char_of (n + 48)) = n"
proof -
  have "int (of_char (char_of (n + 48))) = of_char (char_of (n + 48))"
    by (simp only: of_nat_of_char)
  then have "int (of_char (char_of (n + 48))) = n + 48"
    using assms by simp
  then show "is_digit (char_of (n + 48))"
    using assms by (simp add: is_digit_def less_eq_char_def)
qed (use assms in \<open>simp add: digit_val_def\<close>)

lemma dec_digits_digits: "0 \<le> n \<Longrightarrow> list_all is_digit (dec_digits n) \<and> dec_digits n \<noteq> []"
proof (induction n rule: dec_digits.induct)
  case (1 n)
  then show ?case
    by (cases "n < 10") (simp_all add: dec_digits.simps[of n] digit_char)
qed

lemma dec_val_dec_digits: "0 \<le> n \<Longrightarrow> dec_val 0 (dec_digits n) = n"
proof (induction n rule: dec_digits.induct)
  case (1 n)
  show ?case
  proof (cases "n < 10")
    case True
    with 1 show ?thesis by (simp add: dec_digits.simps[of n] digit_char)
  next
    case False
    with 1 show ?thesis by (simp add: dec_digits.simps[of n] dec_val_append digit_char)
  qed
qed

lemma not_digit_sign: "\<not> is_digit CHR ''-''" "\<not> is_digit CHR ''+''"
  by (simp_all add: is_digit_def less_eq_char_def)
lemma TrimSuffix_append: "TrimSuffix (s @ p) p = s"
  by (simp add: TrimSuffix_def HasSuffix_def suffix_def)

lemma TrimSuffix_neq: "\<not> suffix p s \<Longrightarrow> TrimSuffix s p = s"
  by (simp add: TrimSuffix_def HasSuffix_def)

lemma ToLower_append: "ToLower (s @ t) = ToLower s @ ToLower t"
  by (simp add: ToLower_def)

lemma ToLower_idem [simp]: "ToLower (ToLower s) = ToLower s"
  by (simp add: ToLower_def)

lemma TrimSpace_no_space: "\<forall>c \<in> set s. \<not> is_space c \<Longrightarrow> TrimSpace s = s"
proof (cases s rule: rev_cases)
  case (snoc ys y)
  assume "\<forall>c \<in> set s. \<not> is_space c"
  with snoc have "dropWhile is_space s = s" "dropWhile is_space (rev s) = rev s"
    by (auto simp: dropWhile_eq_self_iff hd_append)
  then show ?thesis by (simp add: TrimSpace_def)
qed (simp add: TrimSpace_def)

lemma set_TrimSpace: "set (TrimSpace s) \<subseteq> set s"
  by (auto simp: TrimSpace_def dest!: set_dropWhileD)

lemma Atoi_Itoa:
  assumes "min_int64 \<le> n" and "n \<le> max_int64"
  shows "Atoi (Itoa n) = (n, None)"
proof (cases "n < 0")
  case True
  then show ?thesis using assms dec_digits_digits[of "- n"]
    by (simp add: Atoi_def Itoa_def dec_val_dec_digits)
next
  case False
  obtain c cs where c: "dec_digits n = c # cs" and d: "is_digit c"
    using dec_digits_digits[of n] False by (cases "dec_digits n") auto
  then have "c \<noteq> CHR ''-''" "c \<noteq> CHR ''+''" using not_digit_sign by auto
  then show ?thesis using False assms c dec_digits_digits[of n] dec_val_dec_digits[of n]
    by (simp add: Atoi_def Itoa_def)
qed

lemma LastIndexByte_split: "c \<notin> set ys \<Longrightarrow> LastIndexByte (xs @ c # ys) c = Some (length xs)"
proof -
  assume "c \<notin> set ys"
  then have "takeWhile (\<lambda>x. x \<noteq> c) (rev ys @ c # rev xs) = rev ys"
    by (simp add: takeWhile_tail takeWhile_append)
  then show ?thesis by (simp add: LastIndexByte_def)
qed

lemma IndexByte_split: "c \<notin> set xs \<Longrightarrow> IndexByte (xs @ c # ys) c = Some (length xs)"
  by (simp add: IndexByte_def takeWhile_tail takeWhile_append)

lemma SplitHostPort_JoinHostPort:
  assumes "CHR ''['' \<notin> set host" "CHR '']'' \<notin> set host"
    and "CHR '':'' \<notin> set port" "CHR ''['' \<notin> set port" "CHR '']'' \<notin> set port"
  shows "SplitHostPort (JoinHostPort host port) = Inr (host, port)"
proof (cases "CHR '':'' \<in> set host")
  case True
  let ?hp = "CHR ''['' # host @ CHR '']'' # CHR '':'' # port"
  have "LastIndexByte ?hp CHR '':'' = Some (Suc (Suc (length host)))"
    using LastIndexByte_split[of "CHR '':''" port "CHR ''['' # host @ [CHR '']'']"] assms by simp
  moreover have "IndexByte ?hp CHR '']'' = Some (Suc (length host))"
    using IndexByte_split[of "CHR '']''" "CHR ''['' # host" "CHR '':'' # port"] assms by simp
  ultimately show ?thesis using True assms by (simp add: SplitHostPort_def JoinHostPort_def)
next
  case False
  have "LastIndexByte (host @ CHR '':'' # port) CHR '':'' = Some (length host)"
    using LastIndexByte_split assms by simp
  moreover have "(host @ CHR '':'' # port) ! 0 \<noteq> CHR ''[''"
    using assms by (cases host) auto
  ultimately show ?thesis using False assms by (simp add: SplitHostPort_def JoinHostPort_def)
qed

end
