(* ===== verification/Errors.thy ===== *)
theory Errors
  imports GoStrings
begin

text \<open>
  Go error values (\<open>errors.go\<close> and the errors of the other files). Sentinel errors are
  constructors of their own; an error that only carries text is \<open>ErrText\<close>; \<open>ErrWrap pre e post\<close> is
  \<open>fmt.Errorf\<close> with one \<open>%w\<close>. \<open>Panic\<close> is not an error value of the code: it stands for a run-time panic,
  such as an index out of range, in the place of a result. \<open>errors.Is\<close> looks for a sentinel in the chain of unwrapped errors.
\<close>

datatype goerr =
    ErrNotFound
  | ErrUnreachable
  | ErrResolveFailed
  | ErrClosed
  | ErrEOF
  | ErrText string
  | ErrTimeout string
  | ErrWrap string goerr string
  | NetworkError string string "goerr option"
  | DNSError string "goerr option"
  | ConnectError string goerr
  | HostKeyMismatch string string
  | OpError string "goerr option"
  | Panic string

text \<open>
  Errors of code outside the program (resolvers, the network, the operating system) are opaque:
  their text, and whether they are timeouts in the sense of \<open>net.Error\<close>. They never are one of the
  program's own sentinels.
\<close>

datatype ext_err = ExtErr (ext_timeout: bool) (ext_text: string)

definition ext_error :: "ext_err \<Rightarrow> goerr" where
  "ext_error e = (if ext_timeout e then ErrTimeout (ext_text e) else ErrText (ext_text e))"

text \<open>\<open>errors.go\<close>\<close>

definition NewNetworkError :: "string \<Rightarrow> string \<Rightarrow> goerr option \<Rightarrow> goerr" where
  "NewNetworkError operation address err = NetworkError operation address err"

definition NewDNSError :: "string \<Rightarrow> goerr option \<Rightarrow> goerr" where
  "NewDNSError host err = DNSError host err"

fun err_Error :: "goerr \<Rightarrow> string" where
  "err_Error ErrNotFound = ''no answer''"
| "err_Error ErrUnreachable = ''server unreachable''"
| "err_Error ErrResolveFailed = ''destination name not resolved''"
| "err_Error ErrClosed = ''use of closed network connection''"
| "err_Error ErrEOF = ''EOF''"
| "err_Error (ErrText s) = s"
| "err_Error (ErrTimeout s) = s"
| "err_Error (ErrWrap pre e post) = pre @ err_Error e @ post"
| "err_Error (NetworkError oper a (Some e)) = oper @ '' to '' @ a @ '' failed: '' @ err_Error e"
| "err_Error (NetworkError oper a None) = oper @ '' to '' @ a @ '' failed''"
| "err_Error (DNSError h (Some e)) = ''DNS resolution failed for '' @ h @ '': '' @ err_Error e"
| "err_Error (DNSError h None) = ''DNS resolution failed for '' @ h"
| "err_Error (ConnectError st e) = err_Error e"
| "err_Error (HostKeyMismatch want got) = ''host key mismatch: expected '' @ want @ '', got '' @ got"
| "err_Error (Panic s) = ''panic: '' @ s"
| "err_Error (OpError s (Some e)) = s @ '': '' @ err_Error e"
| "err_Error (OpError s None) = s"

fun err_Unwrap :: "goerr \<Rightarrow> goerr option" where
  "err_Unwrap (ErrWrap pre e post) = Some e"
| "err_Unwrap (NetworkError oper a e) = e"
| "err_Unwrap (DNSError h e) = e"
| "err_Unwrap (ConnectError st e) = Some e"
| "err_Unwrap (OpError s e) = e"
| "err_Unwrap _ = None"

fun err_chain :: "goerr \<Rightarrow> goerr list" where
  "err_chain (ErrWrap pre e post) = ErrWrap pre e post # err_chain e"
| "err_chain (NetworkError oper a (Some e)) = NetworkError oper a (Some e) # err_chain e"
| "err_chain (DNSError h (Some e)) = DNSError h (Some e) # err_chain e"
| "err_chain (ConnectError st e) = ConnectError st e # err_chain e"
| "err_chain (OpError s (Some e)) = OpError s (Some e) # err_chain e"
| "err_chain e = [e]"

definition errors_Is :: "goerr \<Rightarrow> goerr \<Rightarrow> bool" where
  "errors_Is e target \<longleftrightarrow> target \<in> set (err_chain e)"

lemma err_chain_unfold:
  "err_chain e = e # (case err_Unwrap e of None \<Rightarrow> [] | Some e' \<Rightarrow> err_chain e')"
  by (cases e rule: err_chain.cases) auto

lemma errors_Is_refl [simp]: "errors_Is e e"
  by (subst errors_Is_def, subst err_chain_unfold) simp

lemma err_chain_self [simp]: "e \<in> set (err_chain e)"
  using errors_Is_refl [of e] unfolding errors_Is_def .

lemma errors_Is_NewDNSError:
  "errors_Is (NewDNSError h (Some e)) t \<longleftrightarrow> t = NewDNSError h (Some e) \<or> errors_Is e t"
  by (auto simp: errors_Is_def NewDNSError_def)

lemma errors_Is_NewNetworkError:
  "errors_Is (NewNetworkError oper a (Some e)) t \<longleftrightarrow> t = NewNetworkError oper a (Some e) \<or> errors_Is e t"
  by (auto simp: errors_Is_def NewNetworkError_def)

lemma errors_Is_ext_error [simp]:
  "errors_Is (ext_error e) ErrNotFound \<longleftrightarrow> False" "errors_Is (ext_error e) ErrUnreachable \<longleftrightarrow> False"
  by (simp_all add: errors_Is_def ext_error_def)

lemma errors_Is_sentinel [simp]:
  "errors_Is ErrUnreachable ErrNotFound \<longleftrightarrow> False"
  "errors_Is (ErrText s) ErrNotFound \<longleftrightarrow> False"
  "errors_Is (ErrText s) ErrUnreachable \<longleftrightarrow> False"
  "errors_Is ErrNotFound ErrUnreachable \<longleftrightarrow> False"
  "errors_Is (ErrWrap pre e post) ErrNotFound \<longleftrightarrow> errors_Is e ErrNotFound"
  "errors_Is (ErrWrap pre e post) ErrUnreachable \<longleftrightarrow> errors_Is e ErrUnreachable"
  "errors_Is (DNSError h (Some e)) ErrNotFound \<longleftrightarrow> errors_Is e ErrNotFound"
  by (auto simp: errors_Is_def)

end
