(* ===== verification/GoTime.thy ===== *)
theory GoTime
  imports Errors
begin

text \<open>
  Durations as text: \<open>time.ParseDuration\<close>, \<open>Duration.String\<close> and \<open>Duration.Round\<close> of Go's standard library.
  \<open>ParseDuration\<close> computes the fraction of a number such as \<open>1.5h\<close> in \<open>float64\<close>; the model rounds each
  of these operations to 53 bits, ties to even, as IEEE 754 does. The exponent is not bounded: a
  value that would be infinite or subnormal in \<open>float64\<close> adds less than a nanosecond there and here.
\<close>

section \<open>Floating point\<close>

text \<open>A non-negative \<open>float64\<close> is \<open>(m, e)\<close> for \<open>m * 2 ^ e\<close>.\<close>

type_synonym float64 = "int \<times> int"

function bit_length :: "int \<Rightarrow> int" where
  "bit_length n = (if n \<le> 0 then 0 else 1 + bit_length (n div 2))"
  by pat_completeness auto
termination
  by (relation "measure nat") auto

declare bit_length.simps [simp del]

definition shift_ratio :: "int \<Rightarrow> int \<times> int \<Rightarrow> int \<times> int" where
  "shift_ratio e pq = (if 0 \<le> e then (fst pq, snd pq * 2 ^ nat e) else (fst pq * 2 ^ nat (- e), snd pq))"

definition fl_round :: "int \<times> int \<Rightarrow> float64" where
  "fl_round pq =
     (if fst pq = 0 then (0, 0)
      else let e0 = bit_length (fst pq) - bit_length (snd pq) - 53;
               (a0, b0) = shift_ratio e0 pq;
               e = (if 2 ^ 53 \<le> a0 div b0 then e0 + 1 else e0);
               (a, b) = shift_ratio e pq;
               m = a div b; r = a mod b
           in (if 2 * r > b \<or> (2 * r = b \<and> odd m) then m + 1 else m, e))"

definition fl_ratio :: "float64 \<Rightarrow> int \<times> int" where
  "fl_ratio x = (if 0 \<le> snd x then (fst x * 2 ^ nat (snd x), 1) else (fst x, 2 ^ nat (- snd x)))"

definition fl_of_int :: "int \<Rightarrow> float64" where
  "fl_of_int n = fl_round (n, 1)"

definition fl_mult :: "float64 \<Rightarrow> float64 \<Rightarrow> float64" where
  "fl_mult x y = fl_round (fst (fl_ratio x) * fst (fl_ratio y), snd (fl_ratio x) * snd (fl_ratio y))"

definition fl_div :: "float64 \<Rightarrow> float64 \<Rightarrow> float64" where
  "fl_div x y = fl_round (fst (fl_ratio x) * snd (fl_ratio y), snd (fl_ratio x) * fst (fl_ratio y))"

definition fl_trunc :: "float64 \<Rightarrow> int" where
  "fl_trunc x = fst (fl_ratio x) div snd (fl_ratio x)"

section \<open>ParseDuration\<close>

fun leadingInt :: "int \<Rightarrow> string \<Rightarrow> (int \<times> string) option" where
  "leadingInt x [] = Some (x, [])"
| "leadingInt x (c # cs) =
     (if \<not> is_digit c then Some (x, c # cs)
      else if x > 2 ^ 63 div 10 then None
      else let x = x * 10 + digit_val c in if x > 2 ^ 63 then None else leadingInt x cs)"

fun leadingFraction :: "int \<Rightarrow> float64 \<Rightarrow> bool \<Rightarrow> string \<Rightarrow> int \<times> float64 \<times> string" where
  "leadingFraction x scale overflow [] = (x, scale, [])"
| "leadingFraction x scale overflow (c # cs) =
     (if \<not> is_digit c then (x, scale, c # cs)
      else if overflow then leadingFraction x scale overflow cs
      else if x > (2 ^ 63 - 1) div 10 then leadingFraction x scale True cs
      else let y = x * 10 + digit_val c
           in if y > 2 ^ 63 then leadingFraction x scale True cs
              else leadingFraction y (fl_mult scale (10, 0)) False cs)"

definition duration_unit :: "string \<Rightarrow> int option" where
  "duration_unit u =
     (if u = ''ns'' then Some 1
      else if u = ''us'' \<or> u = [CHR 0xC2, CHR 0xB5, CHR ''s''] \<or> u = [CHR 0xCE, CHR 0xBC, CHR ''s''] then Some 1000
      else if u = ''ms'' then Some time_Millisecond
      else if u = ''s'' then Some time_Second
      else if u = ''m'' then Some time_Minute
      else if u = ''h'' then Some (60 * time_Minute)
      else None)"

definition time_quote_char :: "char \<Rightarrow> string" where
  "time_quote_char c =
     (let n = (of_char c :: int); hex = (\<lambda>d. ''0123456789abcdef'' ! nat d) in
      if n \<ge> 128 \<or> n < 32 then [CHR 0x5C, CHR ''x'', hex (n div 16), hex (n mod 16)]
      else if c = CHR 0x22 \<or> c = CHR 0x5C then [CHR 0x5C, c]
      else [c])"

definition time_quote :: "string \<Rightarrow> string" where
  "time_quote s = [CHR 0x22] @ concat (map time_quote_char s) @ [CHR 0x22]"

definition number_char :: "char \<Rightarrow> bool" where
  "number_char c \<longleftrightarrow> c = CHR ''.'' \<or> is_digit c"

definition invalid_duration :: "string \<Rightarrow> goerr" where
  "invalid_duration orig = ErrText (''time: invalid duration '' @ time_quote orig)"

text \<open>
  The number at the start of \<open>s\<close>: the integers before and after the decimal point, the scale of the latter,
  whether there was any digit, and the rest of \<open>s\<close>.
\<close>

definition duration_number :: "string \<Rightarrow> (int \<times> int \<times> float64 \<times> bool \<times> string) option" where
  "duration_number s =
     (case leadingInt 0 s of
        None \<Rightarrow> None
      | Some (v, s1) \<Rightarrow>
          let pre = (length s1 \<noteq> length s) in
          if s1 \<noteq> [] \<and> hd s1 = CHR ''.'' then
            (case leadingFraction 0 (1, 0) False (tl s1) of
               (f, scale, s2) \<Rightarrow> Some (v, f, scale, pre \<or> length s2 \<noteq> length (tl s1), s2))
          else Some (v, 0, (1, 0), pre, s1))"

definition duration_value :: "int \<Rightarrow> int \<Rightarrow> float64 \<Rightarrow> int \<Rightarrow> int" where
  "duration_value v f scale unit =
     (if f > 0 then v * unit + fl_trunc (fl_mult (fl_of_int f) (fl_div (fl_of_int unit) scale)) else v * unit)"

text \<open>One number with its unit at the start of the non-empty \<open>s\<close>: its nanoseconds and the rest of \<open>s\<close>.\<close>

definition duration_term :: "string \<Rightarrow> string \<Rightarrow> goerr + int \<times> string" where
  "duration_term orig s =
     (if \<not> number_char (hd s) then Inl (invalid_duration orig)
      else case duration_number s of
        None \<Rightarrow> Inl (invalid_duration orig)
      | Some (v, f, scale, digits, s2) \<Rightarrow>
          let u = takeWhile (\<lambda>c. \<not> number_char c) s2 in
          if \<not> digits then Inl (invalid_duration orig)
          else if u = [] then Inl (ErrText (''time: missing unit in duration '' @ time_quote orig))
          else (case duration_unit u of
                  None \<Rightarrow> Inl (ErrText (''time: unknown unit '' @ time_quote u @ '' in duration '' @ time_quote orig))
                | Some unit \<Rightarrow>
                    if v > 2 ^ 63 div unit then Inl (invalid_duration orig)
                    else if duration_value v f scale unit > 2 ^ 63 then Inl (invalid_duration orig)
                    else Inr (duration_value v f scale unit, dropWhile (\<lambda>c. \<not> number_char c) s2)))"

lemma leadingInt_length: "leadingInt x s = Some (v, r) \<Longrightarrow> length r \<le> length s"
  by (induction x s rule: leadingInt.induct) (auto simp: Let_def split: if_splits)

lemma leadingFraction_length: "leadingFraction x sc ov s = (v, sc', r) \<Longrightarrow> length r \<le> length s"
proof (induction x sc ov s rule: leadingFraction.induct)
  case (2 x scale overflow c cs)
  then show ?case by (auto simp: Let_def split: if_splits)
qed auto

lemma duration_number_length:
  assumes "duration_number s = Some (v, f, scale, digits, s2)"
  shows "length s2 \<le> length s"
proof -
  obtain v1 s1 where 1: "leadingInt 0 s = Some (v1, s1)"
    using assms by (auto simp: duration_number_def split: option.splits)
  have 2: "length s1 \<le> length s" by (rule leadingInt_length [OF 1])
  show ?thesis
  proof (cases "s1 \<noteq> [] \<and> hd s1 = CHR ''.''")
    case True
    then have "leadingFraction 0 (1, 0) False (tl s1) = (f, scale, s2)"
      using assms 1 by (simp add: duration_number_def Let_def split: prod.splits)
    from leadingFraction_length [OF this] show ?thesis using 2 by simp
  next
    case False
    then show ?thesis using assms 1 2 by (auto simp: duration_number_def Let_def split: if_splits)
  qed
qed

lemma duration_term_length:
  assumes "duration_term orig s = Inr (v, r)"
  shows "length r < length s"
proof -
  obtain v1 f scale digits s2 where 1: "duration_number s = Some (v1, f, scale, digits, s2)"
    using assms by (auto simp: duration_term_def split: if_splits option.splits)
  have r: "r = dropWhile (\<lambda>c. \<not> number_char c) s2" and u: "takeWhile (\<lambda>c. \<not> number_char c) s2 \<noteq> []"
    using assms 1 by (simp_all add: duration_term_def Let_def split: if_splits option.splits)
  have "length s2 = length (takeWhile (\<lambda>c. \<not> number_char c) s2) + length r"
    unfolding r by (metis length_append takeWhile_dropWhile_id)
  moreover have "0 < length (takeWhile (\<lambda>c. \<not> number_char c) s2)" using u by blast
  ultimately show ?thesis using duration_number_length [OF 1] by linarith
qed

function duration_loop :: "string \<Rightarrow> string \<Rightarrow> int \<Rightarrow> goerr + int" where
  "duration_loop orig s d =
     (if s = [] then Inr d
      else case duration_term orig s of
             Inl e \<Rightarrow> Inl e
           | Inr (v, s') \<Rightarrow> if d + v > 2 ^ 63 then Inl (invalid_duration orig) else duration_loop orig s' (d + v))"
  by pat_completeness auto
termination
  by (relation "measure (\<lambda>(orig, s, d). length s)") (auto intro: duration_term_length)

declare duration_loop.simps [simp del]

definition ParseDuration :: "string \<Rightarrow> goerr + duration" where
  "ParseDuration orig =
     (let signed = (orig \<noteq> [] \<and> (hd orig = CHR ''-'' \<or> hd orig = CHR ''+''));
          neg = (signed \<and> hd orig = CHR ''-'');
          s = (if signed then tl orig else orig)
      in if s = ''0'' then Inr 0
         else if s = [] then Inl (invalid_duration orig)
         else case duration_loop orig s 0 of
                Inl e \<Rightarrow> Inl e
              | Inr d \<Rightarrow> if neg then Inr (- d) else if d > 2 ^ 63 - 1 then Inl (invalid_duration orig) else Inr d)"

section \<open>String and Round\<close>

text \<open>\<open>fmtFrac\<close>: the last \<open>prec\<close> digits as a fraction without trailing zeros, and the number before them.\<close>

fun fmtFrac :: "nat \<Rightarrow> int \<Rightarrow> string \<Rightarrow> string \<times> int" where
  "fmtFrac 0 v acc = (if acc = [] then [] else CHR ''.'' # acc, v)"
| "fmtFrac (Suc prec) v acc =
     fmtFrac prec (v div 10) (if acc = [] \<and> v mod 10 = 0 then [] else char_of (v mod 10 + 48) # acc)"

definition Duration_String :: "duration \<Rightarrow> string" where
  "Duration_String d =
     (let u = \<bar>d\<bar>;
          body = (if u < time_Second then
                    (if u = 0 then ''0s''
                     else let (prec, suf) = (if u < 1000 then (0, ''ns'')
                                             else if u < time_Millisecond then (3, [CHR 0xC2, CHR 0xB5, CHR ''s''])
                                             else (6, ''ms''));
                              (fr, v) = fmtFrac prec u []
                          in dec_digits v @ fr @ suf)
                  else let (fr, v) = fmtFrac 9 u [];
                           m = v div 60
                       in (if m > 0 then (if m div 60 > 0 then dec_digits (m div 60) @ ''h'' else []) @ dec_digits (m mod 60) @ ''m'' else [])
                          @ dec_digits (v mod 60) @ fr @ ''s'')
      in if d < 0 then CHR ''-'' # body else body)"

definition Duration_Round :: "duration \<Rightarrow> duration \<Rightarrow> duration" where
  "Duration_Round d m =
     (if m \<le> 0 then d
      else let r = \<bar>d\<bar> mod m in
           if d < 0 then
             (if r + r < m then d + r
              else if min_int64 \<le> d - m + r then d - m + r else min_int64)
           else
             (if r + r < m then d - r
              else if d + m - r \<le> max_int64 then d + m - r else max_int64))"

section \<open>Bounds\<close>

lemma div_nonneg: "0 \<le> a \<Longrightarrow> 0 \<le> b \<Longrightarrow> 0 \<le> a div (b :: int)"
  by (cases "b = 0") (simp_all add: pos_imp_zdiv_nonneg_iff)

lemma shift_ratio_nonneg:
  "0 \<le> fst pq \<Longrightarrow> 0 \<le> fst (shift_ratio e pq)" "0 \<le> snd pq \<Longrightarrow> 0 \<le> snd (shift_ratio e pq)"
  by (simp_all add: shift_ratio_def)

lemma fl_round_nonneg:
  assumes "0 \<le> fst pq" and "0 \<le> snd pq"
  shows "0 \<le> fst (fl_round pq)"
proof -
  have "0 \<le> fst (shift_ratio e pq) div snd (shift_ratio e pq)" for e
    using assms by (intro div_nonneg shift_ratio_nonneg)
  then show ?thesis
    unfolding fl_round_def Let_def case_prod_unfold by (simp only: fst_conv split: if_split) (simp add: add_nonneg_nonneg)
qed

lemma fl_ratio_nonneg: "0 \<le> fst x \<Longrightarrow> 0 \<le> fst (fl_ratio x)" "0 \<le> snd (fl_ratio x)"
  by (simp_all add: fl_ratio_def)

lemma fl_nonneg:
  "0 \<le> n \<Longrightarrow> 0 \<le> fst (fl_of_int n)"
  "0 \<le> fst x \<Longrightarrow> 0 \<le> fst y \<Longrightarrow> 0 \<le> fst (fl_mult x y)"
  "0 \<le> fst x \<Longrightarrow> 0 \<le> fst y \<Longrightarrow> 0 \<le> fst (fl_div x y)"
  "0 \<le> fst x \<Longrightarrow> 0 \<le> fl_trunc x"
  unfolding fl_of_int_def fl_mult_def fl_div_def fl_trunc_def
  by (intro fl_round_nonneg; simp add: fl_ratio_nonneg) (intro fl_round_nonneg div_nonneg; simp add: fl_ratio_nonneg)+

lemma digit_val_nonneg: "is_digit c \<Longrightarrow> 0 \<le> digit_val c"
  using of_nat_of_char [of c, where 'a = int] by (simp add: is_digit_def digit_val_def less_eq_char_def)

lemma leadingInt_nonneg: "leadingInt x s = Some (v, r) \<Longrightarrow> 0 \<le> x \<Longrightarrow> 0 \<le> v"
proof (induction x s rule: leadingInt.induct)
  case (2 x c cs)
  then show ?case
    using digit_val_nonneg [of c] by (auto simp: Let_def split: if_splits)
qed simp

lemma leadingFraction_nonneg:
  "leadingFraction x sc ov s = (f, sc', r) \<Longrightarrow> 0 \<le> fst sc \<Longrightarrow> 0 \<le> fst sc'"
proof (induction x sc ov s rule: leadingFraction.induct)
  case (2 x scale overflow c cs)
  have "0 \<le> fst (fl_mult scale (10, 0))" using 2 by (simp add: fl_nonneg)
  then show ?case using 2 by (auto simp: Let_def split: if_splits)
qed simp

lemma duration_unit_pos: "duration_unit u = Some n \<Longrightarrow> 0 < n"
  by (auto simp: duration_unit_def time_units split: if_splits)

lemma duration_number_nonneg:
  assumes "duration_number s = Some (i, f, scale, digits, s2)"
  shows "0 \<le> i \<and> 0 \<le> fst scale"
proof -
  obtain v s1 where 1: "leadingInt 0 s = Some (v, s1)"
    using assms by (auto simp: duration_number_def split: option.splits)
  obtain g sc r where 2: "leadingFraction 0 (1, 0) False (tl s1) = (g, sc, r)" by (metis prod_cases3)
  have "0 \<le> v" "0 \<le> fst sc" using leadingInt_nonneg [OF 1] leadingFraction_nonneg [OF 2] by simp_all
  then show ?thesis using assms 1 2 by (auto simp: duration_number_def Let_def split: if_splits)
qed

lemma duration_term_nonneg:
  assumes "duration_term orig s = Inr (v, r)"
  shows "0 \<le> v"
proof -
  obtain i f scale digits s2 where n: "duration_number s = Some (i, f, scale, digits, s2)"
    using assms by (auto simp: duration_term_def split: if_splits option.splits)
  have "0 \<le> i \<and> 0 \<le> fst scale" by (rule duration_number_nonneg [OF n])
  moreover obtain unit where "0 < unit" "v = duration_value i f scale unit"
    using assms n duration_unit_pos by (auto simp: duration_term_def Let_def split: if_splits option.splits)
  ultimately show ?thesis by (simp add: duration_value_def fl_nonneg)
qed

lemma duration_loop_bounds: "duration_loop orig s d = Inr r \<Longrightarrow> 0 \<le> d \<Longrightarrow> d \<le> 2 ^ 63 \<Longrightarrow> 0 \<le> r \<and> r \<le> 2 ^ 63"
proof (induction orig s d rule: duration_loop.induct)
  case (1 orig s d)
  show ?case
  proof (cases "s = []")
    case True
    then show ?thesis using 1(2-4) by (simp add: duration_loop.simps [of orig "[]" d])
  next
    case False
    then obtain v s' where t: "duration_term orig s = Inr (v, s')" and v: "\<not> 2 ^ 63 < d + v" and l: "duration_loop orig s' (d + v) = Inr r"
      using 1(2) by (auto simp: duration_loop.simps [of orig s d] split: sum.splits if_splits)
    show ?thesis using 1(1) [OF False t refl v l] duration_term_nonneg [OF t] 1(3) v by linarith
  qed
qed

lemma ParseDuration_bounds:
  assumes "ParseDuration s = Inr d"
  shows "min_int64 \<le> d \<and> d \<le> max_int64"
proof -
  define neg where "neg \<longleftrightarrow> (s \<noteq> [] \<and> (hd s = CHR ''-'' \<or> hd s = CHR ''+'')) \<and> hd s = CHR ''-''"
  define t where "t = (if s \<noteq> [] \<and> (hd s = CHR ''-'' \<or> hd s = CHR ''+'') then tl s else s)"
  have P: "ParseDuration s = (if t = ''0'' then Inr 0 else if t = [] then Inl (invalid_duration s)
      else case duration_loop s t 0 of Inl e \<Rightarrow> Inl e
           | Inr d \<Rightarrow> if neg then Inr (- d) else if d > 2 ^ 63 - 1 then Inl (invalid_duration s) else Inr d)"
    unfolding ParseDuration_def Let_def t_def neg_def by (rule refl)
  show ?thesis
  proof (cases "duration_loop s t 0")
    case (Inl e)
    then show ?thesis using assms P by (simp add: min_int64_def max_int64_def split: if_splits)
  next
    case (Inr r)
    then have "0 \<le> r \<and> r \<le> 2 ^ 63" by (rule duration_loop_bounds) simp_all
    then show ?thesis using assms P Inr by (auto simp: min_int64_def max_int64_def split: if_splits)
  qed
qed

end
