(* ===== verification/Utils.thy ===== *)
theory Utils
  imports Errors GoPath
begin

text \<open>
  \<open>utils.go\<close>: membership in a list, validation of ports and listen addresses, and the atomic file
  write. A file system is a map from path names to contents and permissions; the outcome of each
  system call of \<open>writeFileAtomic\<close> is given by the environment, and the function yields the file system after
  every call, so that a crash between two calls is one of the listed states.
\<close>

section \<open>Model\<close>

fun contains :: "string list \<Rightarrow> string \<Rightarrow> bool" where
  "contains [] s = False"
| "contains (v # xs) s = (if v = s then True else contains xs s)"

definition validatePort :: "int \<Rightarrow> goerr option" where
  "validatePort port =
     (if port < 1 \<or> port > 65535 then Some (ErrText (''invalid port '' @ Itoa port @ '': must be between 1 and 65535'')) else None)"

definition validateHostPort :: "string \<Rightarrow> goerr option" where
  "validateHostPort hostPort =
     (if hostPort = [] then Some (ErrText ''empty host:port'')
      else case SplitHostPort hostPort of
             Inl err \<Rightarrow> Some (ErrText (''invalid host:port format: '' @ hostPort @ '' (expected host:port)''))
           | Inr (host, port) \<Rightarrow>
               if port = [] then Some (ErrText (''invalid host:port format: '' @ hostPort @ '' (expected host:port)''))
               else None)"

text \<open>A file is its contents and its permission bits.\<close>

type_synonym file_entry = "string \<times> int"
type_synonym fs = "string \<Rightarrow> file_entry option"

text \<open>
  The answers of the operating system: the name \<open>os.CreateTemp\<close> picks for a directory and a pattern or its error;
  per call an error; how many bytes a failing \<open>Write\<close> stored before it failed.
\<close>

record fs_env =
  fe_temp :: "string \<Rightarrow> string \<Rightarrow> goerr + string"
  fe_write :: "goerr option"
  fe_written :: nat
  fe_chmod :: "goerr option"
  fe_sync :: "goerr option"
  fe_close :: "goerr option"
  fe_rename :: "goerr option"

definition temp_file :: "fs_env \<Rightarrow> string \<Rightarrow> goerr + string" where
  "temp_file e path = fe_temp e (Dir path) (''.'' @ Base path @ ''.tmp*'')"

definition os_Remove :: "string \<Rightarrow> fs \<Rightarrow> fs" where
  "os_Remove p f = f(p := None)"

definition os_Rename :: "string \<Rightarrow> string \<Rightarrow> fs \<Rightarrow> fs" where
  "os_Rename old new f = f(new := f old, old := None)"

text \<open>
  The error and the file systems after each call, the deferred \<open>os.Remove\<close> last. \<open>CreateTemp\<close> makes an
  empty file with permissions 0600 (384); \<open>Sync\<close> and \<open>Close\<close> do not change the map.
\<close>

definition writeFileAtomic :: "fs_env \<Rightarrow> string \<Rightarrow> string \<Rightarrow> int \<Rightarrow> fs \<Rightarrow> goerr option \<times> fs list" where
  "writeFileAtomic e path data perm f =
     (case temp_file e path of
        Inl err \<Rightarrow> (Some err, [f])
      | Inr tmp \<Rightarrow>
          let f1 = f(tmp \<mapsto> ([], 384)) in
          (case fe_write e of
             Some err \<Rightarrow> (let f2 = f1(tmp \<mapsto> (take (fe_written e) data, 384)) in (Some err, [f1, f2, os_Remove tmp f2]))
           | None \<Rightarrow>
               let f2 = f1(tmp \<mapsto> (data, 384)) in
               (case fe_chmod e of
                  Some err \<Rightarrow> (Some err, [f1, f2, os_Remove tmp f2])
                | None \<Rightarrow>
                    let f3 = f2(tmp \<mapsto> (data, perm)) in
                    (case fe_sync e of
                       Some err \<Rightarrow> (Some err, [f1, f2, f3, os_Remove tmp f3])
                     | None \<Rightarrow>
                         (case fe_close e of
                            Some err \<Rightarrow> (Some err, [f1, f2, f3, os_Remove tmp f3])
                          | None \<Rightarrow>
                              (case fe_rename e of
                                 Some err \<Rightarrow> (Some err, [f1, f2, f3, os_Remove tmp f3])
                               | None \<Rightarrow>
                                   let f4 = os_Rename tmp path f3 in (None, [f1, f2, f3, f4, os_Remove tmp f4])))))))"

text \<open>Example environments: a disk that works and one that is full after three bytes.\<close>

definition disk_ok :: fs_env where
  "disk_ok = \<lparr>fe_temp = (\<lambda>dir pattern. Inr (dir @ ''/'' @ takeWhile (\<lambda>c. c \<noteq> CHR ''*'') pattern @ ''1'')), fe_write = None, fe_written = 0, fe_chmod = None, fe_sync = None,
              fe_close = None, fe_rename = None\<rparr>"

definition disk_full :: fs_env where
  "disk_full = disk_ok\<lparr>fe_write := Some (ErrText ''no space left on device''), fe_written := 3\<rparr>"

section \<open>Lemmas\<close>

lemma contains_iff [simp]: "contains xs s \<longleftrightarrow> s \<in> set xs"
  by (induction xs) auto

lemma validatePort_None [simp]: "validatePort p = None \<longleftrightarrow> 1 \<le> p \<and> p \<le> 65535"
  by (auto simp: validatePort_def)

lemma validateHostPort_None: "validateHostPort hp = None \<longleftrightarrow> (\<exists>h p. SplitHostPort hp = Inr (h, p) \<and> p \<noteq> [])"
  by (auto simp: validateHostPort_def SplitHostPort_def LastIndexByte_def split: sum.splits)

lemma writeFileAtomic_states:
  assumes "\<And>tmp. temp_file e path = Inr tmp \<Longrightarrow> f tmp = None \<and> tmp \<noteq> path"
    and "writeFileAtomic e path data perm f = (err, states)"
  shows "(\<forall>g \<in> set states. (g path = f path \<or> g path = Some (data, perm))
           \<and> (\<forall>q. q \<noteq> path \<and> temp_file e path \<noteq> Inr q \<longrightarrow> g q = f q))
    \<and> last states = (if err = None then f(path \<mapsto> (data, perm)) else f)"
proof (cases "temp_file e path")
  case (Inl a)
  then show ?thesis using assms(2) by (auto simp: writeFileAtomic_def)
next
  case (Inr tmp)
  then have "f tmp = None" "tmp \<noteq> path" using assms(1) by blast+
  then show ?thesis
    using assms(2) Inr
    by (auto simp: writeFileAtomic_def os_Remove_def os_Rename_def Let_def fun_eq_iff split: option.splits)
qed

lemmas writeFileAtomic_final = writeFileAtomic_states [THEN conjunct2]

lemma disk_temp:
  "temp_file disk_ok ''/data/id'' = Inr ''/data/.id.tmp1''" "temp_file disk_full ''/data/id'' = Inr ''/data/.id.tmp1''"
  by code_simp+



end
