(* ===== verification/Netip.thy ===== *)
theory Netip
  imports GoStrings
begin

unbundle bit_operations_syntax

text \<open>
  The part of Go's \<open>net/netip\<close> (and of \<open>net.IP\<close>) that the program calls: addresses, parsing,
  prefixes and classification. An address is the invalid zero value, an IPv4 address (32 bits) or
  an IPv6 address (128 bits) with its zone, which is empty when there is none. An IPv4-mapped
  address such as \<open>::ffff:127.0.0.1\<close> is an IPv6 address until it is unmapped. Parsers return
  \<open>None\<close> where Go returns an error; the error text is not modelled.
\<close>

section \<open>Addresses\<close>

datatype addr = AddrZero | Addr4 "32 word" | Addr6 "128 word" string

definition Is4 :: "addr \<Rightarrow> bool" where
  "Is4 a = (case a of Addr4 _ \<Rightarrow> True | _ \<Rightarrow> False)"

definition Is6 :: "addr \<Rightarrow> bool" where
  "Is6 a = (case a of Addr6 _ _ \<Rightarrow> True | _ \<Rightarrow> False)"

definition Is4In6 :: "addr \<Rightarrow> bool" where
  "Is4In6 a = (case a of Addr6 w _ \<Rightarrow> drop_bit 32 w = 0xFFFF | _ \<Rightarrow> False)"

definition Unmap :: "addr \<Rightarrow> addr" where
  "Unmap a = (case a of Addr6 w z \<Rightarrow> if drop_bit 32 w = 0xFFFF then Addr4 (ucast w) else a | _ \<Rightarrow> a)"

definition WithZone :: "addr \<Rightarrow> string \<Rightarrow> addr" where
  "WithZone a zone = (case a of Addr6 w _ \<Rightarrow> Addr6 w zone | _ \<Rightarrow> a)"

definition Zone :: "addr \<Rightarrow> string" where
  "Zone a = (case a of Addr6 _ z \<Rightarrow> z | _ \<Rightarrow> [])"

definition IsLoopback :: "addr \<Rightarrow> bool" where
  "IsLoopback a = (case Unmap a of
     Addr4 w \<Rightarrow> drop_bit 24 w = 127 | Addr6 w _ \<Rightarrow> w = 1 | AddrZero \<Rightarrow> False)"

definition IsLinkLocalUnicast :: "addr \<Rightarrow> bool" where
  "IsLinkLocalUnicast a = (case Unmap a of
     Addr4 w \<Rightarrow> drop_bit 16 w = 0xA9FE
   | Addr6 w _ \<Rightarrow> drop_bit 112 w AND 0xFFC0 = 0xFE80
   | AddrZero \<Rightarrow> False)"

definition IPv6Unspecified :: addr where
  "IPv6Unspecified = Addr6 0 []"

section \<open>Bytes\<close>

type_synonym net_IP = "8 word list"

definition be_word :: "8 word list \<Rightarrow> 'a::len word" where
  "be_word bs = word_of_int (foldl (\<lambda>a b. 256 * a + uint b) 0 bs)"

definition AddrFromSlice :: "net_IP \<Rightarrow> addr option" where
  "AddrFromSlice bs =
     (if length bs = 4 then Some (Addr4 (be_word bs))
      else if length bs = 16 then Some (Addr6 (be_word bs) [])
      else None)"

definition be_bytes :: "nat \<Rightarrow> 'a::len word \<Rightarrow> 8 word list" where
  "be_bytes n w = map (\<lambda>i. ucast (drop_bit (8 * i) w)) (rev [0..<n])"

definition AsSlice :: "addr \<Rightarrow> net_IP" where
  "AsSlice a = (case a of AddrZero \<Rightarrow> [] | Addr4 w \<Rightarrow> be_bytes 4 w | Addr6 w _ \<Rightarrow> be_bytes 16 w)"

text \<open>\<open>net.IP.To4() != nil\<close>: four bytes, or sixteen with the IPv4-mapped prefix.\<close>

definition To4_ok :: "net_IP \<Rightarrow> bool" where
  "To4_ok bs \<longleftrightarrow> length bs = 4 \<or> (length bs = 16 \<and> take 12 bs = replicate 10 0 @ [255, 255])"

section \<open>Parsing addresses\<close>

text \<open>\<open>parseIPv4Fields\<close>: \<open>v\<close> is the value of the current field, \<open>n\<close> its number of digits so far.\<close>

fun parseIPv4Fields :: "string \<Rightarrow> int \<Rightarrow> nat \<Rightarrow> int list \<Rightarrow> int list option" where
  "parseIPv4Fields [] v n fs = (if length fs < 3 then None else Some (fs @ [v]))"
| "parseIPv4Fields (c # cs) v n fs =
     (if is_digit c then
        (if n = 1 \<and> v = 0 then None
         else if 10 * v + digit_val c > 255 then None
         else parseIPv4Fields cs (10 * v + digit_val c) (Suc n) fs)
      else if c = CHR ''.'' then
        (if n = 0 \<or> cs = [] then None
         else if length fs = 3 then None
         else parseIPv4Fields cs 0 0 (fs @ [v]))
      else None)"

definition parseIPv4 :: "string \<Rightarrow> addr option" where
  "parseIPv4 s = map_option (\<lambda>fs. Addr4 (be_word (map word_of_int fs))) (parseIPv4Fields s 0 0 [])"

definition hex_val :: "char \<Rightarrow> int option" where
  "hex_val c =
     (if is_digit c then Some (digit_val c)
      else if CHR ''a'' \<le> c \<and> c \<le> CHR ''f'' then Some (of_char c - 87)
      else if CHR ''A'' \<le> c \<and> c \<le> CHR ''F'' then Some (of_char c - 55)
      else None)"

text \<open>One group of hex digits: the number of digits, the value and the rest of the string.\<close>

fun scan_hex :: "string \<Rightarrow> nat \<Rightarrow> int \<Rightarrow> (nat \<times> int \<times> string) option" where
  "scan_hex [] off acc = Some (off, acc, [])"
| "scan_hex (c # cs) off acc =
     (case hex_val c of
        None \<Rightarrow> Some (off, acc, c # cs)
      | Some d \<Rightarrow>
          if off > 3 then None
          else if 16 * acc + d > 65535 then None
          else scan_hex cs (Suc off) (16 * acc + d))"

text \<open>
  The loop of \<open>parseIPv6\<close>: \<open>ip\<close> holds the bytes read so far (its length is the code's \<open>i\<close>), \<open>ell\<close>
  the byte position of \<open>::\<close>. The result is the unread string with both.
\<close>

function parseIPv6_loop :: "string \<Rightarrow> int list \<Rightarrow> nat option \<Rightarrow> (string \<times> int list \<times> nat option) option" where
  "parseIPv6_loop s ip ell =
     (if 16 \<le> length ip then Some (s, ip, ell)
      else case scan_hex s 0 0 of
        None \<Rightarrow> None
      | Some (off, acc, rest) \<Rightarrow>
          if off = 0 then None
          else if rest \<noteq> [] \<and> hd rest = CHR ''.'' then
            (if ell = None \<and> length ip \<noteq> 12 then None
             else if length ip + 4 > 16 then None
             else map_option (\<lambda>fs. ([], ip @ fs, ell)) (parseIPv4Fields s 0 0 []))
          else
            (let ip' = ip @ [acc div 256, acc mod 256] in
             case rest of
               [] \<Rightarrow> Some ([], ip', ell)
             | c # cs \<Rightarrow>
                 if c \<noteq> CHR '':'' \<or> cs = [] then None
                 else if hd cs = CHR '':'' then
                   (if ell \<noteq> None then None
                    else if tl cs = [] then Some ([], ip', Some (length ip'))
                    else parseIPv6_loop (tl cs) ip' (Some (length ip')))
                 else parseIPv6_loop cs ip' ell))"
  by pat_completeness auto
termination
  by (relation "measure (\<lambda>(s, ip, ell). 16 - length ip)") auto

declare parseIPv6_loop.simps [simp del]

definition parseIPv6 :: "string \<Rightarrow> addr option" where
  "parseIPv6 s0 =
     (let s1 = takeWhile (\<lambda>c. c \<noteq> CHR ''%'') s0;
          zone = drop (Suc (length s1)) s0;
          lead = (2 \<le> length s1 \<and> s1 ! 0 = CHR '':'' \<and> s1 ! 1 = CHR '':'');
          s = (if lead then drop 2 s1 else s1)
      in if CHR ''%'' \<in> set s0 \<and> zone = [] then None
         else if lead \<and> s = [] then Some (Addr6 0 zone)
         else case parseIPv6_loop s [] (if lead then Some 0 else None) of
           None \<Rightarrow> None
         | Some (rest, ip, ell) \<Rightarrow>
             if rest \<noteq> [] then None
             else if length ip < 16 then
               (case ell of
                  None \<Rightarrow> None
                | Some e \<Rightarrow> Some (Addr6 (be_word (map word_of_int
                    (take e ip @ replicate (16 - length ip) 0 @ drop e ip))) zone))
             else if ell \<noteq> None then None
             else Some (Addr6 (be_word (map word_of_int ip)) zone))"

text \<open>The first of \<open>.\<close>, \<open>:\<close> and \<open>%\<close> in the string decides.\<close>

definition ParseAddr :: "string \<Rightarrow> addr option" where
  "ParseAddr s =
     (case dropWhile (\<lambda>c. c \<noteq> CHR ''.'' \<and> c \<noteq> CHR '':'' \<and> c \<noteq> CHR ''%'') s of
        [] \<Rightarrow> None
      | c # _ \<Rightarrow> if c = CHR ''.'' then parseIPv4 s else if c = CHR '':'' then parseIPv6 s else None)"

text \<open>\<open>net.ParseIP\<close>: sixteen bytes, IPv4 addresses in mapped form; a zone is refused.\<close>

definition net_ParseIP :: "string \<Rightarrow> net_IP option" where
  "net_ParseIP s =
     (case ParseAddr s of
        None \<Rightarrow> None
      | Some a \<Rightarrow>
          if Zone a \<noteq> [] then None
          else Some (case a of Addr4 w \<Rightarrow> replicate 10 0 @ [255, 255] @ be_bytes 4 w | _ \<Rightarrow> AsSlice a))"

section \<open>Prefixes\<close>

datatype ipprefix = Prefix (pfx_addr: addr) (pfx_bits: nat)

definition ParsePrefix :: "string \<Rightarrow> ipprefix option" where
  "ParsePrefix s =
     (case LastIndexByte s CHR ''/'' of
        None \<Rightarrow> None
      | Some i \<Rightarrow>
          (case ParseAddr (take i s) of
             None \<Rightarrow> None
           | Some ip \<Rightarrow>
               (let b = drop (Suc i) s in
                if Zone ip \<noteq> [] then None
                else if length b > 1 \<and> \<not> (CHR ''1'' \<le> b ! 0 \<and> b ! 0 \<le> CHR ''9'') then None
                else case Atoi b of
                  (_, Some _) \<Rightarrow> None
                | (n, None) \<Rightarrow>
                    if n < 0 \<or> n > (if Is6 ip then 128 else 32) then None
                    else Some (Prefix ip (nat n)))))"

definition Contains :: "ipprefix \<Rightarrow> addr \<Rightarrow> bool" where
  "Contains p a =
     (case (pfx_addr p, a) of
        (Addr4 v, Addr4 w) \<Rightarrow> pfx_bits p \<le> 32 \<and> drop_bit (32 - pfx_bits p) (w XOR v) = 0
      | (Addr6 v _, Addr6 w z) \<Rightarrow>
          pfx_bits p \<le> 128 \<and> z = [] \<and> (w XOR v) AND NOT (mask (128 - pfx_bits p)) = 0
      | _ \<Rightarrow> False)"

section \<open>Printing\<close>

definition string4 :: "32 word \<Rightarrow> string" where
  "string4 w = Join (map (\<lambda>b. Itoa (uint b)) (be_bytes 4 w)) ''.''"

fun hex_digits :: "int \<Rightarrow> string" where
  "hex_digits n =
     (if n < 16 then [''0123456789abcdef'' ! nat n]
      else hex_digits (n div 16) @ [''0123456789abcdef'' ! nat (n mod 16)])"

declare hex_digits.simps [simp del]

definition v6_groups :: "128 word \<Rightarrow> int list" where
  "v6_groups w = map (\<lambda>i. uint (drop_bit (16 * (7 - i)) w) mod 65536) [0..<8]"

text \<open>The first longest run of at least two zero groups, as start and end.\<close>

definition zero_run :: "int list \<Rightarrow> (nat \<times> nat) option" where
  "zero_run gs = fold (\<lambda>i best.
       let l = length (takeWhile (\<lambda>g. g = 0) (drop i gs)) in
       if 2 \<le> l \<and> (case best of None \<Rightarrow> True | Some (s, e) \<Rightarrow> e - s < l) then Some (i, i + l) else best)
     [0..<length gs] None"

definition string6 :: "128 word \<Rightarrow> string" where
  "string6 w =
     (let gs = v6_groups w; hex = (\<lambda>xs. Join (map hex_digits xs) '':'') in
      case zero_run gs of
        None \<Rightarrow> hex gs
      | Some (s, e) \<Rightarrow> hex (take s gs) @ ''::'' @ hex (drop e gs))"

definition addr_String :: "addr \<Rightarrow> string" where
  "addr_String a = (case a of
     AddrZero \<Rightarrow> ''invalid IP''
   | Addr4 w \<Rightarrow> string4 w
   | Addr6 w z \<Rightarrow>
       (if Is4In6 a then ''::ffff:'' @ string4 (ucast w) else string6 w) @
       (if z = [] then [] else ''%'' @ z))"

section \<open>Lemmas\<close>

lemma xor_eq_0_iff: "w XOR v = 0 \<longleftrightarrow> w = (v :: 'a::len word)"
  by (metis xor.left_neutral xor.right_neutral xor_self_eq xor.assoc)

lemma Contains_v4: "Contains (Prefix (Addr4 v) n) (Addr4 w) \<longleftrightarrow> n \<le> 32 \<and> drop_bit (32 - n) w = drop_bit (32 - n) v"
  by (simp add: Contains_def drop_bit_xor xor_eq_0_iff)

lemma and_not_mask_eq_0: "x AND NOT (mask k) = 0 \<longleftrightarrow> drop_bit k x = (0 :: 'a::len word)"
proof
  assume *: "x AND NOT (mask k) = 0"
  have "drop_bit k x = drop_bit k (x AND NOT (mask k))"
    by (auto simp: bit_eq_iff bit_simps dest: bit_imp_le_length)
  with * show "drop_bit k x = 0" by simp
next
  assume *: "drop_bit k x = 0"
  have "x AND NOT (mask k) = push_bit k (drop_bit k x)"
    by (auto simp: bit_eq_iff bit_simps)
  with * show "x AND NOT (mask k) = 0" by simp
qed

lemma Contains_v6: "Contains (Prefix (Addr6 v z) n) (Addr6 w z') \<longleftrightarrow> n \<le> 128 \<and> z' = [] \<and> drop_bit (128 - n) w = drop_bit (128 - n) v"
  by (simp add: Contains_def and_not_mask_eq_0 drop_bit_xor xor_eq_0_iff)

lemma Contains_mixed [simp]:
  "Contains (Prefix (Addr4 v) n) (Addr6 w z) \<longleftrightarrow> False" "Contains (Prefix (Addr6 w z) n) (Addr4 v) \<longleftrightarrow> False"
  "Contains p AddrZero \<longleftrightarrow> False"
  by (simp_all add: Contains_def split: addr.split)

lemma Unmap_simps [simp]: "Unmap (Addr4 w) = Addr4 w" "Unmap AddrZero = AddrZero"
  by (simp_all add: Unmap_def)

lemma Unmap_Unmap [simp]: "Unmap (Unmap a) = Unmap a"
  by (auto simp: Unmap_def split: addr.split)

lemma WithZone_Unmap: "Unmap (WithZone a z) = WithZone (Unmap a) z"
  by (auto simp: Unmap_def WithZone_def split: addr.split)

lemma be_bytes_4: "be_bytes 4 w = [ucast (drop_bit 24 w), ucast (drop_bit 16 w), ucast (drop_bit 8 w), ucast (w :: 32 word)]"
  by (simp add: be_bytes_def upt_rec)

lemma bytes_of_int32:
  assumes "0 \<le> u" "u < 2 ^ 32"
  shows "256 * (256 * (256 * (u div 16777216 mod 256) + u div 65536 mod 256) + u div 256 mod 256) + u mod 256 = (u :: int)"
proof -
  have "u div 16777216 mod 256 = u div 16777216" using assms by simp
  moreover have "256 * (u div 16777216) + u div 65536 mod 256 = u div 65536"
    using zdiv_zmult2_eq[of 256 u 65536] by simp
  moreover have "256 * (u div 65536) + u div 256 mod 256 = u div 256"
    using zdiv_zmult2_eq[of 256 u 256] by simp
  ultimately show ?thesis by simp
qed

lemma be_word_be_bytes_4: "be_word (be_bytes 4 w) = (w :: 32 word)"
proof -
  have b: "0 \<le> uint w" "uint w < 2 ^ 32" using uint_lt2p[of w] by simp_all
  have "foldl (\<lambda>a b. 256 * a + uint b) 0 (be_bytes 4 w) =
    256 * (256 * (256 * (uint w div 16777216 mod 256) + uint w div 65536 mod 256) + uint w div 256 mod 256) + uint w mod 256"
    by (simp add: be_bytes_4 unsigned_ucast_eq drop_bit_eq_div uint_div take_bit_eq_mod)
  then show ?thesis by (simp only: be_word_def bytes_of_int32[OF b] word_of_int_uint)
qed

lemma dec_digits_1: "n < 10 \<Longrightarrow> dec_digits n = [char_of (n + 48)]"
  by (simp add: dec_digits.simps)

lemma dec_digits_2: "10 \<le> n \<Longrightarrow> dec_digits n = dec_digits (n div 10) @ [char_of (n mod 10 + 48)]"
  by (simp add: dec_digits.simps[of n])

lemma parse_octet:
  assumes "0 \<le> b" "b \<le> 255"
  shows "\<exists>n. 0 < n \<and> (\<forall>rest fs. parseIPv4Fields (Itoa b @ rest) 0 0 fs = parseIPv4Fields rest b n fs)"
proof -
  consider "b < 10" | "10 \<le> b" "b < 100" | "100 \<le> b" by linarith
  then show ?thesis
  proof cases
    case 1
    with assms show ?thesis
      by (intro exI[of _ 1]) (simp add: Itoa_def dec_digits_1 digit_char)
  next
    case 2
    have "b div 10 < 10" "0 \<le> b div 10" "b div 10 \<noteq> 0" using 2 by auto
    moreover have "10 * (b div 10) + b mod 10 = b" by simp
    ultimately show ?thesis using 2 assms
      by (intro exI[of _ "Suc (Suc 0)"]) (simp add: Itoa_def dec_digits_2 dec_digits_1 digit_char)
  next
    case 3
    have "b div 10 div 10 < 10" "0 \<le> b div 10 div 10" "b div 10 div 10 \<noteq> 0" "10 \<le> b div 10" "b div 10 \<le> 255" using 3 assms by auto
    moreover have "10 * (b div 10) + b mod 10 = b" "10 * (b div 10 div 10) + b div 10 mod 10 = b div 10" by simp_all
    ultimately show ?thesis using 3 assms
      by (intro exI[of _ "Suc (Suc (Suc 0))"]) (simp add: Itoa_def dec_digits_2 dec_digits_1 digit_char)
  qed
qed

lemma parse_octet_last:
  assumes "0 \<le> b" "b \<le> 255" "length fs = 3"
  shows "parseIPv4Fields (Itoa b) 0 0 fs = Some (fs @ [b])"
  using parse_octet[OF assms(1,2)] assms(3) by (metis append_Nil2 less_irrefl parseIPv4Fields.simps(1))

lemma parse_octet_dot:
  assumes "0 \<le> b" "b \<le> 255" "length fs < 3" "rest \<noteq> []"
  shows "parseIPv4Fields (Itoa b @ CHR ''.'' # rest) 0 0 fs = parseIPv4Fields rest 0 0 (fs @ [b])"
proof -
  obtain n where "0 < n" and n: "\<And>rest fs. parseIPv4Fields (Itoa b @ rest) 0 0 fs = parseIPv4Fields rest b n fs"
    using parse_octet[OF assms(1,2)] by blast
  moreover have "\<not> is_digit CHR ''.''" by (simp add: is_digit_def less_eq_char_def)
  ultimately show ?thesis using assms by simp
qed

lemma uint_8_word: "0 \<le> uint (b :: 8 word)" "uint b \<le> 255"
  using uint_lt2p[of b] by simp_all

lemma Itoa_not_Nil: "0 \<le> n \<Longrightarrow> Itoa n \<noteq> []"
  using dec_digits_digits by (simp add: Itoa_def)

lemma parseIPv4_string4: "parseIPv4 (string4 w) = Some (Addr4 w)"
proof -
  obtain b1 b2 b3 b4 where b: "be_bytes 4 w = [b1, b2, b3, b4]"
    by (simp add: be_bytes_4)
  have "parseIPv4Fields (string4 w) 0 0 [] = Some (map uint (be_bytes 4 w))"
    by (simp add: string4_def b parse_octet_dot parse_octet_last uint_8_word Itoa_not_Nil)
  then show ?thesis by (simp add: parseIPv4_def o_def be_word_be_bytes_4)
qed

lemma dropWhile_digits: "list_all is_digit ds \<Longrightarrow>
  dropWhile (\<lambda>c. c \<noteq> CHR ''.'' \<and> c \<noteq> CHR '':'' \<and> c \<noteq> CHR ''%'') (ds @ rest) =
  dropWhile (\<lambda>c. c \<noteq> CHR ''.'' \<and> c \<noteq> CHR '':'' \<and> c \<noteq> CHR ''%'') rest"
  by (induction ds) (auto simp: is_digit_def less_eq_char_def)

lemma ParseAddr_string4: "ParseAddr (string4 w) = Some (Addr4 w)"
proof -
  obtain b1 b2 b3 b4 where b: "be_bytes 4 w = [b1, b2, b3, b4]"
    by (simp add: be_bytes_4)
  have "list_all is_digit (Itoa (uint b1))"
    using dec_digits_digits[of "uint b1"] uint_8_word[of b1] by (simp add: Itoa_def)
  then show ?thesis
    using parseIPv4_string4[of w] by (simp add: ParseAddr_def string4_def b dropWhile_digits)
qed
end
