(* ===== verification/Routing.thy ===== *)
theory Routing
  imports Netip Errors
begin

text \<open>
  \<open>routing.go\<close>: the address families a direct connection may use, and the dial of one resolved
  address. The TCP dial itself is a parameter: it gets the network and the address and returns a
  connection or an error.
\<close>

datatype IPFamily = FamilyBoth | FamilyIPv4 | FamilyIPv6

definition family_String :: "IPFamily \<Rightarrow> string" where
  "family_String f = (case f of FamilyIPv4 \<Rightarrow> ''ipv4'' | FamilyIPv6 \<Rightarrow> ''ipv6'' | FamilyBoth \<Rightarrow> ''both'')"

definition parseIPFamily :: "string \<Rightarrow> goerr + IPFamily" where
  "parseIPFamily raw =
     (let v = ToLower (TrimSpace raw) in
      if v \<in> set ['''', ''both'', ''auto''] then Inr FamilyBoth
      else if v \<in> set [''ipv4'', ''v4''] then Inr FamilyIPv4
      else if v \<in> set [''ipv6'', ''v6''] then Inr FamilyIPv6
      else Inl (ErrText (''invalid DIRECT_IP_FAMILY '' @ Quote raw @ '': want ipv4, ipv6, or both'')))"

definition familyMatches :: "IPFamily \<Rightarrow> net_IP \<Rightarrow> bool" where
  "familyMatches f ip = (case f of FamilyIPv4 \<Rightarrow> To4_ok ip | FamilyIPv6 \<Rightarrow> \<not> To4_ok ip | FamilyBoth \<Rightarrow> True)"

type_synonym conn = nat
type_synonym tcp_dial = "string \<Rightarrow> string \<Rightarrow> ext_err + conn"

definition dialDirectIP :: "tcp_dial \<Rightarrow> addr \<Rightarrow> int \<Rightarrow> IPFamily \<Rightarrow> goerr + conn" where
  "dialDirectIP tcp ip port family =
     (if \<not> familyMatches family (AsSlice ip) then
        Inl (ErrText (''dial '' @ addr_String ip @ '':'' @ Itoa port @ '': no '' @ family_String family @ '' addresses''))
      else
        (let network = (if Is4 ip then ''tcp4'' else ''tcp6'') in
         case tcp network (JoinHostPort (addr_String ip) (Itoa port)) of
           Inl e \<Rightarrow> Inl (ErrWrap (''dial '' @ addr_String ip @ '':'' @ Itoa port @ '': '') (ext_error e) [])
         | Inr c \<Rightarrow> Inr c))"

text \<open>For an unmapped address the family filter is the address's own family.\<close>

lemma length_be_bytes [simp]: "length (be_bytes n w) = n"
  by (simp add: be_bytes_def)

lemma To4_ok_Addr4 [simp]: "To4_ok (AsSlice (Addr4 w))"
  by (simp add: To4_ok_def AsSlice_def)

lemma parseIPFamily_String: "parseIPFamily (family_String f) = Inr f"
  by (cases f; simp add: family_String_def; code_simp)

end
