(* ===== verification/Dns.thy ===== *)
theory Dns
  imports Netip Errors Routing
begin

text \<open>
  \<open>dns.go\<close>: the DNS cache, the tunnel resolvers with their pauses and probes, and the fallback to
  the local resolver.

  Everything outside the program is an \<open>env\<close>: the clock, the tunnel state, the local resolver, the
  Go resolver that talks to one DNS server, the HTTP client of DNS over HTTPS, and the order in
  which a map is visited. Each answer may depend on how many interactions came before it (the
  counter \<open>tick\<close> of the state), so an \<open>env\<close> is any sequence of outside behaviours; deadlines show
  as errors of the calls they bound. The state carries a \<open>trace\<close> of the names shown to resolvers and
  of the dials made, in order. \<open>tick\<close> and \<open>trace\<close> are the only fields without a counterpart in the
  code. Concurrent misses of one key share a lookup (\<open>singleflight\<close>): here
  a call runs alone, theory \<open>DnsFlight\<close> interleaves calls.
\<close>

section \<open>State\<close>

definition dnsCacheMaxSize :: nat where "dnsCacheMaxSize = 1000"
definition dnsCacheTTL :: duration where "dnsCacheTTL = 30 * time_Second"
definition dnsNegativeTTL :: duration where "dnsNegativeTTL = 10 * time_Second"
definition tunnelLookupTimeout :: duration where "tunnelLookupTimeout = 3 * time_Second"
definition upstreamPause :: duration where "upstreamPause = 10 * time_Second"
definition dnsDegradedWindow :: duration where "dnsDegradedWindow = time_Minute"

record cacheEntry =
  addrs :: "addr list"
  expires :: time
  neg :: bool
  localDirect :: bool

record lookupResult =
  r_addrs :: "addr list"
  authoritative :: bool
  r_localDirect :: bool

definition no_result :: lookupResult where
  "no_result = \<lparr>r_addrs = [], authoritative = False, r_localDirect = False\<rparr>"

text \<open>How an upstream looks names up: one DNS server, or the DoH endpoint of the cache.\<close>

datatype upstream_lookup = ServerLookup string | DohLookup

record upstream =
  u_name :: string
  u_lookup :: upstream_lookup
  pausedUntil :: time
  probing :: bool
  u_ok :: int
  u_fail :: int
  lastOKAt :: time
  lastRTT :: duration
  lastFailed :: bool
  lastErr :: string

definition new_upstream :: "string \<Rightarrow> upstream_lookup \<Rightarrow> upstream" where
  "new_upstream name l = \<lparr>u_name = name, u_lookup = l, pausedUntil = 0, probing = False, u_ok = 0,
     u_fail = 0, lastOKAt = 0, lastRTT = 0, lastFailed = False, lastErr = []\<rparr>"

datatype event =
    AskTunnel string string
  | AskLocal string
  | DialDirect string string
  | DialTunnel string string string string

record dnsCache =
  cache :: "(string, cacheEntry) gomap"
  ttl :: duration
  negativeTTL :: duration
  dns_done :: bool
  lookups :: int
  dohHost :: string
  dohClient :: bool
  tunnel :: "upstream list"
  localOnNXDomain :: bool
  fallbacks :: int
  lastFallback :: int
  tick :: nat
  trace :: "event list"

section \<open>The outside world\<close>

text \<open>
  What \<open>net.Resolver.LookupIPAddr\<close> returns: addresses, a \<open>*net.DNSError\<close> with its \<open>IsNotFound\<close>
  flag and text, or another error.
\<close>

datatype resolver_answer = RAddrs "net_IP list" | RDNSError bool string | ROther ext_err

record dohResponse =
  d_Status :: int
  d_Answer :: "(int \<times> string) list"

text \<open>An HTTP exchange with the DoH endpoint: no response, or a status code and a decoded body.\<close>

datatype doh_answer = HttpErr ext_err | HttpResp int "ext_err + dohResponse"

record env =
  e_now :: "nat \<Rightarrow> time"
  e_tunnelUp :: "nat \<Rightarrow> bool"
  e_local :: "nat \<Rightarrow> string \<Rightarrow> ext_err + net_IP list"
  e_resolver :: "nat \<Rightarrow> string \<Rightarrow> string \<Rightarrow> duration \<Rightarrow> bool \<times> resolver_answer"
  e_doh :: "nat \<Rightarrow> string \<Rightarrow> string \<Rightarrow> string \<Rightarrow> duration \<Rightarrow> bool \<times> doh_answer"
  e_range :: "(string \<times> cacheEntry) list \<Rightarrow> (string \<times> cacheEntry) list"
  e_tcp :: "nat \<Rightarrow> tcp_dial"
  e_dial :: "nat \<Rightarrow> string \<Rightarrow> goerr + conn"

definition time_Now :: "env \<Rightarrow> dnsCache \<Rightarrow> time \<times> dnsCache" where
  "time_Now env c = (e_now env (tick c), c\<lparr>tick := Suc (tick c)\<rparr>)"

definition tunnelUp :: "env \<Rightarrow> dnsCache \<Rightarrow> bool \<times> dnsCache" where
  "tunnelUp env c = (e_tunnelUp env (tick c), c\<lparr>tick := Suc (tick c)\<rparr>)"

definition note_event :: "event \<Rightarrow> dnsCache \<Rightarrow> dnsCache" where
  "note_event ev c = c\<lparr>trace := trace c @ [ev]\<rparr>"

section \<open>Local resolver\<close>

definition toNetip :: "net_IP list \<Rightarrow> addr list" where
  "toNetip ips = map Unmap (List.map_filter AddrFromSlice ips)"

definition lookupLocal :: "env \<Rightarrow> string \<Rightarrow> dnsCache \<Rightarrow> (goerr + addr list) \<times> dnsCache" where
  "lookupLocal env host c =
     (let c' = (note_event (AskLocal host) c)\<lparr>tick := Suc (tick c)\<rparr> in
      case e_local env (tick c) host of
        Inl e \<Rightarrow> (Inl (ext_error e), c')
      | Inr ips \<Rightarrow> (Inr (toNetip ips), c'))"

section \<open>Tunnel resolvers\<close>

text \<open>
  \<open>dnsServerLookup\<close>: ask one DNS server for the rooted name. The first component of the
  environment's answer tells whether a channel to the server was opened.
\<close>

definition dnsServerLookup :: "env \<Rightarrow> string \<Rightarrow> string \<Rightarrow> duration \<Rightarrow> dnsCache \<Rightarrow> (goerr + addr list) \<times> dnsCache" where
  "dnsServerLookup env server host timeout c =
     (let (opened, r) = e_resolver env (tick c) server (host @ ''.'') timeout;
          c' = c\<lparr>tick := Suc (tick c)\<rparr>
      in (case r of
            RAddrs ips \<Rightarrow> Inr (toNetip ips)
          | ROther e \<Rightarrow> Inl (ext_error e)
          | RDNSError notfound msg \<Rightarrow>
              if notfound then Inl ErrNotFound
              else if \<not> opened then Inl (ErrWrap [] ErrUnreachable ('': '' @ msg))
              else Inl (ErrText msg), c'))"

text \<open>A DoH query type: its name in the URL and its number in answers.\<close>

definition dohQueryA :: "string \<times> int" where "dohQueryA = (''A'', 1)"
definition dohQueryAAAA :: "string \<times> int" where "dohQueryAAAA = (''AAAA'', 28)"

definition dohJSONQuery :: "doh_answer \<Rightarrow> int \<Rightarrow> goerr + addr list" where
  "dohJSONQuery resp want =
     (case resp of
        HttpErr e \<Rightarrow> Inl (ext_error e)
      | HttpResp code (Inl e) \<Rightarrow> Inl (ext_error e)
      | HttpResp code (Inr d) \<Rightarrow>
          if d_Status d = 3 then Inl ErrNotFound
          else if code \<noteq> 200 \<or> d_Status d \<noteq> 0 then
            Inl (ErrText (''doh: status '' @ Itoa code @ ''/'' @ Itoa (d_Status d)))
          else Inr (List.map_filter (\<lambda>(t, data). if t \<noteq> want then None else map_option Unmap (ParseAddr data)) (d_Answer d)))"

text \<open>\<open>connected\<close> stays set once any of the queries got a connection.\<close>

fun dohLookup_loop :: "env \<Rightarrow> string \<Rightarrow> duration \<Rightarrow> (string \<times> int) list \<Rightarrow> bool \<Rightarrow> addr list \<Rightarrow> dnsCache
    \<Rightarrow> (goerr + addr list) \<times> dnsCache" where
  "dohLookup_loop env host timeout [] connected out c =
     ((if out = [] then Inl ErrNotFound else Inr out), c)"
| "dohLookup_loop env host timeout ((qname, want) # qs) connected out c =
     (let (got, resp) = e_doh env (tick c) (dohHost c) host qname timeout;
          c' = c\<lparr>tick := Suc (tick c)\<rparr>;
          connected' = (connected \<or> got)
      in case dohJSONQuery resp want of
           Inl e \<Rightarrow>
             (if \<not> connected' \<and> \<not> errors_Is e ErrNotFound
              then Inl (ErrWrap [] ErrUnreachable ('': '' @ err_Error e)) else Inl e, c')
         | Inr as \<Rightarrow> dohLookup_loop env host timeout qs connected' (out @ as) c')"

definition dohLookup :: "env \<Rightarrow> string \<Rightarrow> duration \<Rightarrow> dnsCache \<Rightarrow> (goerr + addr list) \<times> dnsCache" where
  "dohLookup env host timeout c = dohLookup_loop env host timeout [dohQueryA, dohQueryAAAA] False [] c"

text \<open>The call \<open>u.lookup(uctx, host)\<close> of upstream number \<open>i\<close>.\<close>

definition call_upstream :: "env \<Rightarrow> nat \<Rightarrow> string \<Rightarrow> duration \<Rightarrow> dnsCache \<Rightarrow> (goerr + addr list) \<times> dnsCache" where
  "call_upstream env i host timeout c =
     (let c' = note_event (AskTunnel (u_name (tunnel c ! i)) host) c in
      case u_lookup (tunnel c ! i) of
        ServerLookup server \<Rightarrow> dnsServerLookup env server host timeout c'
      | DohLookup \<Rightarrow> dohLookup env host timeout c')"

text \<open>\<open>claim\<close>: whether a lookup may use the resolver now, and the resolver afterwards.\<close>

definition claim :: "time \<Rightarrow> upstream \<Rightarrow> bool \<times> upstream" where
  "claim now u =
     (if pausedUntil u = 0 then (True, u)
      else if probing u \<or> now < pausedUntil u then (False, u)
      else (True, u\<lparr>probing := True\<rparr>))"

fun claim_all :: "time \<Rightarrow> nat \<Rightarrow> upstream list \<Rightarrow> nat list \<times> upstream list" where
  "claim_all now i [] = ([], [])"
| "claim_all now i (u # us) =
     (let (ok, u') = claim now u; (act, us') = claim_all now (Suc i) us
      in (if ok then i # act else act, u' # us'))"

fun releaseProbes :: "nat list \<Rightarrow> upstream list \<Rightarrow> upstream list" where
  "releaseProbes [] us = us"
| "releaseProbes (i # act) us = releaseProbes act (us[i := (us ! i)\<lparr>probing := False\<rparr>])"

definition upd_upstream :: "nat \<Rightarrow> (upstream \<Rightarrow> upstream) \<Rightarrow> dnsCache \<Rightarrow> dnsCache" where
  "upd_upstream i f c = c\<lparr>tunnel := (tunnel c)[i := f (tunnel c ! i)]\<rparr>"

definition upstreamAnswered :: "env \<Rightarrow> nat \<Rightarrow> duration \<Rightarrow> dnsCache \<Rightarrow> dnsCache" where
  "upstreamAnswered env i rtt c =
     (let (now, c) = time_Now env c in
      upd_upstream i (\<lambda>u. u\<lparr>pausedUntil := 0, u_ok := u_ok u + 1, lastOKAt := now, lastRTT := rtt, lastFailed := False\<rparr>) c)"

definition upstreamFailed :: "env \<Rightarrow> nat \<Rightarrow> goerr \<Rightarrow> dnsCache \<Rightarrow> dnsCache" where
  "upstreamFailed env i err c =
     (let (up, c) = tunnelUp env c in
      if \<not> up then c
      else
        (let c = upd_upstream i (\<lambda>u. u\<lparr>u_fail := u_fail u + 1, lastFailed := True, lastErr := err_Error err\<rparr>) c in
         if \<not> errors_Is err ErrUnreachable then upd_upstream i (\<lambda>u. u\<lparr>pausedUntil := 0\<rparr>) c
         else
           (let (now, c) = time_Now env c in
            upd_upstream i (\<lambda>u. u\<lparr>pausedUntil := now + upstreamPause\<rparr>) c)))"

section \<open>One lookup\<close>

type_synonym lookup_out = "(lookupResult \<times> goerr option) \<times> dnsCache"

definition notFound :: "env \<Rightarrow> string \<Rightarrow> dnsCache \<Rightarrow> lookup_out" where
  "notFound env host c =
     (let nf = (\<lparr>r_addrs = [], authoritative = True, r_localDirect = False\<rparr>, Some ErrNotFound) in
      if localOnNXDomain c then
        (case lookupLocal env host c of
           (Inr as, c') \<Rightarrow> ((\<lparr>r_addrs = as, authoritative = True, r_localDirect = True\<rparr>, None), c')
         | (Inl e, c') \<Rightarrow> (nf, c'))
      else (nf, c))"

text \<open>No tunnel resolver answered: count the fallback and ask the local resolver.\<close>

definition lookup_fallback :: "env \<Rightarrow> string \<Rightarrow> dnsCache \<Rightarrow> lookup_out" where
  "lookup_fallback env host c =
     (let (now, c) = time_Now env c;
          c = c\<lparr>fallbacks := fallbacks c + 1, lastFallback := now - unix_epoch * time_Second\<rparr>;
          (r, c) = lookupLocal env host c;
          (ld, c) = (if localOnNXDomain c then (case tunnelUp env c of (up, c) \<Rightarrow> (\<not> up, c)) else (False, c))
      in case r of
           Inr as \<Rightarrow> ((\<lparr>r_addrs = as, authoritative = False, r_localDirect = ld\<rparr>, None), c)
         | Inl e \<Rightarrow> ((\<lparr>r_addrs = [], authoritative = False, r_localDirect = ld\<rparr>, Some e), c))"

text \<open>
  The loop over the claimed resolvers. Each gets an equal share of the time left until \<open>deadline\<close>.
\<close>

fun lookup_loop :: "env \<Rightarrow> time \<Rightarrow> string \<Rightarrow> nat list \<Rightarrow> dnsCache \<Rightarrow> lookup_out" where
  "lookup_loop env deadline host [] c = lookup_fallback env host c"
| "lookup_loop env deadline host (i # act) c =
     (let (now, c) = time_Now env c;
          timeout = quot (time_Sub deadline now) (1 + int (length act));
          (start, c) = time_Now env c;
          (r, c) = call_upstream env i host timeout c;
          (fin, c) = time_Now env c;
          rtt = time_Sub fin start
      in case r of
           Inr as \<Rightarrow> ((\<lparr>r_addrs = as, authoritative = True, r_localDirect = False\<rparr>, None), upstreamAnswered env i rtt c)
         | Inl e \<Rightarrow>
             if errors_Is e ErrNotFound then notFound env host (upstreamAnswered env i rtt c)
             else lookup_loop env deadline host act (upstreamFailed env i e c))"

definition lookup :: "env \<Rightarrow> time \<Rightarrow> string \<Rightarrow> dnsCache \<Rightarrow> lookup_out" where
  "lookup env ctx_deadline host c =
     (let (now, c) = time_Now env c;
          (act, us) = claim_all now 0 (tunnel c);
          (t0, c) = time_Now env (c\<lparr>tunnel := us\<rparr>);
          deadline = min ctx_deadline (t0 + tunnelLookupTimeout);
          (out, c) = lookup_loop env deadline host act c
      in (out, c\<lparr>tunnel := releaseProbes act (tunnel c)\<rparr>))"

section \<open>The cache\<close>

text \<open>The key the eviction loop of \<open>store\<close> ends with, visiting the entries in the given order.\<close>

definition oldest_step :: "string \<times> cacheEntry \<Rightarrow> string \<times> time \<Rightarrow> string \<times> time" where
  "oldest_step kv best =
     (if fst best = [] \<or> expires (snd kv) < snd best then (fst kv, expires (snd kv)) else best)"

definition oldest_key :: "(string \<times> cacheEntry) list \<Rightarrow> string" where
  "oldest_key kvs = fst (fold oldest_step kvs ([], 0))"

definition evict :: "env \<Rightarrow> (string, cacheEntry) gomap \<Rightarrow> (string, cacheEntry) gomap" where
  "evict env m =
     (if dnsCacheMaxSize \<le> length m then
        (let k = oldest_key (e_range env m) in if k \<noteq> [] then AList.delete k m else m)
      else m)"

definition store :: "env \<Rightarrow> string \<Rightarrow> cacheEntry \<Rightarrow> dnsCache \<Rightarrow> dnsCache" where
  "store env key entry c = c\<lparr>cache := AList.update key entry (evict env (cache c))\<rparr>"

definition purge :: "env \<Rightarrow> dnsCache \<Rightarrow> dnsCache" where
  "purge env c =
     (let (now, c) = time_Now env c in c\<lparr>cache := filter (\<lambda>(k, v). \<not> now > expires v) (cache c)\<rparr>)"

definition stop :: "dnsCache \<Rightarrow> dnsCache" where
  "stop c = c\<lparr>dns_done := True\<rparr>"

text \<open>The shared lookup of \<open>cachedLookup\<close>, run on a cache miss.\<close>

definition lookup_and_store :: "env \<Rightarrow> string \<Rightarrow> string \<Rightarrow> (time \<Rightarrow> string \<Rightarrow> dnsCache \<Rightarrow> lookup_out) \<Rightarrow> dnsCache \<Rightarrow> lookup_out" where
  "lookup_and_store env key host lk c =
     (let (t, c) = time_Now env c;
          c = c\<lparr>lookups := lookups c + 1\<rparr>;
          ((res, err), c) = lk (t + 5 * time_Second) host c
      in case err of
           Some e \<Rightarrow>
             (let c = (if authoritative res \<and> errors_Is e ErrNotFound
                       then (case time_Now env c of (now, c) \<Rightarrow>
                         store env key \<lparr>addrs = [], expires = now + negativeTTL c, neg = True, localDirect = False\<rparr> c)
                       else c)
              in ((no_result, Some (NewDNSError host (Some e))), c))
         | None \<Rightarrow>
             (if r_addrs res = [] then ((no_result, Some (ErrText (''no address for '' @ host))), c)
              else if authoritative res then
                (case time_Now env c of (now, c) \<Rightarrow>
                  ((res, None), store env key \<lparr>addrs = r_addrs res, expires = now + ttl c, neg = False, localDirect = r_localDirect res\<rparr> c))
              else ((res, None), c)))"

definition cachedLookup :: "env \<Rightarrow> string \<Rightarrow> string \<Rightarrow> (time \<Rightarrow> string \<Rightarrow> dnsCache \<Rightarrow> lookup_out) \<Rightarrow> dnsCache \<Rightarrow> lookup_out" where
  "cachedLookup env key host lk c =
     (case ParseAddr host of
        Some ip \<Rightarrow> ((\<lparr>r_addrs = [Unmap ip], authoritative = False, r_localDirect = False\<rparr>, None), c)
      | None \<Rightarrow>
          (case map_of (cache c) key of
             None \<Rightarrow> lookup_and_store env key host lk c
           | Some entry \<Rightarrow>
               (let (now, c) = time_Now env c in
                if now < expires entry then
                  (if neg entry then ((no_result, Some (NewDNSError host (Some ErrNotFound))), c)
                   else ((\<lparr>r_addrs = addrs entry, authoritative = True, r_localDirect = localDirect entry\<rparr>, None), c))
                else lookup_and_store env key host lk c)))"

text \<open>\<open>normalizeHost\<close> of \<open>rules.go\<close>; the cache needs it for its keys.\<close>

definition normalizeHost :: "string \<Rightarrow> string" where
  "normalizeHost host = TrimSuffix (ToLower host) ''.''"

definition resolveTunnel :: "env \<Rightarrow> string \<Rightarrow> dnsCache \<Rightarrow> (goerr + addr list \<times> bool) \<times> dnsCache" where
  "resolveTunnel env host0 c =
     (let host = normalizeHost host0 in
      case cachedLookup env host host (lookup env) c of
        ((res, None), c) \<Rightarrow> (Inr (r_addrs res, r_localDirect res), c)
      | ((res, Some e), c) \<Rightarrow> (Inl e, c))"

definition dns_ResolveAll :: "env \<Rightarrow> string \<Rightarrow> dnsCache \<Rightarrow> (goerr + addr list) \<times> dnsCache" where
  "dns_ResolveAll env host c =
     (case resolveTunnel env host c of
        (Inr (as, _), c) \<Rightarrow> (Inr as, c) | (Inl e, c) \<Rightarrow> (Inl e, c))"

definition local_lookup :: "env \<Rightarrow> time \<Rightarrow> string \<Rightarrow> dnsCache \<Rightarrow> lookup_out" where
  "local_lookup env ctx_deadline host c =
     (case lookupLocal env host c of
        (Inr as, c) \<Rightarrow> ((\<lparr>r_addrs = as, authoritative = True, r_localDirect = False\<rparr>, None), c)
      | (Inl e, c) \<Rightarrow> ((\<lparr>r_addrs = [], authoritative = True, r_localDirect = False\<rparr>, Some e), c))"

definition localResolveAll :: "env \<Rightarrow> string \<Rightarrow> dnsCache \<Rightarrow> (goerr + addr list) \<times> dnsCache" where
  "localResolveAll env host0 c =
     (let host = normalizeHost host0 in
      case cachedLookup env (''local:'' @ host) host (local_lookup env) c of
        ((res, None), c) \<Rightarrow> (Inr (r_addrs res), c)
      | ((res, Some e), c) \<Rightarrow> (Inl e, c))"

section \<open>Configuration and status\<close>

definition SetDOH :: "string \<Rightarrow> dnsCache \<Rightarrow> dnsCache" where
  "SetDOH host c = c\<lparr>dohHost := host, dohClient := True, tunnel := [new_upstream host DohLookup]\<rparr>"

definition server_name :: "string \<Rightarrow> string" where
  "server_name server =
     (case SplitHostPort server of Inr (host, port) \<Rightarrow> if port = ''53'' then host else server | Inl _ \<Rightarrow> server)"

definition SetTunnelDNS :: "string list \<Rightarrow> dnsCache \<Rightarrow> dnsCache" where
  "SetTunnelDNS servers c =
     c\<lparr>tunnel := map (\<lambda>s. new_upstream (server_name s) (ServerLookup s)) servers\<rparr>"

record dnsServerStatus =
  s_Name :: string
  s_OK :: int
  s_Fail :: int
  s_RTTMs :: int
  s_LastOKAt :: int
  s_LastFailed :: bool
  s_Paused :: bool
  s_Error :: string

record dnsStatus =
  Mode :: string
  Degraded :: bool
  LocalFallbacks :: int
  LastFallbackAt :: int
  Servers :: "dnsServerStatus list"

definition upstream_status :: "time \<Rightarrow> upstream \<Rightarrow> dnsServerStatus" where
  "upstream_status now u =
     \<lparr>s_Name = u_name u, s_OK = u_ok u, s_Fail = u_fail u, s_RTTMs = Milliseconds (lastRTT u),
      s_LastOKAt = (if lastOKAt u \<noteq> 0 then time_Unix (lastOKAt u) else 0),
      s_LastFailed = lastFailed u, s_Paused = pausedUntil u > now, s_Error = lastErr u\<rparr>"

definition DNSStatus :: "env \<Rightarrow> dnsCache \<Rightarrow> dnsStatus \<times> dnsCache" where
  "DNSStatus env c =
     (let (now, c) = time_Now env c;
          last = lastFallback c;
          at = last + unix_epoch * time_Second;
          servers = map (upstream_status now) (tunnel c)
      in (\<lparr>Mode = (if dohClient c then ''doh'' else ''servers''),
           Degraded = (last \<noteq> 0 \<and> time_Sub now at < dnsDegradedWindow) \<or> list_ex s_Paused servers,
           LocalFallbacks = fallbacks c,
           LastFallbackAt = (if last \<noteq> 0 then time_Unix at else 0),
           Servers = servers\<rparr>, c))"

text \<open>The cache a new rule engine starts with.\<close>

definition new_dnsCache :: dnsCache where
  "new_dnsCache = \<lparr>cache = [], ttl = dnsCacheTTL, negativeTTL = dnsNegativeTTL, dns_done = False, lookups = 0,
     dohHost = [], dohClient = False, tunnel = [], localOnNXDomain = False, fallbacks = 0, lastFallback = 0,
     tick = 0, trace = []\<rparr>"

section \<open>Specification vocabulary\<close>

text \<open>The configuration part of the state, and the names shown to resolvers between two states.\<close>

definition same_config :: "dnsCache \<Rightarrow> dnsCache \<Rightarrow> bool" where
  "same_config c c' \<longleftrightarrow>
     ttl c' = ttl c \<and> negativeTTL c' = negativeTTL c \<and> dns_done c' = dns_done c \<and> dohHost c' = dohHost c \<and>
     dohClient c' = dohClient c \<and> localOnNXDomain c' = localOnNXDomain c \<and>
     map u_name (tunnel c') = map u_name (tunnel c) \<and> map u_lookup (tunnel c') = map u_lookup (tunnel c)"

definition asks :: "(event \<Rightarrow> bool) \<Rightarrow> dnsCache \<Rightarrow> dnsCache \<Rightarrow> bool" where
  "asks P c c' \<longleftrightarrow> (\<exists>evs. trace c' = trace c @ evs \<and> list_all P evs)"

text \<open>What tunnel resolution and direct resolution of a name may show, and to whom.\<close>

definition ask_tunnel :: "string \<Rightarrow> event \<Rightarrow> bool" where
  "ask_tunnel host ev \<longleftrightarrow> (\<exists>s. ev = AskTunnel s host) \<or> ev = AskLocal host"

definition ask_local :: "string \<Rightarrow> event \<Rightarrow> bool" where
  "ask_local host ev \<longleftrightarrow> ev = AskLocal host"

text \<open>
  Between two states only the name \<open>h\<close> was shown, and to the local resolver only in a counted
  fallback or with \<open>localOnNXDomain\<close>.
\<close>

definition discreet :: "string \<Rightarrow> dnsCache \<Rightarrow> dnsCache \<Rightarrow> bool" where
  "discreet h c c' \<longleftrightarrow> fallbacks c \<le> fallbacks c' \<and> localOnNXDomain c' = localOnNXDomain c \<and>
     (\<exists>evs. trace c' = trace c @ evs \<and> list_all (ask_tunnel h) evs \<and>
       (AskLocal h \<in> set evs \<longrightarrow> fallbacks c < fallbacks c' \<or> localOnNXDomain c))"

text \<open>
  The resolvers a lookup may use at time \<open>now\<close>, the questions put to a list of resolvers, and the
  two ways a lookup can go: an authoritative answer from the first resolver that gave one (the local
  resolver asked after it only on NXDOMAIN with \<open>localOnNXDomain\<close>), or a counted fallback after
  every usable resolver was asked.
\<close>

definition claimed :: "time \<Rightarrow> upstream list \<Rightarrow> nat list" where
  "claimed now us = filter (\<lambda>i. fst (claim now (us ! i))) [0..<length us]"

definition asked :: "string \<Rightarrow> dnsCache \<Rightarrow> nat list \<Rightarrow> event list" where
  "asked host c act = map (\<lambda>i. AskTunnel (u_name (tunnel c ! i)) host) act"

definition lookup_outcome :: "string \<Rightarrow> nat list \<Rightarrow> dnsCache \<Rightarrow> lookupResult \<Rightarrow> dnsCache \<Rightarrow> bool" where
  "lookup_outcome host act c res c' \<longleftrightarrow>
     (if authoritative res then
        (\<exists>k. 0 < k \<and> k \<le> length act \<and> fallbacks c' = fallbacks c \<and>
           (trace c' = trace c @ asked host c (take k act) \<or>
            localOnNXDomain c \<and> trace c' = trace c @ asked host c (take k act) @ [AskLocal host]))
      else fallbacks c' = fallbacks c + 1 \<and> trace c' = trace c @ asked host c act @ [AskLocal host])"

text \<open>Every query to a tunnel resolver got a channel, whatever its outcome.\<close>

definition channels_open :: "env \<Rightarrow> bool" where
  "channels_open env \<longleftrightarrow> (\<forall>n s h t. fst (e_resolver env n s h t)) \<and> (\<forall>n e h q t. fst (e_doh env n e h q t))"

text \<open>
  The invariant of the cache: a map with distinct non-empty keys, at most \<open>dnsCacheMaxSize\<close> entries,
  negative entries without addresses, positive ones with valid unmapped addresses, and an entry
  marked as a direct local answer only with \<open>localOnNXDomain\<close>.
\<close>

definition ok_addr :: "addr \<Rightarrow> bool" where
  "ok_addr a \<longleftrightarrow> a \<noteq> AddrZero \<and> Unmap a = a"

definition ok_entry :: "cacheEntry \<Rightarrow> bool" where
  "ok_entry e \<longleftrightarrow> (if neg e then addrs e = [] else addrs e \<noteq> [] \<and> list_all ok_addr (addrs e))"

definition dns_inv :: "dnsCache \<Rightarrow> bool" where
  "dns_inv c \<longleftrightarrow> wf_map (cache c) \<and> length (cache c) \<le> dnsCacheMaxSize \<and> [] \<notin> fst ` set (cache c) \<and>
     list_all (\<lambda>kv. ok_entry (snd kv) \<and> (localDirect (snd kv) \<longrightarrow> localOnNXDomain c)) (cache c)"

section \<open>Concrete worlds\<close>

text \<open>An outside world for concrete runs: 9.9.9.9 answers, 8.8.8.8 says NXDOMAIN, others have no channel.\<close>

definition sample_env :: env where
  "sample_env = \<lparr>e_now = \<lambda>n. 100 * time_Second + int n, e_tunnelUp = \<lambda>_. True,
     e_local = \<lambda>_ _. Inr [[10, 0, 0, 5]],
     e_resolver = \<lambda>_ server name _.
       if server = ''9.9.9.9:53'' then (True, RAddrs [[93, 184, 216, 34]])
       else if server = ''8.8.8.8:53'' then (True, RDNSError True ''no such host'')
       else (False, RDNSError False ''i/o timeout''),
     e_doh = \<lambda>_ _ _ _ _. (True, HttpErr (ExtErr False ''EOF'')), e_range = \<lambda>xs. xs, e_tcp = \<lambda>_ _ _. Inr 7, e_dial = \<lambda>_ _. Inr 8\<rparr>"

definition open_env :: env where
  "open_env = sample_env\<lparr>e_resolver := \<lambda>_ _ _ _. (True, RDNSError False ''i/o timeout'')\<rparr>"

definition sample_cache :: "string list \<Rightarrow> dnsCache" where
  "sample_cache servers = SetTunnelDNS servers new_dnsCache"

text \<open>A cache at its limit.\<close>

definition full_cache :: dnsCache where
  "full_cache = new_dnsCache\<lparr>cache := map (\<lambda>i. (replicate (Suc i) CHR ''a'',
     \<lparr>addrs = [], expires = int i, neg = True, localDirect = False\<rparr>)) [0..<dnsCacheMaxSize]\<rparr>"

definition empty_key_cache :: dnsCache where
  "empty_key_cache = full_cache\<lparr>cache := tl (cache full_cache)
     @ [([], \<lparr>addrs = [], expires = 0, neg = True, localDirect = False\<rparr>)]\<rparr>"

end
