(* ===== verification/DnsLookup.thy ===== *)
theory DnsLookup
  imports Dns
begin

text \<open>
  One lookup of \<open>dns.go\<close>: which resolvers it asks and in which order, when it falls back to the local
  resolver, and what it does to pauses and probes.
\<close>

lemma same_config_refl [simp]: "same_config c c"
  by (simp add: same_config_def)

lemma same_config_trans [trans]: "same_config a b \<Longrightarrow> same_config b c \<Longrightarrow> same_config a c"
  by (simp add: same_config_def)

lemma same_config_length: "same_config c c' \<Longrightarrow> length (tunnel c') = length (tunnel c)"
  unfolding same_config_def by (metis length_map)

lemma asks_refl [simp]: "asks P c c"
  by (simp add: asks_def)

lemma asks_trans [trans]: "asks P a b \<Longrightarrow> asks P b c \<Longrightarrow> asks P a c"
  unfolding asks_def by (metis append_assoc list_all_append)

lemma asks_mono: "asks P a b \<Longrightarrow> (\<And>e. P e \<Longrightarrow> Q e) \<Longrightarrow> asks Q a b"
  unfolding asks_def by (metis list.pred_mono_strong)

lemma asks_trace_eq: "trace c' = trace c \<Longrightarrow> asks P c c'"
  by (simp add: asks_def)

section \<open>Frame conditions\<close>

lemma time_Now_simps [simp]:
  "fst (time_Now env c) = e_now env (tick c)" "snd (time_Now env c) = c\<lparr>tick := Suc (tick c)\<rparr>"
  by (simp_all add: time_Now_def)

lemma lookupLocal_frame [frame_simps]:
  "cache (snd (lookupLocal env host c)) = cache c" "tunnel (snd (lookupLocal env host c)) = tunnel c"
  "fallbacks (snd (lookupLocal env host c)) = fallbacks c" "lookups (snd (lookupLocal env host c)) = lookups c"
  "localOnNXDomain (snd (lookupLocal env host c)) = localOnNXDomain c"
  "same_config c (snd (lookupLocal env host c))"
  "trace (snd (lookupLocal env host c)) = trace c @ [AskLocal host]"
  by (simp_all add: lookupLocal_def note_event_def same_config_def Let_def split: sum.split)

lemma dohLookup_loop_frame:
  "\<exists>n. snd (dohLookup_loop env host timeout qs b out c) = c\<lparr>tick := n\<rparr>"
proof (induction qs arbitrary: b out c)
  case Nil
  show ?case by (rule exI[of _ "tick c"]) simp
next
  case (Cons q qs)
  obtain qn w where q: "q = (qn, w)" by force
  show ?case
  proof (cases "dohJSONQuery (snd (e_doh env (tick c) (dohHost c) host qn timeout)) w")
    case (Inl e)
    then show ?thesis by (auto simp: q case_prod_beta Let_def)
  next
    case (Inr as)
    then show ?thesis
      using Cons.IH[of "b \<or> fst (e_doh env (tick c) (dohHost c) host qn timeout)" "out @ as" "c\<lparr>tick := Suc (tick c)\<rparr>"]
      by (auto simp: q case_prod_beta Let_def)
  qed
qed

lemma call_upstream_state:
  "\<exists>n. snd (call_upstream env i host timeout c) = (note_event (AskTunnel (u_name (tunnel c ! i)) host) c)\<lparr>tick := n\<rparr>"
  using dohLookup_loop_frame
  by (auto simp: call_upstream_def Let_def dnsServerLookup_def dohLookup_def case_prod_beta split: upstream_lookup.split)

lemma call_upstream_frame [frame_simps]:
  "cache (snd (call_upstream env i host t c)) = cache c" "tunnel (snd (call_upstream env i host t c)) = tunnel c"
  "fallbacks (snd (call_upstream env i host t c)) = fallbacks c" "lookups (snd (call_upstream env i host t c)) = lookups c"
  "localOnNXDomain (snd (call_upstream env i host t c)) = localOnNXDomain c"
  "same_config c (snd (call_upstream env i host t c))"
  "trace (snd (call_upstream env i host t c)) = trace c @ [AskTunnel (u_name (tunnel c ! i)) host]"
  using call_upstream_state[of env i host t c] by (auto simp: note_event_def same_config_def)

lemma upd_upstream_frame [frame_simps]:
  "cache (upd_upstream i f c) = cache c" "trace (upd_upstream i f c) = trace c"
  "fallbacks (upd_upstream i f c) = fallbacks c" "lookups (upd_upstream i f c) = lookups c"
  "localOnNXDomain (upd_upstream i f c) = localOnNXDomain c"
  "length (tunnel (upd_upstream i f c)) = length (tunnel c)" "tick (upd_upstream i f c) = tick c"
  by (simp_all add: upd_upstream_def)

lemma upd_upstream_config:
  assumes "\<And>u. u_name (f u) = u_name u \<and> u_lookup (f u) = u_lookup u"
  shows "same_config c (upd_upstream i f c)"
  by (cases "i < length (tunnel c)")
    (auto simp: upd_upstream_def same_config_def map_update assms intro!: nth_equalityI simp: nth_list_update)

lemma upstreamAnswered_frame [frame_simps]:
  "cache (upstreamAnswered env i rtt c) = cache c" "trace (upstreamAnswered env i rtt c) = trace c"
  "fallbacks (upstreamAnswered env i rtt c) = fallbacks c" "lookups (upstreamAnswered env i rtt c) = lookups c"
  "localOnNXDomain (upstreamAnswered env i rtt c) = localOnNXDomain c"
  by (simp_all add: upstreamAnswered_def time_Now_def frame_simps)

lemma upstreamAnswered_config: "same_config c (upstreamAnswered env i rtt c)"
proof -
  have "same_config c (c\<lparr>tick := Suc (tick c)\<rparr>)" by (simp add: same_config_def)
  also have "same_config \<dots> (upstreamAnswered env i rtt c)"
    by (simp add: upstreamAnswered_def time_Now_def upd_upstream_config)
  finally show ?thesis .
qed

lemma upstreamFailed_frame [frame_simps]:
  "cache (upstreamFailed env i e c) = cache c" "trace (upstreamFailed env i e c) = trace c"
  "fallbacks (upstreamFailed env i e c) = fallbacks c" "lookups (upstreamFailed env i e c) = lookups c"
  "localOnNXDomain (upstreamFailed env i e c) = localOnNXDomain c"
  by (simp_all add: upstreamFailed_def tunnelUp_def time_Now_def Let_def frame_simps)

lemma same_config_tick: "same_config c (d\<lparr>tick := n\<rparr>) = same_config c d"
  by (simp add: same_config_def)

lemma upstreamFailed_config: "same_config c (upstreamFailed env i e c)"
  unfolding upstreamFailed_def tunnelUp_def time_Now_def Let_def
  by (auto simp: same_config_tick intro!: same_config_trans[OF _ upd_upstream_config])

lemma notFound_frame [frame_simps]:
  "cache (snd (notFound env host c)) = cache c" "tunnel (snd (notFound env host c)) = tunnel c"
  "fallbacks (snd (notFound env host c)) = fallbacks c" "lookups (snd (notFound env host c)) = lookups c"
  "same_config c (snd (notFound env host c))"
  "trace (snd (notFound env host c)) = trace c @ (if localOnNXDomain c then [AskLocal host] else [])"
  "authoritative (fst (fst (notFound env host c)))"
  using lookupLocal_frame[where env = env and host = host and c = c]
  by (auto simp: notFound_def Let_def split: prod.split sum.split)

lemma lookup_fallback_frame [frame_simps]:
  "cache (snd (lookup_fallback env host c)) = cache c" "tunnel (snd (lookup_fallback env host c)) = tunnel c"
  "fallbacks (snd (lookup_fallback env host c)) = fallbacks c + 1" "lookups (snd (lookup_fallback env host c)) = lookups c"
  "same_config c (snd (lookup_fallback env host c))"
  "trace (snd (lookup_fallback env host c)) = trace c @ [AskLocal host]"
  "\<not> authoritative (fst (fst (lookup_fallback env host c)))"
  by (auto simp: lookup_fallback_def lookupLocal_def note_event_def tunnelUp_def time_Now_def same_config_def Let_def
      split: prod.split sum.split)

lemma asked_config: "same_config c d \<Longrightarrow> set act \<subseteq> {..<length (tunnel c)} \<Longrightarrow> asked host d act = asked host c act"
proof -
  assume s: "same_config c d" and a: "set act \<subseteq> {..<length (tunnel c)}"
  have "u_name (tunnel d ! i) = u_name (tunnel c ! i)" if "i \<in> set act" for i
  proof -
    have "i < length (tunnel c)" "i < length (tunnel d)" using a that same_config_length[OF s] by auto
    then show ?thesis using s unfolding same_config_def by (metis nth_map)
  qed
  then show ?thesis by (simp add: asked_def)
qed

lemma lookup_outcome_Cons:
  assumes out: "lookup_outcome host act d res c'" and cfg: "same_config c d"
    and sub: "set act \<subseteq> {..<length (tunnel c)}"
    and tr: "trace d = trace c @ [AskTunnel (u_name (tunnel c ! i)) host]" and fb: "fallbacks d = fallbacks c"
  shows "lookup_outcome host (i # act) c res c'"
proof -
  have a: "asked host d xs = asked host c xs" if "set xs \<subseteq> set act" for xs
    using asked_config[OF cfg] sub that by blast
  have cons: "asked host c (i # xs) = AskTunnel (u_name (tunnel c ! i)) host # asked host c xs" for xs
    by (simp add: asked_def)
  have nx: "localOnNXDomain d = localOnNXDomain c" using cfg by (simp add: same_config_def)
  show ?thesis
  proof (cases "authoritative res")
    case True
    with out obtain k where "0 < k" "k \<le> length act" "fallbacks c' = fallbacks d"
      "trace c' = trace d @ asked host c (take k act) \<or>
       localOnNXDomain c \<and> trace c' = trace d @ asked host c (take k act) @ [AskLocal host]"
      using a[OF set_take_subset] nx by (auto simp: lookup_outcome_def)
    with True tr fb cons have "0 < Suc k \<and> Suc k \<le> length (i # act) \<and> fallbacks c' = fallbacks c \<and>
       (trace c' = trace c @ asked host c (take (Suc k) (i # act)) \<or>
        localOnNXDomain c \<and> trace c' = trace c @ asked host c (take (Suc k) (i # act)) @ [AskLocal host])"
      by auto
    with True show ?thesis unfolding lookup_outcome_def by auto
  next
    case False
    with out a[of act] tr fb cons show ?thesis by (simp add: lookup_outcome_def)
  qed
qed

lemma lookup_loop_Cons:
  "lookup_loop env dl host (i # act) c =
     (let timeout = quot (time_Sub dl (e_now env (tick c))) (1 + int (length act));
          p = call_upstream env i host timeout (c\<lparr>tick := Suc (Suc (tick c))\<rparr>);
          rtt = time_Sub (e_now env (tick (snd p))) (e_now env (Suc (tick c)));
          d = (snd p)\<lparr>tick := Suc (tick (snd p))\<rparr>
      in case fst p of
           Inr as \<Rightarrow> ((\<lparr>r_addrs = as, authoritative = True, r_localDirect = False\<rparr>, None), upstreamAnswered env i rtt d)
         | Inl e \<Rightarrow>
             if errors_Is e ErrNotFound then notFound env host (upstreamAnswered env i rtt d)
             else lookup_loop env dl host act (upstreamFailed env i e d))"
  by (simp add: time_Now_def case_prod_beta Let_def split: sum.split)

declare lookup_loop.simps(2) [simp del]

lemma call_upstream_then_tick:
  "same_config c ((snd (call_upstream env i host t (c\<lparr>tick := m\<rparr>)))\<lparr>tick := n\<rparr>)"
  "cache ((snd (call_upstream env i host t (c\<lparr>tick := m\<rparr>)))\<lparr>tick := n\<rparr>) = cache c"
  "fallbacks ((snd (call_upstream env i host t (c\<lparr>tick := m\<rparr>)))\<lparr>tick := n\<rparr>) = fallbacks c"
  "lookups ((snd (call_upstream env i host t (c\<lparr>tick := m\<rparr>)))\<lparr>tick := n\<rparr>) = lookups c"
  "trace ((snd (call_upstream env i host t (c\<lparr>tick := m\<rparr>)))\<lparr>tick := n\<rparr>) = trace c @ [AskTunnel (u_name (tunnel c ! i)) host]"
  "localOnNXDomain ((snd (call_upstream env i host t (c\<lparr>tick := m\<rparr>)))\<lparr>tick := n\<rparr>) = localOnNXDomain c"
  "tunnel ((snd (call_upstream env i host t (c\<lparr>tick := m\<rparr>)))\<lparr>tick := n\<rparr>) = tunnel c"
  using call_upstream_frame[where env = env and i = i and host = host and t = t and c = "c\<lparr>tick := m\<rparr>"]
  by (simp_all add: same_config_def)

lemma lookup_loop_frame:
  assumes "set act \<subseteq> {..<length (tunnel c)}"
  shows "cache (snd (lookup_loop env dl host act c)) = cache c \<and> lookups (snd (lookup_loop env dl host act c)) = lookups c \<and>
    same_config c (snd (lookup_loop env dl host act c)) \<and>
    lookup_outcome host act c (fst (fst (lookup_loop env dl host act c))) (snd (lookup_loop env dl host act c))"
  using assms
proof (induction act arbitrary: c)
  case Nil
  then show ?case by (simp add: frame_simps lookup_outcome_def asked_def)
next
  case (Cons i act)
  define t where "t = quot (time_Sub dl (e_now env (tick c))) (1 + int (length act))"
  define p where "p = call_upstream env i host t (c\<lparr>tick := Suc (Suc (tick c))\<rparr>)"
  define rtt where "rtt = time_Sub (e_now env (tick (snd p))) (e_now env (Suc (tick c)))"
  define d where "d = (snd p)\<lparr>tick := Suc (tick (snd p))\<rparr>"
  have unf: "lookup_loop env dl host (i # act) c = (case fst p of
           Inr as \<Rightarrow> ((\<lparr>r_addrs = as, authoritative = True, r_localDirect = False\<rparr>, None), upstreamAnswered env i rtt d)
         | Inl e \<Rightarrow>
             if errors_Is e ErrNotFound then notFound env host (upstreamAnswered env i rtt d)
             else lookup_loop env dl host act (upstreamFailed env i e d))"
    by (simp only: lookup_loop_Cons Let_def t_def p_def rtt_def d_def)
  note d_frame = call_upstream_then_tick[where c = c and env = env and i = i and host = host and t = t
      and m = "Suc (Suc (tick c))" and n = "Suc (tick (snd p))", folded p_def, folded d_def]
  have sc: "same_config c (upstreamAnswered env i rtt d)"
    using d_frame(1) upstreamAnswered_config same_config_trans by blast
  show ?case
  proof (cases "fst p")
    case (Inr as)
    then show ?thesis using unf d_frame sc
      by (auto simp: lookup_outcome_def frame_simps asked_def intro!: exI[of _ 1])
  next
    case (Inl e)
    show ?thesis
    proof (cases "errors_Is e ErrNotFound")
      case True
      have "same_config c (snd (notFound env host (upstreamAnswered env i rtt d)))"
        using sc notFound_frame(5) same_config_trans by blast
      with True Inl show ?thesis using unf d_frame
        by (auto simp: lookup_outcome_def frame_simps asked_def intro!: exI[of _ 1])
    next
      case False
      let ?d' = "upstreamFailed env i e d"
      have sc': "same_config c ?d'" using d_frame(1) upstreamFailed_config same_config_trans by blast
      have sub: "set act \<subseteq> {..<length (tunnel ?d')}" "set act \<subseteq> {..<length (tunnel c)}" using Cons.prems same_config_length[OF sc'] by auto
      have ih: "cache (snd (lookup_loop env dl host act ?d')) = cache c" "lookups (snd (lookup_loop env dl host act ?d')) = lookups c"
        "same_config c (snd (lookup_loop env dl host act ?d'))"
        using Cons.IH[OF sub(1)] d_frame sc' same_config_trans by (auto simp: frame_simps)
      have "lookup_outcome host act ?d' (fst (fst (lookup_loop env dl host act ?d'))) (snd (lookup_loop env dl host act ?d'))"
        using Cons.IH[OF sub(1)] by blast
      then have "lookup_outcome host (i # act) c (fst (fst (lookup_loop env dl host act ?d'))) (snd (lookup_loop env dl host act ?d'))"
        using lookup_outcome_Cons[OF _ sc' sub(2)] d_frame by (simp add: frame_simps)
      with ih show ?thesis using unf Inl False by simp
    qed
  qed
qed

lemma claim_config [simp]:
  "u_name (snd (claim now u)) = u_name u" "u_lookup (snd (claim now u)) = u_lookup u"
  "pausedUntil (snd (claim now u)) = pausedUntil u"
  by (simp_all add: claim_def)

lemma claim_all_snd: "snd (claim_all now i us) = map (\<lambda>u. snd (claim now u)) us"
  by (induction us arbitrary: i) (simp_all add: case_prod_beta Let_def)

lemma claim_all_fst_gen: "fst (claim_all now i us) = map ((+) i) (claimed now us)"
proof (induction us arbitrary: i)
  case Nil
  then show ?case by (simp add: claimed_def)
next
  case (Cons u us)
  have "claimed now (u # us) = (if fst (claim now u) then [0] else []) @ map Suc (claimed now us)"
    by (simp add: claimed_def upt_conv_Cons map_Suc_upt[symmetric] filter_map o_def del: upt_Suc)
  then show ?case using Cons.IH[of "Suc i"] by (simp add: case_prod_beta Let_def)
qed

lemma claim_all_fst: "fst (claim_all now 0 us) = claimed now us"
  by (simp add: claim_all_fst_gen map_idI)

lemma claimed_range: "set (claimed now us) \<subseteq> {..<length us}"
  by (auto simp: claimed_def)

lemma releaseProbes_length [simp]: "length (releaseProbes act us) = length us"
  by (induction act arbitrary: us) auto

lemma releaseProbes_nth:
  "j < length us \<Longrightarrow> releaseProbes act us ! j = (if j \<in> set act then (us ! j)\<lparr>probing := False\<rparr> else us ! j)"
  by (induction act arbitrary: us) (auto simp: nth_list_update_lt)

lemma releaseProbes_config:
  "map u_name (releaseProbes act us) = map u_name us" "map u_lookup (releaseProbes act us) = map u_lookup us"
  by (rule nth_equalityI; simp add: releaseProbes_nth)+

lemma lookup_unfold:
  "lookup env dl host c =
     (let act = claimed (e_now env (tick c)) (tunnel c);
          d = c\<lparr>tunnel := map (\<lambda>u. snd (claim (e_now env (tick c)) u)) (tunnel c), tick := Suc (Suc (tick c))\<rparr>;
          p = lookup_loop env (min dl (e_now env (Suc (tick c)) + tunnelLookupTimeout)) host act d
      in (fst p, (snd p)\<lparr>tunnel := releaseProbes act (tunnel (snd p))\<rparr>))"
proof -
  have "claim_all now 0 us = (claimed now us, map (\<lambda>u. snd (claim now u)) us)" for now us
    using claim_all_fst claim_all_snd by (metis prod.collapse)
  then show ?thesis by (simp add: lookup_def time_Now_def case_prod_beta Let_def)
qed

lemma asked_claim:
  assumes "tunnel d = map (\<lambda>u. snd (claim now u)) (tunnel c)" and "set act \<subseteq> {..<length (tunnel c)}"
  shows "asked host d act = asked host c act"
  using assms by (auto simp: asked_def)

lemma lookup_spec:
  assumes "lookup env dl host c = ((res, err), c')"
  shows "cache c' = cache c \<and> lookups c' = lookups c \<and> same_config c c' \<and>
    lookup_outcome host (claimed (e_now env (tick c)) (tunnel c)) c res c'"
proof -
  define now where "now = e_now env (tick c)"
  define act where "act = claimed now (tunnel c)"
  define d where "d = c\<lparr>tunnel := map (\<lambda>u. snd (claim now u)) (tunnel c), tick := Suc (Suc (tick c))\<rparr>"
  define p where "p = lookup_loop env (min dl (e_now env (Suc (tick c)) + tunnelLookupTimeout)) host act d"
  have eq: "fst (fst p) = res" "c' = (snd p)\<lparr>tunnel := releaseProbes act (tunnel (snd p))\<rparr>"
    using assms by (auto simp: lookup_unfold Let_def now_def act_def d_def p_def)
  have act: "set act \<subseteq> {..<length (tunnel d)}" "set act \<subseteq> {..<length (tunnel c)}"
    using claimed_range by (auto simp: act_def d_def)
  have d: "same_config c d" by (simp add: d_def same_config_def o_def)
  note fr = lookup_loop_frame[OF act(1), of env "min dl (e_now env (Suc (tick c)) + tunnelLookupTimeout)" host, folded p_def]
  have "same_config c (snd p)" using fr d same_config_trans by blast
  then have cfg: "same_config c c'" by (simp add: eq same_config_def releaseProbes_config)
  have a: "asked host d xs = asked host c xs" if "set xs \<subseteq> set act" for xs
    using asked_config[OF d] act that by blast
  have ds: "trace d = trace c" "fallbacks d = fallbacks c" "localOnNXDomain d = localOnNXDomain c"
    by (simp_all add: d_def)
  have "lookup_outcome host act d res c'"
    using fr eq by (simp add: lookup_outcome_def)
  then have "lookup_outcome host act c res c'"
    unfolding lookup_outcome_def ds a[OF order_refl] a[OF set_take_subset] .
  with cfg show ?thesis using fr eq by (simp add: d_def act_def now_def)
qed

lemma upd_upstream_nth:
  "j < length (tunnel c) \<Longrightarrow> tunnel (upd_upstream i f c) ! j = (if i = j then f (tunnel c ! j) else tunnel c ! j)"
  by (simp add: upd_upstream_def nth_list_update_lt)

lemma upstreamAnswered_nth:
  assumes "j < length (tunnel c)"
  shows "probing (tunnel (upstreamAnswered env i rtt c) ! j) = probing (tunnel c ! j)"
    and "i \<noteq> j \<Longrightarrow> tunnel (upstreamAnswered env i rtt c) ! j = tunnel c ! j"
    and "pausedUntil (tunnel (upstreamAnswered env i rtt c) ! j) = (if i = j then 0 else pausedUntil (tunnel c ! j))"
  using assms by (simp_all add: upstreamAnswered_def time_Now_def upd_upstream_nth)

lemma upstreamFailed_nth:
  assumes "j < length (tunnel c)"
  shows "probing (tunnel (upstreamFailed env i e c) ! j) = probing (tunnel c ! j)"
    and "i \<noteq> j \<Longrightarrow> tunnel (upstreamFailed env i e c) ! j = tunnel c ! j"
    and "pausedUntil (tunnel (upstreamFailed env i e c) ! j) =
      (if i \<noteq> j \<or> \<not> e_tunnelUp env (tick c) then pausedUntil (tunnel c ! j)
       else if errors_Is e ErrUnreachable then e_now env (Suc (tick c)) + upstreamPause
       else 0)"
  using assms by (simp_all add: upstreamFailed_def time_Now_def tunnelUp_def upd_upstream_nth upd_upstream_frame Let_def)

lemma lookup_loop_others:
  assumes "j < length (tunnel c)"
  shows "probing (tunnel (snd (lookup_loop env dl host act c)) ! j) = probing (tunnel c ! j) \<and>
    (j \<notin> set act \<longrightarrow> tunnel (snd (lookup_loop env dl host act c)) ! j = tunnel c ! j)"
  using assms
proof (induction act arbitrary: c)
  case Nil
  then show ?case by (simp add: frame_simps)
next
  case (Cons i act)
  define t where "t = quot (time_Sub dl (e_now env (tick c))) (1 + int (length act))"
  define p where "p = call_upstream env i host t (c\<lparr>tick := Suc (Suc (tick c))\<rparr>)"
  define rtt where "rtt = time_Sub (e_now env (tick (snd p))) (e_now env (Suc (tick c)))"
  define d where "d = (snd p)\<lparr>tick := Suc (tick (snd p))\<rparr>"
  have unf: "lookup_loop env dl host (i # act) c = (case fst p of
           Inr as \<Rightarrow> ((\<lparr>r_addrs = as, authoritative = True, r_localDirect = False\<rparr>, None), upstreamAnswered env i rtt d)
         | Inl e \<Rightarrow>
             if errors_Is e ErrNotFound then notFound env host (upstreamAnswered env i rtt d)
             else lookup_loop env dl host act (upstreamFailed env i e d))"
    by (simp only: lookup_loop_Cons Let_def t_def p_def rtt_def d_def)
  have d: "tunnel d = tunnel c" by (simp add: d_def p_def frame_simps)
  have len: "length (tunnel (upstreamFailed env i e d)) = length (tunnel c)" for e
    using same_config_length[OF upstreamFailed_config] d by simp
  show ?case using Cons.IH[of "upstreamFailed env i e d" for e] Cons.prems d len
    by (auto simp: unf frame_simps upstreamAnswered_nth upstreamFailed_nth split: sum.split)
qed

lemma lookup_loop_tunnel_length: "set act \<subseteq> {..<length (tunnel c)} \<Longrightarrow>
    length (tunnel (snd (lookup_loop env dl host act c))) = length (tunnel c)"
  using lookup_loop_frame same_config_length by blast

lemma dohJSONQuery_err: "dohJSONQuery resp want = Inl e \<Longrightarrow> \<not> errors_Is e ErrUnreachable"
  by (auto simp: dohJSONQuery_def split: doh_answer.splits sum.splits if_splits)

lemma dohLookup_loop_open:
  assumes "channels_open env"
  shows "fst (dohLookup_loop env host t qs b out c) = Inl e \<Longrightarrow> \<not> errors_Is e ErrUnreachable"
proof (induction qs arbitrary: b out c)
  case Nil
  then show ?case by (auto split: if_splits)
next
  case (Cons q qs)
  have "fst (e_doh env n ep h qn t)" for n ep h qn t using assms by (simp add: channels_open_def)
  with Cons show ?case
    by (cases q) (auto simp: case_prod_beta Let_def dest: dohJSONQuery_err split: sum.splits if_splits)
qed

lemma call_upstream_open:
  assumes "channels_open env" and "fst (call_upstream env i host t c) = Inl e"
  shows "\<not> errors_Is e ErrUnreachable"
proof -
  have "fst (e_resolver env n s h t)" for n s h t using assms(1) by (simp add: channels_open_def)
  then show ?thesis using assms dohLookup_loop_open[OF assms(1)]
    by (auto simp: call_upstream_def Let_def dnsServerLookup_def dohLookup_def case_prod_beta
        split: upstream_lookup.splits resolver_answer.splits if_splits)
qed

lemma lookup_loop_open:
  assumes "channels_open env" and "j < length (tunnel c)"
  shows "pausedUntil (tunnel (snd (lookup_loop env dl host act c)) ! j) \<in> {0, pausedUntil (tunnel c ! j)}"
  using assms(2)
proof (induction act arbitrary: c)
  case Nil
  then show ?case by (simp add: frame_simps)
next
  case (Cons i act)
  define t where "t = quot (time_Sub dl (e_now env (tick c))) (1 + int (length act))"
  define p where "p = call_upstream env i host t (c\<lparr>tick := Suc (Suc (tick c))\<rparr>)"
  define rtt where "rtt = time_Sub (e_now env (tick (snd p))) (e_now env (Suc (tick c)))"
  define d where "d = (snd p)\<lparr>tick := Suc (tick (snd p))\<rparr>"
  have unf: "lookup_loop env dl host (i # act) c = (case fst p of
           Inr as \<Rightarrow> ((\<lparr>r_addrs = as, authoritative = True, r_localDirect = False\<rparr>, None), upstreamAnswered env i rtt d)
         | Inl e \<Rightarrow>
             if errors_Is e ErrNotFound then notFound env host (upstreamAnswered env i rtt d)
             else lookup_loop env dl host act (upstreamFailed env i e d))"
    by (simp only: lookup_loop_Cons Let_def t_def p_def rtt_def d_def)
  have d: "tunnel d = tunnel c" by (simp add: d_def p_def frame_simps)
  have len: "length (tunnel (upstreamFailed env i e d)) = length (tunnel c)" for e
    using same_config_length[OF upstreamFailed_config] d by simp
  show ?case
  proof (cases "fst p")
    case (Inr as)
    then show ?thesis using Cons.prems d by (simp add: unf upstreamAnswered_nth)
  next
    case (Inl e)
    then have "\<not> errors_Is e ErrUnreachable" using call_upstream_open[OF assms(1)] by (simp add: p_def)
    then show ?thesis using Cons.IH[of "upstreamFailed env i e d"] Cons.prems d len Inl
      by (auto simp: unf frame_simps upstreamAnswered_nth upstreamFailed_nth)
  qed
qed

section \<open>Properties\<close>



text \<open>
  A lookup releases every probe it claimed, whatever its outcome, and changes no resolver it
  did not claim. So a failed or abandoned probe never blocks a resolver for good.
\<close>

theorem lookup_probes:
  assumes "j < length (tunnel c)"
  shows "if j \<in> set (claimed (e_now env (tick c)) (tunnel c))
    then \<not> probing (tunnel (snd (lookup env dl host c)) ! j)
    else tunnel (snd (lookup env dl host c)) ! j = tunnel c ! j"
proof -
  let ?now = "e_now env (tick c)"
  let ?act = "claimed ?now (tunnel c)"
  let ?d = "c\<lparr>tunnel := map (\<lambda>u. snd (claim ?now u)) (tunnel c), tick := Suc (Suc (tick c))\<rparr>"
  let ?p = "lookup_loop env (min dl (e_now env (Suc (tick c)) + tunnelLookupTimeout)) host ?act ?d"
  have j: "j < length (tunnel ?d)" "j < length (tunnel (snd ?p))"
    using assms lookup_loop_tunnel_length[of ?act ?d] claimed_range[of ?now "tunnel c"] by auto
  have "snd (claim ?now (tunnel c ! j)) = tunnel c ! j" if "j \<notin> set ?act"
    using that assms by (auto simp: claimed_def claim_def split: if_splits)
  then show ?thesis
    using lookup_loop_others[OF j(1), of env _ host ?act] j assms
    by (auto simp: lookup_unfold Let_def releaseProbes_nth)
qed

theorem lookup_probes_witness:
  "claimed (e_now sample_env 0) (tunnel (sample_cache [''1.1.1.1:53'', ''9.9.9.9:53''])) = [0, 1] \<and>
   \<not> probing (tunnel (snd (lookup sample_env 0 ''a.example'' (sample_cache [''1.1.1.1:53'', ''9.9.9.9:53'']))) ! 1)"
proof -
  have a: "claimed (e_now sample_env 0) (tunnel (sample_cache [''1.1.1.1:53'', ''9.9.9.9:53''])) = [0, 1]" by code_simp
  have b: "1 < length (tunnel (sample_cache [''1.1.1.1:53'', ''9.9.9.9:53'']))" "tick (sample_cache [''1.1.1.1:53'', ''9.9.9.9:53'']) = 0"
    by (simp_all add: sample_cache_def SetTunnelDNS_def new_dnsCache_def)
  show ?thesis using lookup_probes[OF b(1), of sample_env 0 "''a.example''"] by (simp add: a b)
qed

text \<open>
  If every query got a channel to its resolver then no lookup pauses a resolver: a query that
  merely timed out or failed behind an open channel leaves it unpaused (or clears its pause).
\<close>

theorem open_channel_never_pauses:
  assumes "channels_open env" and "j < length (tunnel c)"
  shows "pausedUntil (tunnel (snd (lookup env dl host c)) ! j) \<in> {0, pausedUntil (tunnel c ! j)}"
proof -
  let ?now = "e_now env (tick c)"
  let ?act = "claimed ?now (tunnel c)"
  let ?d = "c\<lparr>tunnel := map (\<lambda>u. snd (claim ?now u)) (tunnel c), tick := Suc (Suc (tick c))\<rparr>"
  let ?p = "lookup_loop env (min dl (e_now env (Suc (tick c)) + tunnelLookupTimeout)) host ?act ?d"
  have j: "j < length (tunnel ?d)" "j < length (tunnel (snd ?p))"
    using assms lookup_loop_tunnel_length[of ?act ?d] claimed_range[of ?now "tunnel c"] by auto
  show ?thesis
    using lookup_loop_open[OF assms(1) j(1), of _ host ?act] j assms
    by (simp add: lookup_unfold Let_def releaseProbes_nth)
qed

theorem open_channel_never_pauses_witness:
  "pausedUntil (tunnel (snd (lookup open_env 0 ''a.example'' (sample_cache [''1.1.1.1:53'']))) ! 0) = 0"
proof -
  have a: "channels_open open_env" by (simp add: channels_open_def open_env_def sample_env_def)
  have b: "0 < length (tunnel (sample_cache [''1.1.1.1:53'']))" "pausedUntil (tunnel (sample_cache [''1.1.1.1:53'']) ! 0) = 0"
    by (simp_all add: sample_cache_def SetTunnelDNS_def new_dnsCache_def new_upstream_def)
  show ?thesis using open_channel_never_pauses[OF a b(1), of 0 "''a.example''"] by (simp add: b)
qed

end
