(* ===== verification/DnsCache.thy ===== *)
theory DnsCache
  imports DnsLookup
begin

text \<open>
  The cache of \<open>dns.go\<close>: its invariant, eviction, what is stored and reused, and the contract the
  rule engine and the opener get from the two resolving functions (locale \<open>resolver\<close>).
\<close>

section \<open>Addresses\<close>

lemma ok_addr_Unmap: "a \<noteq> AddrZero \<Longrightarrow> ok_addr (Unmap a)"
  by (cases a) (auto simp: ok_addr_def Unmap_def)

lemma AddrFromSlice_nonzero: "AddrFromSlice ip = Some a \<Longrightarrow> a \<noteq> AddrZero"
  by (auto simp: AddrFromSlice_def split: if_splits)

lemma ParseAddr_nonzero [simp]: "ParseAddr s \<noteq> Some AddrZero"
  by (auto simp: ParseAddr_def parseIPv4_def parseIPv6_def Let_def
      split: if_splits option.splits prod.splits list.splits)

lemma toNetip_ok: "list_all ok_addr (toNetip ips)"
  by (auto simp: toNetip_def list_all_iff set_map_filter intro!: ok_addr_Unmap dest: AddrFromSlice_nonzero)

lemma dohJSONQuery_ok: "dohJSONQuery resp want = Inr as \<Longrightarrow> list_all ok_addr as"
  by (auto simp: dohJSONQuery_def list_all_iff set_map_filter split: doh_answer.splits sum.splits if_splits
      intro!: ok_addr_Unmap)

lemma dohLookup_loop_ok:
  "list_all ok_addr out \<Longrightarrow> fst (dohLookup_loop env host t qs b out c) = Inr as \<Longrightarrow> list_all ok_addr as"
proof (induction qs arbitrary: b out c)
  case Nil
  then show ?case by (auto split: if_splits)
next
  case (Cons q qs)
  obtain n w where q: "q = (n, w)" by force
  show ?case
  proof (cases "dohJSONQuery (snd (e_doh env (tick c) (dohHost c) host n t)) w")
    case (Inl e)
    with Cons.prems show ?thesis by (auto simp: q case_prod_beta Let_def split: if_splits)
  next
    case (Inr as')
    then have "list_all ok_addr (out @ as')" using Cons.prems dohJSONQuery_ok by simp
    from Cons.IH[OF this] Cons.prems Inr show ?thesis by (auto simp: q case_prod_beta Let_def)
  qed
qed

lemma call_upstream_ok: "fst (call_upstream env i host t c) = Inr as \<Longrightarrow> list_all ok_addr as"
  by (auto simp: call_upstream_def Let_def dnsServerLookup_def dohLookup_def case_prod_beta toNetip_ok
      split: upstream_lookup.splits resolver_answer.splits if_splits dest: dohLookup_loop_ok[rotated])

lemma lookupLocal_ok: "fst (lookupLocal env host c) = Inr as \<Longrightarrow> list_all ok_addr as"
  by (auto simp: lookupLocal_def Let_def toNetip_ok split: sum.splits)

lemma notFound_ok: "list_all ok_addr (r_addrs (fst (fst (notFound env host c))))"
  by (auto simp: notFound_def Let_def lookupLocal_def toNetip_ok split: sum.splits prod.splits)

lemma lookup_fallback_ok: "list_all ok_addr (r_addrs (fst (fst (lookup_fallback env host c))))"
  by (auto simp: lookup_fallback_def Let_def lookupLocal_def time_Now_def toNetip_ok split: sum.splits prod.splits)

lemma lookup_loop_ok: "list_all ok_addr (r_addrs (fst (fst (lookup_loop env dl host act c))))"
proof (induction act arbitrary: c)
  case Nil
  then show ?case by (simp add: lookup_fallback_ok)
next
  case (Cons i act)
  then show ?case
    by (auto simp: lookup_loop_Cons Let_def notFound_ok dest: call_upstream_ok split: sum.split)
qed

lemma lookup_ok: "list_all ok_addr (r_addrs (fst (fst (lookup env dl host c))))"
  by (simp add: lookup_unfold Let_def lookup_loop_ok)

lemma notFound_direct: "r_localDirect (fst (fst (notFound env host c))) \<Longrightarrow> localOnNXDomain c"
  by (auto simp: notFound_def Let_def split: if_splits)

lemma lookup_fallback_direct: "r_localDirect (fst (fst (lookup_fallback env host c))) \<Longrightarrow> localOnNXDomain c"
  by (auto simp: lookup_fallback_def Let_def lookupLocal_def note_event_def tunnelUp_def time_Now_def split: sum.splits if_splits)

lemma lookup_loop_direct: "r_localDirect (fst (fst (lookup_loop env dl host act c))) \<Longrightarrow> localOnNXDomain c"
proof (induction act arbitrary: c)
  case Nil
  then show ?case by (simp add: lookup_fallback_direct)
next
  case (Cons i act)
  show ?case using Cons.prems
    by (auto simp: lookup_loop_Cons Let_def frame_simps split: sum.splits if_splits dest!: Cons.IH notFound_direct)
qed

lemma lookup_direct: "r_localDirect (fst (fst (lookup env dl host c))) \<Longrightarrow> localOnNXDomain c"
  using lookup_loop_direct by (fastforce simp: lookup_unfold Let_def)

lemma local_lookup_ok: "list_all ok_addr (r_addrs (fst (fst (local_lookup env dl host c))))"
  using lookupLocal_ok[of env host c] by (auto simp: local_lookup_def split: sum.split prod.split)

section \<open>Eviction\<close>

lemma fold_oldest:
  assumes "k \<noteq> []" and "[] \<notin> fst ` set kvs"
  shows "fst (fold oldest_step kvs (k, t)) \<noteq> [] \<and>
    (fold oldest_step kvs (k, t) = (k, t) \<or>
     (\<exists>v. (fst (fold oldest_step kvs (k, t)), v) \<in> set kvs \<and> expires v = snd (fold oldest_step kvs (k, t)))) \<and>
    snd (fold oldest_step kvs (k, t)) \<le> t \<and> (\<forall>kv\<in>set kvs. snd (fold oldest_step kvs (k, t)) \<le> expires (snd kv))"
  using assms
proof (induction kvs arbitrary: k t)
  case Nil
  then show ?case by simp
next
  case (Cons kv kvs)
  show ?case
  proof (cases "expires (snd kv) < t")
    case True
    then have s: "oldest_step kv (k, t) = (fst kv, expires (snd kv))" by (simp add: oldest_step_def)
    have "fst kv \<noteq> []" "[] \<notin> fst ` set kvs" using Cons.prems by auto
    from Cons.IH[OF this, of "expires (snd kv)"] True s show ?thesis by (cases kv) auto
  next
    case False
    then have s: "oldest_step kv (k, t) = (k, t)" using Cons.prems by (simp add: oldest_step_def)
    have "k \<noteq> []" "[] \<notin> fst ` set kvs" using Cons.prems by auto
    from Cons.IH[OF this, of t] False s show ?thesis by auto
  qed
qed

lemma oldest_key_min:
  assumes "kvs \<noteq> []" and "[] \<notin> fst ` set kvs"
  shows "oldest_key kvs \<noteq> [] \<and> (\<exists>v. (oldest_key kvs, v) \<in> set kvs \<and> (\<forall>kv\<in>set kvs. expires v \<le> expires (snd kv)))"
proof -
  obtain k e r where kvs: "kvs = (k, e) # r" using assms(1) by (metis list.exhaust prod.collapse)
  have "k \<noteq> []" "[] \<notin> fst ` set r" using assms(2) kvs by auto
  from fold_oldest[OF this, of "expires e"]
  show ?thesis by (fastforce simp: oldest_key_def kvs oldest_step_def)
qed

text \<open>Which entry \<open>store\<close> drops, and what the map holds afterwards.\<close>

lemma store_spec:
  assumes "range_order (e_range env)" and "wf_map (cache c)" and "[] \<notin> fst ` set (cache c)"
  shows "if length (cache c) < dnsCacheMaxSize
    then map_of (cache (store env key entry c)) = (map_of (cache c))(key \<mapsto> entry)
    else \<exists>k v. map_of (cache c) k = Some v \<and>
      (\<forall>k' v'. map_of (cache c) k' = Some v' \<longrightarrow> expires v \<le> expires v') \<and>
      map_of (cache (store env key entry c)) = (map_of (cache c))(k := None, key \<mapsto> entry)"
proof (cases "length (cache c) < dnsCacheMaxSize")
  case True
  then show ?thesis by (simp add: store_def evict_def update_conv')
next
  case False
  then have ne: "cache c \<noteq> []" by (auto simp: dnsCacheMaxSize_def)
  have st: "set (e_range env (cache c)) = set (cache c)" by (rule range_order_set[OF assms(1)])
  then have "e_range env (cache c) \<noteq> []" "[] \<notin> fst ` set (e_range env (cache c))" using ne assms(3) by auto
  from oldest_key_min[OF this] obtain v where k: "oldest_key (e_range env (cache c)) \<noteq> []"
    "(oldest_key (e_range env (cache c)), v) \<in> set (cache c)" "\<forall>kv\<in>set (cache c). expires v \<le> expires (snd kv)"
    using st by auto
  then have "map_of (cache c) (oldest_key (e_range env (cache c))) = Some v"
    using map_of_in_set[OF assms(2)] by blast
  moreover have "\<forall>k' v'. map_of (cache c) k' = Some v' \<longrightarrow> expires v \<le> expires v'"
    using k(3) map_of_SomeD by fastforce
  moreover have "map_of (cache (store env key entry c)) =
      (map_of (cache c))(oldest_key (e_range env (cache c)) := None, key \<mapsto> entry)"
    using False k(1) gomap.replace_lookup[OF assms(2), of key entry True "oldest_key (e_range env (cache c))"]
    by (simp add: store_def evict_def Let_def)
  ultimately show ?thesis using False by (simp only: if_False) blast
qed

lemma store_length:
  assumes "range_order (e_range env)" and "dns_inv c"
  shows "length (cache (store env key entry c)) \<le> dnsCacheMaxSize"
proof -
  have inv: "wf_map (cache c)" "length (cache c) \<le> dnsCacheMaxSize" "[] \<notin> fst ` set (cache c)"
    using assms(2) by (auto simp: dns_inv_def)
  have st: "set (e_range env (cache c)) = set (cache c)" by (rule range_order_set[OF assms(1)])
  let ?k = "oldest_key (e_range env (cache c))"
  have k: "?k \<noteq> [] \<and> map_of (cache c) ?k \<noteq> None" if "dnsCacheMaxSize \<le> length (cache c)"
  proof -
    have "cache c \<noteq> []" using that by (auto simp: dnsCacheMaxSize_def)
    then have "e_range env (cache c) \<noteq> []" "[] \<notin> fst ` set (e_range env (cache c))" using st inv by auto
    from oldest_key_min[OF this] show ?thesis using st map_of_in_set[OF inv(1)] by auto
  qed
  have "length (AList.update key entry (if dnsCacheMaxSize \<le> length (cache c) then AList.delete ?k (cache c) else cache c))
      \<le> dnsCacheMaxSize"
    by (rule gomap.replace_bound[OF inv(1,2)]) (use k in \<open>auto simp: dnsCacheMaxSize_def\<close>)
  then show ?thesis using k by (auto simp: store_def evict_def Let_def split: if_splits)
qed

lemma set_evict: "set (evict env m) \<subseteq> set m"
  by (auto simp: evict_def Let_def AList.delete_eq)

lemma store_inv [inv_intros]:
  assumes "range_order (e_range env)" and "dns_inv c" and "key \<noteq> []" and "ok_entry entry"
    and "localDirect entry \<Longrightarrow> localOnNXDomain c"
  shows "dns_inv (store env key entry c)"
proof -
  have inv: "wf_map (cache c)" "[] \<notin> fst ` set (cache c)"
    "list_all (\<lambda>kv. ok_entry (snd kv) \<and> (localDirect (snd kv) \<longrightarrow> localOnNXDomain c)) (cache c)"
    using assms(2) by (auto simp: dns_inv_def)
  have sub: "set (cache (store env key entry c)) \<subseteq> insert (key, entry) (set (cache c))"
    using set_update_alist[of key entry "evict env (cache c)"] set_evict[of env "cache c"] by (auto simp: store_def)
  have "wf_map (cache (store env key entry c))"
    using inv by (simp add: store_def evict_def Let_def)
  moreover have "[] \<notin> fst ` set (cache (store env key entry c))"
    using sub inv(2) assms(3) by force
  moreover have "list_all (\<lambda>kv. ok_entry (snd kv) \<and> (localDirect (snd kv) \<longrightarrow> localOnNXDomain c)) (cache (store env key entry c))"
    using sub inv(3) assms(4,5) by (auto simp: list_all_iff)
  moreover have "localOnNXDomain (store env key entry c) = localOnNXDomain c" by (simp add: store_def)
  ultimately show ?thesis using store_length[OF assms(1,2)] by (simp add: dns_inv_def)
qed

lemma purge_inv [inv_intros]: "dns_inv c \<Longrightarrow> dns_inv (purge env c)"
  by (auto simp: dns_inv_def purge_def time_Now_def wf_map_filter list_all_iff le_trans[OF length_filter_le])

lemma new_dnsCache_inv: "dns_inv new_dnsCache"
  by (simp add: dns_inv_def new_dnsCache_def)

lemma asks_tick: "asks P c (d\<lparr>tick := n\<rparr>) = asks P c d"
  by (simp add: asks_def)

text \<open>
  What \<open>cachedLookup\<close> needs of the function it calls on a miss: it leaves the cache alone, returns
  unmapped addresses, and shows names to resolvers only as \<open>P\<close> allows. \<open>lookup\<close> and the closure of
  \<open>localResolveAll\<close> are the two instances.
\<close>

locale lookup_source =
  fixes lk :: "env \<Rightarrow> time \<Rightarrow> string \<Rightarrow> dnsCache \<Rightarrow> lookup_out"
    and P :: "string \<Rightarrow> event \<Rightarrow> bool"
  assumes lk_cache: "cache (snd (lk env dl host c)) = cache c"
    and lk_lookups: "lookups (snd (lk env dl host c)) = lookups c"
    and lk_config: "same_config c (snd (lk env dl host c))"
    and lk_addrs: "list_all ok_addr (r_addrs (fst (fst (lk env dl host c))))"
    and lk_asks: "asks (P host) c (snd (lk env dl host c))"
    and lk_direct: "r_localDirect (fst (fst (lk env dl host c))) \<Longrightarrow> localOnNXDomain c"
begin

lemma las_unfold:
  "lookup_and_store env key host (lk env) c =
     (let q = lk env (e_now env (tick c) + 5 * time_Second) host (c\<lparr>tick := Suc (tick c), lookups := lookups c + 1\<rparr>);
          d = snd q; res = fst (fst q); d' = d\<lparr>tick := Suc (tick d)\<rparr>; now = e_now env (tick d)
      in case snd (fst q) of
           Some e \<Rightarrow> ((no_result, Some (NewDNSError host (Some e))),
              if authoritative res \<and> errors_Is e ErrNotFound
              then store env key \<lparr>addrs = [], expires = now + negativeTTL c, neg = True, localDirect = False\<rparr> d' else d)
         | None \<Rightarrow>
             (if r_addrs res = [] then ((no_result, Some (ErrText (''no address for '' @ host))), d)
              else if authoritative res then
                ((res, None), store env key \<lparr>addrs = r_addrs res, expires = now + ttl c, neg = False, localDirect = r_localDirect res\<rparr> d')
              else ((res, None), d)))"
proof -
  let ?c = "c\<lparr>tick := Suc (tick c), lookups := lookups c + 1\<rparr>"
  have "ttl (snd (lk env dl host ?c)) = ttl c \<and> negativeTTL (snd (lk env dl host ?c)) = negativeTTL c" for dl
    using lk_config[of ?c env dl host] by (simp add: same_config_def)
  then show ?thesis
    by (simp add: lookup_and_store_def time_Now_def case_prod_beta Let_def split: option.split)
qed

lemma las_inv:
  assumes "range_order (e_range env)" and "dns_inv c" and "key \<noteq> []"
  shows "dns_inv (snd (lookup_and_store env key host (lk env) c))"
proof -
  have d: "dns_inv ((snd (lk env dl host (c\<lparr>tick := m, lookups := n\<rparr>)))\<lparr>tick := k\<rparr>)"
    "dns_inv (snd (lk env dl host (c\<lparr>tick := m, lookups := n\<rparr>)))" for dl m n k
    using assms(2) lk_config[of "c\<lparr>tick := m, lookups := n\<rparr>" env dl host]
    by (simp_all add: dns_inv_def lk_cache same_config_def)
  have nx: "localOnNXDomain (snd (lk env dl host (c\<lparr>tick := m, lookups := n\<rparr>))) = localOnNXDomain c" for dl m n
    using lk_config[of "c\<lparr>tick := m, lookups := n\<rparr>" env dl host] by (simp add: same_config_def)
  have ld: "r_localDirect (fst (fst (lk env dl host (c\<lparr>tick := m, lookups := n\<rparr>)))) \<Longrightarrow> localOnNXDomain c" for dl m n
    using lk_direct[of env dl host "c\<lparr>tick := m, lookups := n\<rparr>"] by simp
  show ?thesis
    by (auto simp: las_unfold Let_def d nx ok_entry_def lk_addrs assms(1,3) dest: ld intro!: store_inv split: option.split)
qed

lemma las_result:
  assumes "lookup_and_store env key host (lk env) c = ((res, None), c')"
  shows "r_addrs res \<noteq> [] \<and> list_all ok_addr (r_addrs res)"
  using assms by (auto simp: las_unfold Let_def lk_addrs split: option.splits if_splits)

lemma las_asks: "asks (P host) c (snd (lookup_and_store env key host (lk env) c))"
proof -
  have "asks (P host) c (snd (lk env dl host (c\<lparr>tick := m, lookups := n\<rparr>)))" for dl m n
    using lk_asks[of host "c\<lparr>tick := m, lookups := n\<rparr>" env dl] by (simp add: asks_def)
  then show ?thesis by (auto simp: las_unfold Let_def store_def asks_def split: option.split)
qed

lemma las_config: "same_config c (snd (lookup_and_store env key host (lk env) c))"
proof -
  have "same_config c (snd (lk env dl host (c\<lparr>tick := m, lookups := n\<rparr>)))" for dl m n
    using lk_config[of "c\<lparr>tick := m, lookups := n\<rparr>" env dl host] by (simp add: same_config_def)
  then show ?thesis by (auto simp: las_unfold Let_def store_def same_config_def split: option.split)
qed

lemma las_lookups: "lookups (snd (lookup_and_store env key host (lk env) c)) = lookups c + 1"
  by (auto simp: las_unfold Let_def store_def lk_lookups split: option.split)

text \<open>An answer that is not authoritative leaves no trace in the cache.\<close>

lemma las_not_authoritative:
  assumes "\<not> authoritative (fst (fst (lk env (e_now env (tick c) + 5 * time_Second) host
      (c\<lparr>tick := Suc (tick c), lookups := lookups c + 1\<rparr>))))"
  shows "cache (snd (lookup_and_store env key host (lk env) c)) = cache c"
  using assms by (auto simp: las_unfold Let_def lk_cache split: option.split)

text \<open>What a miss leaves under its own key, in terms of the answer it got.\<close>

lemma las_stored:
  assumes "lookup_and_store env key host (lk env) c = ((res, None), c')"
    and "authoritative (fst (fst (lk env (e_now env (tick c) + 5 * time_Second) host
      (c\<lparr>tick := Suc (tick c), lookups := lookups c + 1\<rparr>))))"
  shows "map_of (cache c') key = Some \<lparr>addrs = r_addrs res, expires = e_now env (tick c' - 1) + ttl c, neg = False,
    localDirect = r_localDirect res\<rparr>"
  using assms by (auto simp: las_unfold Let_def store_def update_conv' split: option.splits if_splits)

lemma las_negative:
  assumes "lookup_and_store env key host (lk env) c = ((res, Some e), c')" and "errors_Is e ErrNotFound"
    and "authoritative (fst (fst (lk env (e_now env (tick c) + 5 * time_Second) host
      (c\<lparr>tick := Suc (tick c), lookups := lookups c + 1\<rparr>))))"
  shows "map_of (cache c') key = Some \<lparr>addrs = [], expires = e_now env (tick c' - 1) + negativeTTL c, neg = True,
    localDirect = False\<rparr>"
  using assms by (auto simp: las_unfold Let_def store_def update_conv' NewDNSError_def split: option.splits if_splits)

lemma cached_inv:
  assumes "range_order (e_range env)" and "dns_inv c" and "key \<noteq> []"
  shows "dns_inv (snd (cachedLookup env key host (lk env) c))"
proof -
  have "dns_inv (c\<lparr>tick := n\<rparr>)" for n using assms(2) by (simp add: dns_inv_def)
  then show ?thesis using assms
    by (auto simp: cachedLookup_def time_Now_def Let_def intro!: las_inv split: option.split)
qed

lemma cached_result:
  assumes "dns_inv c" and "cachedLookup env key host (lk env) c = ((res, None), c')"
  shows "r_addrs res \<noteq> [] \<and> list_all ok_addr (r_addrs res)"
proof -
  have "ok_entry e" if "map_of (cache c) key = Some e" for e
    using assms(1) map_of_SomeD[OF that] by (auto simp: dns_inv_def list_all_iff)
  then show ?thesis using assms(2)
    by (auto simp: cachedLookup_def time_Now_def Let_def ok_entry_def split: option.splits if_splits
        dest: las_result intro!: ok_addr_Unmap)
qed

lemma cached_asks: "asks (P host) c (snd (cachedLookup env key host (lk env) c))"
proof -
  have "asks (P host) c (snd (lookup_and_store env key host (lk env) (c\<lparr>tick := n\<rparr>)))" for n
    using las_asks[of host "c\<lparr>tick := n\<rparr>"] by (simp add: asks_def)
  then show ?thesis
    by (auto simp: cachedLookup_def time_Now_def Let_def las_asks asks_tick split: option.split)
qed

lemma cached_config: "same_config c (snd (cachedLookup env key host (lk env) c))"
proof -
  have "same_config c (snd (lookup_and_store env key host (lk env) (c\<lparr>tick := n\<rparr>)))" for n
    using las_config[of "c\<lparr>tick := n\<rparr>"] by (simp add: same_config_def)
  then show ?thesis
    by (auto simp: cachedLookup_def time_Now_def Let_def las_config same_config_tick split: option.split)
qed

lemma cached_result':
  assumes "dns_inv c" and "snd (fst (cachedLookup env key host (lk env) c)) = None"
  shows "r_addrs (fst (fst (cachedLookup env key host (lk env) c))) \<noteq> [] \<and>
    list_all ok_addr (r_addrs (fst (fst (cachedLookup env key host (lk env) c))))"
  using cached_result[OF assms(1)] assms(2) by (metis prod.collapse)

lemma las_direct:
  assumes "lookup_and_store env key host (lk env) c = ((res, err), c')" and "r_localDirect res"
  shows "localOnNXDomain c"
  using assms lk_direct[of env "e_now env (tick c) + 5 * time_Second" host "c\<lparr>tick := Suc (tick c), lookups := lookups c + 1\<rparr>"]
  by (auto simp: las_unfold Let_def no_result_def split: option.splits if_splits)

lemma cached_direct:
  assumes "dns_inv c" and "r_localDirect (fst (fst (cachedLookup env key host (lk env) c)))"
  shows "localOnNXDomain c"
proof -
  have m: "r_localDirect (fst (fst (lookup_and_store env key host (lk env) (c\<lparr>tick := n\<rparr>)))) \<Longrightarrow> localOnNXDomain c" for n
    using las_direct[of env key host "c\<lparr>tick := n\<rparr>"] by (metis dnsCache.select_convs(9) dnsCache.surjective dnsCache.update_convs(12) prod.collapse)
  have "localDirect e \<longrightarrow> localOnNXDomain c" if "map_of (cache c) key = Some e" for e
    using assms(1) map_of_SomeD[OF that] by (auto simp: dns_inv_def list_all_iff)
  with assms(2) m[of "tick c"] m[of "Suc (tick c)"] show ?thesis
    by (auto simp: cachedLookup_def time_Now_def Let_def no_result_def split: option.splits if_splits)
qed

text \<open>A call that counted a lookup is a miss.\<close>

lemma cached_miss:
  assumes "cachedLookup env key host (lk env) c = (out, c')" and "lookups c' \<noteq> lookups c"
  obtains n where "lookup_and_store env key host (lk env) (c\<lparr>tick := n\<rparr>) = (out, c')" and "ParseAddr host = None"
proof (cases "ParseAddr host")
  case (Some ip)
  then show ?thesis using assms by (simp add: cachedLookup_def)
next
  case pa: None
  show ?thesis
  proof (cases "map_of (cache c) key")
    case None
    then show ?thesis using that[of "tick c"] assms(1) pa by (simp add: cachedLookup_def)
  next
    case (Some e)
    then show ?thesis using that[of "Suc (tick c)"] assms pa
      by (auto simp: cachedLookup_def time_Now_def Let_def split: if_splits)
  qed
qed

end

lemma lookup_outcome_asks: "lookup_outcome host act c res c' \<Longrightarrow> asks (ask_tunnel host) c c'"
  by (auto simp: lookup_outcome_def asks_def asked_def ask_tunnel_def list_all_iff split: if_splits)

interpretation tunnel_source: lookup_source lookup ask_tunnel
proof
  fix env dl host c
  obtain res err c' where eq: "lookup env dl host c = ((res, err), c')" by (metis prod.collapse)
  note spec = lookup_spec[OF eq]
  show "cache (snd (lookup env dl host c)) = cache c" "lookups (snd (lookup env dl host c)) = lookups c"
    "same_config c (snd (lookup env dl host c))" "asks (ask_tunnel host) c (snd (lookup env dl host c))"
    using spec lookup_outcome_asks eq by auto
  show "list_all ok_addr (r_addrs (fst (fst (lookup env dl host c))))" by (rule lookup_ok)
  show "r_localDirect (fst (fst (lookup env dl host c))) \<Longrightarrow> localOnNXDomain c" by (rule lookup_direct)
qed

lemma local_lookup_frame:
  "cache (snd (local_lookup env dl host c)) = cache c" "lookups (snd (local_lookup env dl host c)) = lookups c"
  "same_config c (snd (local_lookup env dl host c))" "trace (snd (local_lookup env dl host c)) = trace c @ [AskLocal host]"
  using lookupLocal_frame[where env = env and host = host and c = c]
  by (auto simp: local_lookup_def split: prod.split sum.split)

lemma local_lookup_direct: "\<not> r_localDirect (fst (fst (local_lookup env dl host c)))"
  by (auto simp: local_lookup_def split: prod.split sum.split)

interpretation local_source: lookup_source local_lookup ask_local
  by unfold_locales (simp_all add: local_lookup_frame local_lookup_ok local_lookup_direct asks_def ask_local_def)

text \<open>
  What the rest of the program relies on: a resolver gives usable addresses or an error, keeps the
  cache's invariant, and shows the normalized name to resolvers only as \<open>P\<close> allows.
\<close>

locale resolver =
  fixes res :: "env \<Rightarrow> string \<Rightarrow> dnsCache \<Rightarrow> (goerr + addr list) \<times> dnsCache"
    and P :: "string \<Rightarrow> event \<Rightarrow> bool"
  assumes res_addrs: "dns_inv c \<Longrightarrow> fst (res env host c) = Inr as \<Longrightarrow> as \<noteq> [] \<and> list_all ok_addr as"
    and res_inv: "range_order (e_range env) \<Longrightarrow> dns_inv c \<Longrightarrow> normalizeHost host \<noteq> [] \<Longrightarrow> dns_inv (snd (res env host c))"
    and res_asks: "asks (P (normalizeHost host)) c (snd (res env host c))"
    and res_config: "same_config c (snd (res env host c))"
    and res_literal: "ParseAddr (normalizeHost host) = Some ip \<Longrightarrow> res env host c = (Inr [Unmap ip], c)"
begin

lemma res_hd: "dns_inv c \<Longrightarrow> fst (res env host c) = Inr as \<Longrightarrow> ok_addr (hd as)"
  using res_addrs[of c env host as] by (cases as) auto

end

lemma resolveTunnel_unfold:
  "resolveTunnel env host c =
    (let q = cachedLookup env (normalizeHost host) (normalizeHost host) (lookup env) c
     in (case snd (fst q) of None \<Rightarrow> Inr (r_addrs (fst (fst q)), r_localDirect (fst (fst q))) | Some e \<Rightarrow> Inl e, snd q))"
  by (auto simp: resolveTunnel_def Let_def split: prod.split option.split)

lemma localResolveAll_unfold:
  "localResolveAll env host c =
    (let q = cachedLookup env (''local:'' @ normalizeHost host) (normalizeHost host) (local_lookup env) c
     in (case snd (fst q) of None \<Rightarrow> Inr (r_addrs (fst (fst q))) | Some e \<Rightarrow> Inl e, snd q))"
  by (auto simp: localResolveAll_def Let_def split: prod.split option.split)

lemma dns_ResolveAll_unfold:
  "dns_ResolveAll env host c =
    ((case fst (resolveTunnel env host c) of Inr p \<Rightarrow> Inr (fst p) | Inl e \<Rightarrow> Inl e), snd (resolveTunnel env host c))"
  by (auto simp: dns_ResolveAll_def split: prod.split sum.split)

lemma cachedLookup_literal:
  "ParseAddr host = Some ip \<Longrightarrow>
    cachedLookup env key host lk c = ((\<lparr>r_addrs = [Unmap ip], authoritative = False, r_localDirect = False\<rparr>, None), c)"
  by (simp add: cachedLookup_def)

interpretation tunnel_resolver: resolver dns_ResolveAll ask_tunnel
proof
  fix env host c as ip
  let ?h = "normalizeHost host"
  show "dns_inv c \<Longrightarrow> fst (dns_ResolveAll env host c) = Inr as \<Longrightarrow> as \<noteq> [] \<and> list_all ok_addr as"
    using tunnel_source.cached_result'[of c env ?h ?h]
    by (auto simp: dns_ResolveAll_unfold resolveTunnel_unfold Let_def split: option.splits)
  show "range_order (e_range env) \<Longrightarrow> dns_inv c \<Longrightarrow> ?h \<noteq> [] \<Longrightarrow> dns_inv (snd (dns_ResolveAll env host c))"
    by (simp add: dns_ResolveAll_unfold resolveTunnel_unfold Let_def tunnel_source.cached_inv)
  show "asks (ask_tunnel ?h) c (snd (dns_ResolveAll env host c))" "same_config c (snd (dns_ResolveAll env host c))"
    by (simp_all add: dns_ResolveAll_unfold resolveTunnel_unfold Let_def tunnel_source.cached_asks tunnel_source.cached_config)
  show "ParseAddr ?h = Some ip \<Longrightarrow> dns_ResolveAll env host c = (Inr [Unmap ip], c)"
    by (simp add: dns_ResolveAll_unfold resolveTunnel_unfold Let_def cachedLookup_literal)
qed

interpretation local_resolver: resolver localResolveAll ask_local
proof
  fix env host c as ip
  let ?h = "normalizeHost host"
  show "dns_inv c \<Longrightarrow> fst (localResolveAll env host c) = Inr as \<Longrightarrow> as \<noteq> [] \<and> list_all ok_addr as"
    using local_source.cached_result'[of c env "''local:'' @ ?h" ?h]
    by (auto simp: localResolveAll_unfold Let_def split: option.splits)
  show "range_order (e_range env) \<Longrightarrow> dns_inv c \<Longrightarrow> ?h \<noteq> [] \<Longrightarrow> dns_inv (snd (localResolveAll env host c))"
    by (simp add: localResolveAll_unfold Let_def local_source.cached_inv)
  show "asks (ask_local ?h) c (snd (localResolveAll env host c))" "same_config c (snd (localResolveAll env host c))"
    by (simp_all add: localResolveAll_unfold Let_def local_source.cached_asks local_source.cached_config)
  show "ParseAddr ?h = Some ip \<Longrightarrow> localResolveAll env host c = (Inr [Unmap ip], c)"
    by (simp add: localResolveAll_unfold Let_def cachedLookup_literal)
qed

lemma resolveTunnel_direct:
  assumes "dns_inv c" and "fst (resolveTunnel env host c) = Inr (as, True)"
  shows "localOnNXDomain c"
  using assms tunnel_source.cached_direct[of c env "normalizeHost host" "normalizeHost host"]
  by (auto simp: resolveTunnel_unfold Let_def split: option.splits)

lemma resolveTunnel_ResolveAll:
  "fst (resolveTunnel env host c) = Inr (as, ld) \<Longrightarrow> fst (dns_ResolveAll env host c) = Inr as"
  "snd (resolveTunnel env host c) = snd (dns_ResolveAll env host c)"
  by (simp_all add: dns_ResolveAll_unfold)

text \<open>A lookup fell back to the local resolver exactly when its answer is not authoritative.\<close>

lemma las_fallbacks:
  "fallbacks (snd (lookup_and_store env key h (lookup env) d)) = fallbacks d \<longleftrightarrow>
   authoritative (fst (fst (lookup env (e_now env (tick d) + 5 * time_Second) h
      (d\<lparr>tick := Suc (tick d), lookups := lookups d + 1\<rparr>))))"
proof -
  let ?q = "lookup env (e_now env (tick d) + 5 * time_Second) h (d\<lparr>tick := Suc (tick d), lookups := lookups d + 1\<rparr>)"
  have "fallbacks (snd (lookup_and_store env key h (lookup env) d)) = fallbacks (snd ?q)"
    by (auto simp: tunnel_source.las_unfold Let_def store_def split: option.splits if_splits)
  moreover obtain res err c' where eq: "?q = ((res, err), c')" by (metis prod.collapse)
  ultimately show ?thesis
    using lookup_spec[OF eq] by (auto simp: lookup_outcome_def split: if_splits)
qed

lemma las_trace:
  "trace (snd (lookup_and_store env key h (lookup env) d)) = trace (snd (lookup env (e_now env (tick d) + 5 * time_Second) h
      (d\<lparr>tick := Suc (tick d), lookups := lookups d + 1\<rparr>)))"
  by (auto simp: tunnel_source.las_unfold Let_def store_def split: option.splits if_splits)

lemma las_privacy:
  assumes "trace (snd (lookup_and_store env key h (lookup env) d)) = trace d @ evs" and "AskLocal h \<in> set evs"
  shows "fallbacks (snd (lookup_and_store env key h (lookup env) d)) = fallbacks d + 1 \<or> localOnNXDomain d"
proof -
  let ?d = "d\<lparr>tick := Suc (tick d), lookups := lookups d + 1\<rparr>"
  let ?q = "lookup env (e_now env (tick d) + 5 * time_Second) h ?d"
  have f: "fallbacks (snd (lookup_and_store env key h (lookup env) d)) = fallbacks (snd ?q)"
    by (auto simp: tunnel_source.las_unfold Let_def store_def split: option.splits if_splits)
  obtain res err c' where eq: "?q = ((res, err), c')" by (metis prod.collapse)
  note spec = lookup_spec[OF eq]
  have "AskLocal h \<notin> set (asked h ?d act)" for act by (auto simp: asked_def)
  then show ?thesis using spec assms f eq
    by (auto simp: lookup_outcome_def las_trace split: if_splits)
qed

lemma full_cache_inv: "dns_inv full_cache" "length (cache full_cache) = dnsCacheMaxSize"
proof -
  have "distinct (map (\<lambda>i. replicate (Suc i) CHR ''a'') [0..<dnsCacheMaxSize])"
    unfolding distinct_map by (auto intro!: inj_onI dest: arg_cong[of _ _ length])
  then show "dns_inv full_cache"
    by (auto simp: dns_inv_def full_cache_def wf_map_def o_def list_all_iff ok_entry_def)
qed (simp add: full_cache_def)

text \<open>
  Resolving a name for the tunnel is discreet; and so is any sequence of such steps.
\<close>

lemma discreet_refl [simp]: "discreet h c c"
  by (simp add: discreet_def)

lemma discreet_trans:
  assumes "discreet h a b" and "discreet h b c"
  shows "discreet h a c"
proof -
  obtain e1 e2 where "trace b = trace a @ e1" "list_all (ask_tunnel h) e1" "trace c = trace b @ e2" "list_all (ask_tunnel h) e2"
    "AskLocal h \<in> set e1 \<longrightarrow> fallbacks a < fallbacks b \<or> localOnNXDomain a"
    "AskLocal h \<in> set e2 \<longrightarrow> fallbacks b < fallbacks c \<or> localOnNXDomain b"
    using assms unfolding discreet_def by blast
  then show ?thesis using assms unfolding discreet_def by (auto intro!: exI[of _ "e1 @ e2"])
qed

lemma las_fallbacks_mono: "fallbacks d \<le> fallbacks (snd (lookup_and_store env key h (lookup env) d))"
proof -
  let ?q = "lookup env (e_now env (tick d) + 5 * time_Second) h (d\<lparr>tick := Suc (tick d), lookups := lookups d + 1\<rparr>)"
  have "fallbacks (snd (lookup_and_store env key h (lookup env) d)) = fallbacks (snd ?q)"
    by (auto simp: tunnel_source.las_unfold Let_def store_def split: option.splits if_splits)
  moreover obtain res err c' where eq: "?q = ((res, err), c')" by (metis prod.collapse)
  ultimately show ?thesis using lookup_spec[OF eq] by (auto simp: lookup_outcome_def split: if_splits)
qed

lemma resolveTunnel_discreet: "discreet (normalizeHost host) c (snd (resolveTunnel env host c))"
proof -
  let ?h = "normalizeHost host"
  obtain evs where evs: "trace (snd (resolveTunnel env host c)) = trace c @ evs" "list_all (ask_tunnel ?h) evs"
    using tunnel_resolver.res_asks[of host c env] by (auto simp: resolveTunnel_ResolveAll(2) asks_def)
  moreover have "fallbacks c < fallbacks (snd (resolveTunnel env host c)) \<or> localOnNXDomain c" if "AskLocal ?h \<in> set evs"
    using evs(1) that las_privacy[of env ?h ?h c evs] las_privacy[of env ?h ?h "c\<lparr>tick := Suc (tick c)\<rparr>" evs]
    by (auto simp: resolveTunnel_unfold Let_def cachedLookup_def time_Now_def split: option.splits if_splits)
  moreover have "fallbacks c \<le> fallbacks (snd (resolveTunnel env host c))"
    using las_fallbacks_mono[of c env ?h ?h] las_fallbacks_mono[of "c\<lparr>tick := Suc (tick c)\<rparr>" env ?h ?h]
    by (auto simp: resolveTunnel_unfold Let_def cachedLookup_def time_Now_def split: option.splits if_splits)
  moreover have "localOnNXDomain (snd (resolveTunnel env host c)) = localOnNXDomain c"
    using tunnel_resolver.res_config[of c env host] by (simp add: resolveTunnel_ResolveAll(2) same_config_def)
  ultimately show ?thesis unfolding discreet_def by blast
qed

section \<open>Properties\<close>

text \<open>
  The cache keeps its invariant over every resolver call: distinct non-empty keys, at most
  \<open>dnsCacheMaxSize\<close> entries, negative entries without addresses and positive ones with at least one,
  all unmapped; and a successful call returns such a list.
\<close>

theorem resolvers_keep_cache:
  assumes "range_order (e_range env)" and "dns_inv c" and "normalizeHost host \<noteq> []"
  shows "dns_inv (snd (resolveTunnel env host c)) \<and> dns_inv (snd (localResolveAll env host c)) \<and>
    (\<forall>as ld. fst (resolveTunnel env host c) = Inr (as, ld) \<longrightarrow> as \<noteq> [] \<and> list_all ok_addr as) \<and>
    (\<forall>as. fst (localResolveAll env host c) = Inr as \<longrightarrow> as \<noteq> [] \<and> list_all ok_addr as)"
  using tunnel_resolver.res_inv[OF assms] local_resolver.res_inv[OF assms] tunnel_resolver.res_addrs[OF assms(2)]
    local_resolver.res_addrs[OF assms(2)] resolveTunnel_ResolveAll by metis

theorem resolvers_keep_cache_witness:
  "dns_inv (snd (resolveTunnel sample_env ''a.example'' (sample_cache [''9.9.9.9:53''])))"
proof -
  have a: "range_order (e_range sample_env)" by (simp add: sample_env_def)
  have b: "dns_inv (sample_cache [''9.9.9.9:53''])" using new_dnsCache_inv by (simp add: sample_cache_def SetTunnelDNS_def dns_inv_def)
  have n: "normalizeHost ''a.example'' \<noteq> []" by code_simp
  show ?thesis using resolvers_keep_cache[OF a b n] by blast
qed

text \<open>
  \<open>store\<close> on a full cache drops an entry that expires first, and no other.
\<close>

theorem store_drops_oldest:
  assumes "range_order (e_range env)" and "dns_inv c" and "length (cache c) = dnsCacheMaxSize"
  shows "\<exists>k v. map_of (cache c) k = Some v \<and> (\<forall>k' v'. map_of (cache c) k' = Some v' \<longrightarrow> expires v \<le> expires v') \<and>
    map_of (cache (store env key entry c)) = (map_of (cache c))(k := None, key \<mapsto> entry)"
  using store_spec[OF assms(1), of c key entry] assms(2,3) by (simp add: dns_inv_def)

theorem store_drops_oldest_witness:
  "\<exists>k. map_of (cache full_cache) k \<noteq> None \<and>
    map_of (cache (store sample_env ''b'' \<lparr>addrs = [], expires = 5, neg = True, localDirect = False\<rparr> full_cache)) k
      = (if k = ''b'' then Some \<lparr>addrs = [], expires = 5, neg = True, localDirect = False\<rparr> else None)"
proof -
  have a: "range_order (e_range sample_env)" by (simp add: sample_env_def)
  show ?thesis using store_drops_oldest[OF a full_cache_inv, of "''b''" "\<lparr>addrs = [], expires = 5, neg = True, localDirect = False\<rparr>"]
    by fastforce
qed

text \<open>
  A resolution that fell back to the local resolver leaves the cache as it was: a local answer
  taken while the tunnel resolvers are out never answers a later tunnel lookup.
\<close>

theorem fallback_not_cached:
  assumes "fallbacks (snd (resolveTunnel env host c)) \<noteq> fallbacks c"
  shows "cache (snd (resolveTunnel env host c)) = cache c"
proof -
  let ?h = "normalizeHost host"
  have miss: "cache (snd (lookup_and_store env ?h ?h (lookup env) d)) = cache d"
    if "fallbacks (snd (lookup_and_store env ?h ?h (lookup env) d)) \<noteq> fallbacks d" for d
    using that las_fallbacks[of env ?h ?h d] by (intro tunnel_source.las_not_authoritative) simp
  show ?thesis using assms miss[of c] miss[of "c\<lparr>tick := Suc (tick c)\<rparr>"]
    by (auto simp: resolveTunnel_unfold Let_def cachedLookup_def time_Now_def split: option.splits if_splits)
qed

theorem fallback_not_cached_witness:
  "fallbacks (snd (resolveTunnel sample_env ''a.example'' (sample_cache [''1.1.1.1:53'']))) \<noteq> 0 \<and>
   cache (snd (resolveTunnel sample_env ''a.example'' (sample_cache [''1.1.1.1:53'']))) = []"
proof -
  have f: "fallbacks (snd (resolveTunnel sample_env ''a.example'' (sample_cache [''1.1.1.1:53'']))) = 1" by code_simp
  have c: "fallbacks (sample_cache [''1.1.1.1:53'']) = 0" "cache (sample_cache [''1.1.1.1:53'']) = []"
    by (simp_all add: sample_cache_def SetTunnelDNS_def new_dnsCache_def)
  show ?thesis using fallback_not_cached[of sample_env "''a.example''" "sample_cache [''1.1.1.1:53'']"] by (simp add: f c)
qed



text \<open>
  After an NXDOMAIN every later resolution of the name in any spelling fails in the same way
  without asking anyone, until the negative time to live is over.
\<close>

theorem negative_answer_reused:
  assumes "resolveTunnel env host c = (Inl e, c')" and "errors_Is e ErrNotFound" and "lookups c' = lookups c + 1"
    and "fallbacks c' = fallbacks c" and "normalizeHost host2 = normalizeHost host"
    and "e_now env2 (tick c') < e_now env (tick c' - 1) + negativeTTL c"
  shows "resolveTunnel env2 host2 c' =
    (Inl (NewDNSError (normalizeHost host) (Some ErrNotFound)), c'\<lparr>tick := Suc (tick c')\<rparr>)"
proof -
  let ?h = "normalizeHost host"
  obtain res where q: "cachedLookup env ?h ?h (lookup env) c = ((res, Some e), c')"
    using assms(1) by (auto simp: resolveTunnel_def Let_def split: prod.splits option.splits)
  from assms(3) obtain n where n: "lookup_and_store env ?h ?h (lookup env) (c\<lparr>tick := n\<rparr>) = ((res, Some e), c')"
    and lit: "ParseAddr ?h = None" using tunnel_source.cached_miss[OF q] by fastforce
  from tunnel_source.las_negative[OF n assms(2)] assms n las_fallbacks[of env ?h ?h "c\<lparr>tick := n\<rparr>"] lit show ?thesis
    by (simp add: resolveTunnel_def Let_def cachedLookup_def time_Now_def q)
qed

theorem negative_answer_reused_witness:
  "fst (resolveTunnel sample_env ''a.example'' (snd (resolveTunnel sample_env ''a.example'' (sample_cache [''8.8.8.8:53'']))))
    = Inl (NewDNSError ''a.example'' (Some ErrNotFound))"
proof -
  define c' where "c' = snd (resolveTunnel sample_env ''a.example'' (sample_cache [''8.8.8.8:53'']))"
  have f: "fst (resolveTunnel sample_env ''a.example'' (sample_cache [''8.8.8.8:53''])) = Inl (NewDNSError ''a.example'' (Some ErrNotFound))"
    by code_simp
  have g: "lookups c' = lookups (sample_cache [''8.8.8.8:53'']) + 1" "fallbacks c' = fallbacks (sample_cache [''8.8.8.8:53''])"
    "e_now sample_env (tick c') < e_now sample_env (tick c' - 1) + negativeTTL (sample_cache [''8.8.8.8:53''])"
    unfolding c'_def by code_simp+
  have n: "normalizeHost ''a.example'' = ''a.example''" by code_simp
  have "resolveTunnel sample_env ''a.example'' (sample_cache [''8.8.8.8:53'']) = (Inl (NewDNSError ''a.example'' (Some ErrNotFound)), c')"
    using f by (metis c'_def prod.collapse)
  from negative_answer_reused[OF this _ g(1,2) refl g(3)] show ?thesis
    by (simp add: c'_def n NewDNSError_def)
qed

section \<open>Two defects of the cache keys\<close>

text \<open>
  The eviction loop uses the empty key as "none yet". With an entry under the empty key that is
  visited last and is the oldest, nothing is dropped and the cache outgrows its limit.
\<close>

lemma oldest_key_append_empty:
  assumes "kvs \<noteq> []" and "[] \<notin> fst ` set kvs" and "\<forall>kv\<in>set kvs. expires e < expires (snd kv)"
  shows "oldest_key (kvs @ [([], e)]) = []"
proof -
  obtain k v r where kvs: "kvs = (k, v) # r" using assms(1) by (metis list.exhaust prod.collapse)
  have "k \<noteq> []" "[] \<notin> fst ` set r" using assms(2) kvs by auto
  from fold_oldest[OF this, of "expires v"] have "expires e < snd (fold oldest_step r (k, expires v))"
    using assms(3) kvs by auto
  then show ?thesis by (simp add: oldest_key_def kvs oldest_step_def)
qed

lemma empty_key_cache_entries:
  "length (cache empty_key_cache) = dnsCacheMaxSize"
  "tl (cache full_cache) \<noteq> []"
  "[] \<notin> fst ` set (tl (cache full_cache))"
  "\<forall>kv\<in>set (tl (cache full_cache)). expires \<lparr>addrs = [], expires = 0, neg = True, localDirect = False\<rparr> < expires (snd kv)"
  "''b'' \<notin> fst ` set (cache empty_key_cache)"
proof -
  have pos: "1 < dnsCacheMaxSize" by (simp add: dnsCacheMaxSize_def)
  have t: "tl (cache full_cache) = map (\<lambda>i. (replicate (Suc i) CHR ''a'',
      \<lparr>addrs = [], expires = int i, neg = True, localDirect = False\<rparr>)) [1..<dnsCacheMaxSize]"
    by (simp add: full_cache_def map_tl [symmetric] tl_upt)
  show "length (cache empty_key_cache) = dnsCacheMaxSize" "tl (cache full_cache) \<noteq> []"
    "[] \<notin> fst ` set (tl (cache full_cache))"
    "\<forall>kv\<in>set (tl (cache full_cache)). expires \<lparr>addrs = [], expires = 0, neg = True, localDirect = False\<rparr> < expires (snd kv)"
    "''b'' \<notin> fst ` set (cache empty_key_cache)"
    using pos by (auto simp: t empty_key_cache_def)
qed

text \<open>
  C39: The eviction loop starts from the empty key as its marker for no key yet. When a full cache holds an entry under the
  empty name that expires before all others and is visited last, nothing is evicted and the cache
  grows past \<open>dnsCacheMaxSize\<close>.
\<close>

theorem empty_key_defeats_limit:
  assumes "length (cache c) = dnsCacheMaxSize"
    and "e_range env (cache c) = kvs @ [([], e)]" and "kvs \<noteq> []" and "[] \<notin> fst ` set kvs"
    and "\<forall>kv\<in>set kvs. expires e < expires (snd kv)" and "key \<notin> fst ` set (cache c)"
  shows "length (cache (store env key entry c)) = Suc dnsCacheMaxSize"
  using oldest_key_append_empty[OF assms(3-5)] assms(1,2,6)
  by (simp add: store_def evict_def Let_def length_update_alist)

theorem empty_key_defeats_limit_witness:
  "length (cache (store sample_env ''b'' \<lparr>addrs = [], expires = 5, neg = True, localDirect = False\<rparr> empty_key_cache)) = 1001"
proof -
  have "length (cache (store sample_env ''b'' \<lparr>addrs = [], expires = 5, neg = True, localDirect = False\<rparr> empty_key_cache)) = Suc dnsCacheMaxSize"
  proof (rule empty_key_defeats_limit)
    show "e_range sample_env (cache empty_key_cache)
        = tl (cache full_cache) @ [([], \<lparr>addrs = [], expires = 0, neg = True, localDirect = False\<rparr>)]"
      by (simp add: empty_key_cache_def sample_env_def)
  qed (use empty_key_cache_entries in blast)+
  then show ?thesis by (simp add: dnsCacheMaxSize_def)
qed


end
