(* ===== verification/Rules.thy ===== *)
theory Rules
  imports DnsCache
begin

text \<open>
  \<open>rules.go\<close>: the rule engine. A rule is a CIDR prefix, a regular expression or a domain; \<open>Decide\<close>
  chooses between the direct route and the tunnel. Regular expressions are the parameter \<open>compile\<close>,
  which stands for \<open>regexp.Compile\<close> followed by \<open>MatchString\<close>: it takes a pattern and gives an error
  text or the set of matching strings as a predicate. The engine's pointer \<open>dns\<close> is the DNS state
  that the operations take and return.
\<close>

section \<open>Rules and routes\<close>

datatype Route = RouteDirect | RouteTunnel

definition route_String :: "Route \<Rightarrow> string" where
  "route_String r = (if r = RouteDirect then ''direct'' else ''tunnel'')"

type_synonym regexp = "string \<Rightarrow> bool"
type_synonym compile = "string \<Rightarrow> string + regexp"

record ruleEntry =
  raw :: string
  ipPrefix :: "ipprefix option"
  re :: "regexp option"
  domain :: string

record RuleEngine =
  rules :: "ruleEntry list"
  private_nets :: "ipprefix list"
  started :: bool

definition mustPrefix :: "string \<Rightarrow> ipprefix" where
  "mustPrefix s = the (ParsePrefix s)"

definition hostLocalV4 :: ipprefix where
  "hostLocalV4 = mustPrefix ''0.0.0.0/8''"

definition parseRuleEntry :: "compile \<Rightarrow> string \<Rightarrow> goerr + ruleEntry" where
  "parseRuleEntry compile rw =
     (if HasPrefix rw ''ip:'' then
        (case ParsePrefix (drop 3 rw) of
           None \<Rightarrow> Inl (ErrWrap (''invalid CIDR '' @ Quote (drop 3 rw) @ '': '')
             (ErrText (''netip.ParsePrefix('' @ Quote (drop 3 rw) @ '')'')) [])
         | Some p \<Rightarrow> Inr \<lparr>raw = rw, ipPrefix = Some p, re = None, domain = []\<rparr>)
      else if HasPrefix rw ''re:'' then
        (if drop 3 rw = [] then Inl (ErrText (''empty regex pattern '' @ Quote rw))
         else case compile (drop 3 rw) of
           Inl e \<Rightarrow> Inl (ErrWrap (''invalid regex '' @ Quote (drop 3 rw) @ '': '') (ErrText e) [])
         | Inr r \<Rightarrow> Inr \<lparr>raw = rw, ipPrefix = None, re = Some r, domain = []\<rparr>)
      else
        (let d = normalizeHost (TrimPrefix rw ''.'') in
         if d = [] then Inl (ErrText (''rule '' @ Quote rw @ '' contains no domain''))
         else Inr \<lparr>raw = rw, ipPrefix = None, re = None, domain = d\<rparr>))"

section \<open>The engine\<close>

text \<open>The loop over the comma-separated entries: rules so far, prefix rules so far.\<close>

fun parse_entries :: "compile \<Rightarrow> string list \<Rightarrow> ruleEntry list \<Rightarrow> ruleEntry list \<Rightarrow> goerr + ruleEntry list" where
  "parse_entries compile [] rs ips = Inr (rs @ ips)"
| "parse_entries compile (e # es) rs ips =
     (let entry = TrimSpace e in
      if entry = [] then parse_entries compile es rs ips
      else case parseRuleEntry compile entry of
        Inl err \<Rightarrow> Inl err
      | Inr r \<Rightarrow>
          if ipPrefix r \<noteq> None then parse_entries compile es rs (ips @ [r])
          else parse_entries compile es (rs @ [r]) ips)"

definition private_cidrs :: "string list" where
  "private_cidrs = [''0.0.0.0/8'', ''10.0.0.0/8'', ''100.64.0.0/10'', ''172.16.0.0/12'', ''192.168.0.0/16'',
     ''127.0.0.0/8'', ''::/128'', ''::1/128'', ''169.254.0.0/16'', ''fc00::/7'', ''fe80::/10'']"

definition NewRuleEngine :: "compile \<Rightarrow> string \<Rightarrow> goerr + RuleEngine \<times> dnsCache" where
  "NewRuleEngine compile direct =
     (case (if direct = [] then Inr [] else parse_entries compile (Split direct CHR '','') [] []) of
        Inl e \<Rightarrow> Inl e
      | Inr rs \<Rightarrow> Inr (\<lparr>rules = rs, private_nets = map mustPrefix private_cidrs, started = False\<rparr>, new_dnsCache))"

text \<open>\<open>Start\<close> launches the purge loop once: the flag, and whether this call launches it.\<close>

definition Start :: "RuleEngine \<Rightarrow> bool \<times> RuleEngine" where
  "Start e = (if started e then (False, e) else (True, e\<lparr>started := True\<rparr>))"

definition isPrivate :: "RuleEngine \<Rightarrow> addr \<Rightarrow> bool" where
  "isPrivate e ip = list_ex (\<lambda>p. Contains p (WithZone (Unmap ip) [])) (private_nets e)"

definition matches :: "env \<Rightarrow> ruleEntry \<Rightarrow> string \<Rightarrow> dnsCache \<Rightarrow> bool \<times> dnsCache" where
  "matches env r host c =
     (case ipPrefix r of
        Some p \<Rightarrow>
          (case dns_ResolveAll env host c of
             (Inl e, c) \<Rightarrow> (False, c)
           | (Inr as, c) \<Rightarrow> (list_ex (Contains p) as, c))
      | None \<Rightarrow>
          (case re r of
             Some m \<Rightarrow> (m host, c)
           | None \<Rightarrow>
               (if domain r \<noteq> [] then (host = domain r \<or> HasSuffix host (''.'' @ domain r), c)
                else (False, c))))"

fun decide_rules :: "env \<Rightarrow> ruleEntry list \<Rightarrow> string \<Rightarrow> dnsCache \<Rightarrow> (Route \<times> string) \<times> dnsCache" where
  "decide_rules env [] host c = ((RouteTunnel, ''fallback''), c)"
| "decide_rules env (r # rs) host c =
     (case matches env r host c of
        (True, c) \<Rightarrow> ((RouteDirect, ''direct:'' @ raw r), c)
      | (False, c) \<Rightarrow> decide_rules env rs host c)"

definition Decide :: "env \<Rightarrow> RuleEngine \<Rightarrow> string \<Rightarrow> int \<Rightarrow> dnsCache \<Rightarrow> (Route \<times> string) \<times> dnsCache" where
  "Decide env e host0 port c =
     (let host = normalizeHost host0 in
      if (case ParseAddr host of Some ip \<Rightarrow> isPrivate e ip | None \<Rightarrow> False)
      then ((RouteDirect, ''private''), c)
      else decide_rules env (rules e) host c)"

definition pickTunnelAddr :: "addr list \<Rightarrow> goerr + addr" where
  "pickTunnelAddr as =
     (case filter Is4 as of
        a # _ \<Rightarrow> Inr a
      | [] \<Rightarrow> (case as of [] \<Rightarrow> Inl (ErrText ''no address'') | a # _ \<Rightarrow> Inr a))"

definition host_local :: "addr \<Rightarrow> bool" where
  "host_local a \<longleftrightarrow> IsLoopback a \<or> IsLinkLocalUnicast a \<or> Contains hostLocalV4 a \<or> a = IPv6Unspecified"

definition dropHostLocal :: "addr list \<Rightarrow> addr list" where
  "dropHostLocal as = filter (\<lambda>a. \<not> host_local a) (map (\<lambda>a. WithZone (Unmap a) []) as)"

section \<open>Specification vocabulary\<close>

text \<open>The entries a \<open>DIRECT_RULES\<close> value lists.\<close>

definition rule_entries :: "string \<Rightarrow> string list" where
  "rule_entries direct = filter (\<lambda>e. e \<noteq> []) (map TrimSpace (Split direct CHR '',''))"

text \<open>Whether a rule that needs no lookup matches the normalized name.\<close>

definition static_match :: "ruleEntry \<Rightarrow> string \<Rightarrow> bool" where
  "static_match r host \<longleftrightarrow> ipPrefix r = None \<and>
     (case re r of Some m \<Rightarrow> m host
      | None \<Rightarrow> domain r \<noteq> [] \<and> (host = domain r \<or> (\<exists>sub. host = sub @ ''.'' @ domain r)))"

text \<open>An engine as \<open>NewRuleEngine\<close> builds it: prefix rules after all others, and the fixed private ranges.\<close>

definition engine_wf :: "RuleEngine \<Rightarrow> bool" where
  "engine_wf e \<longleftrightarrow> private_nets e = map mustPrefix private_cidrs \<and>
     rules e = filter (\<lambda>r. ipPrefix r = None) (rules e) @ filter (\<lambda>r. ipPrefix r \<noteq> None) (rules e)"

text \<open>The private IPv4 ranges as numbers.\<close>

definition private_v4 :: "int \<Rightarrow> bool" where
  "private_v4 u \<longleftrightarrow> u div 2 ^ 24 \<in> {0, 10, 127} \<or> u div 2 ^ 22 = 100 * 4 + 1 \<or> u div 2 ^ 20 = 172 * 16 + 1 \<or>
     u div 2 ^ 16 \<in> {192 * 256 + 168, 169 * 256 + 254}"

text \<open>The private IPv6 ranges as numbers.\<close>

definition private_v6 :: "int \<Rightarrow> bool" where
  "private_v6 u \<longleftrightarrow> u \<in> {0, 1} \<or> u div 2 ^ 121 = 0x7E \<or> u div 2 ^ 118 = 0x3FA"

section \<open>Concrete engines\<close>

text \<open>A compiler of literal patterns, for concrete runs: the pattern matches the names it is part of.\<close>

definition literal_compile :: compile where
  "literal_compile p = Inr (\<lambda>s. Contains_str s p)"

definition sample_engine :: RuleEngine where
  "sample_engine = (case NewRuleEngine literal_compile ''ip:93.184.0.0/16, Intra.Example.,re:ads'' of
     Inr (e, _) \<Rightarrow> e | Inl _ \<Rightarrow> \<lparr>rules = [], private_nets = [], started = False\<rparr>)"

lemma private_prefixes:
  "map mustPrefix private_cidrs = [Prefix (Addr4 0) 8, Prefix (Addr4 0x0A000000) 8, Prefix (Addr4 0x64400000) 10,
     Prefix (Addr4 0xAC100000) 12, Prefix (Addr4 0xC0A80000) 16, Prefix (Addr4 0x7F000000) 8, Prefix (Addr6 0 []) 128,
     Prefix (Addr6 1 []) 128, Prefix (Addr4 0xA9FE0000) 16, Prefix (Addr6 0xFC000000000000000000000000000000 []) 7,
     Prefix (Addr6 0xFE800000000000000000000000000000 []) 10]"
  by code_simp

lemma hostLocalV4_eq: "hostLocalV4 = Prefix (Addr4 0) 8"
  by code_simp

lemma sample_engine_rules: "map raw (rules sample_engine) = [''Intra.Example.'', ''re:ads'', ''ip:93.184.0.0/16'']"
  by code_simp

lemma uint_drop_bit: "uint (drop_bit n w) = uint w div 2 ^ n"
  by (simp only: unsigned_drop_bit_eq) (simp add: drop_bit_eq_div take_bit_int_eq_self)

lemma v4_prefix: "Contains (Prefix (Addr4 v) n) (Addr4 w) \<longleftrightarrow> n \<le> 32 \<and> uint w div 2 ^ (32 - n) = uint v div 2 ^ (32 - n)"
  by (simp add: Contains_v4 word_uint_eq_iff uint_drop_bit)

lemma v6_prefix: "Contains (Prefix (Addr6 v z') n) (Addr6 w z) \<longleftrightarrow>
    n \<le> 128 \<and> z = [] \<and> uint w div 2 ^ (128 - n) = uint v div 2 ^ (128 - n)"
  by (simp add: Contains_v6 word_uint_eq_iff uint_drop_bit)

lemma isPrivate_v4:
  assumes "engine_wf e"
  shows "isPrivate e (Addr4 w) \<longleftrightarrow> private_v4 (uint w)"
proof -
  have "private_nets e = map mustPrefix private_cidrs" using assms by (simp add: engine_wf_def)
  then show ?thesis
    unfolding isPrivate_def private_prefixes private_v4_def
    by (simp add: v4_prefix WithZone_def) blast
qed

lemma isPrivate_v6:
  assumes "engine_wf e" and "\<not> Is4In6 (Addr6 w z)"
  shows "isPrivate e (Addr6 w z) \<longleftrightarrow> private_v6 (uint w)"
proof -
  have "private_nets e = map mustPrefix private_cidrs" using assms by (simp add: engine_wf_def)
  moreover have "Unmap (Addr6 w z) = Addr6 w z" using assms(2) by (simp add: Unmap_def Is4In6_def)
  ultimately show ?thesis
    unfolding isPrivate_def private_prefixes private_v6_def
    by (simp add: v6_prefix WithZone_def)
qed

section \<open>Building the engine\<close>

lemma parse_entries_spec:
  "case parse_entries compile es rs ips of
     Inr out \<Rightarrow> \<exists>ps. list_all2 (\<lambda>s r. parseRuleEntry compile s = Inr r) (filter (\<lambda>e. e \<noteq> []) (map TrimSpace es)) ps \<and>
       out = rs @ filter (\<lambda>r. ipPrefix r = None) ps @ ips @ filter (\<lambda>r. ipPrefix r \<noteq> None) ps
   | Inl err \<Rightarrow> \<exists>pre s post. filter (\<lambda>e. e \<noteq> []) (map TrimSpace es) = pre @ s # post \<and>
       list_all (\<lambda>s. \<exists>r. parseRuleEntry compile s = Inr r) pre \<and> parseRuleEntry compile s = Inl err"
proof (induction es arbitrary: rs ips)
  case Nil
  then show ?case by simp
next
  case (Cons e es)
  show ?case
  proof (cases "TrimSpace e = []")
    case True
    then have "filter (\<lambda>e. e \<noteq> []) (map TrimSpace (e # es)) = filter (\<lambda>e. e \<noteq> []) (map TrimSpace es)"
      and "parse_entries compile (e # es) rs ips = parse_entries compile es rs ips" by simp_all
    then show ?thesis using Cons.IH[of rs ips] by (simp only:)
  next
    case ne: False
    show ?thesis
    proof (cases "parseRuleEntry compile (TrimSpace e)")
      case (Inl err)
      then have pe: "parse_entries compile (e # es) rs ips = Inl err" using ne by simp
      have "filter (\<lambda>e. e \<noteq> []) (map TrimSpace (e # es)) = [] @ TrimSpace e # filter (\<lambda>e. e \<noteq> []) (map TrimSpace es)"
        using ne by simp
      moreover have "list_all (\<lambda>s. \<exists>r. parseRuleEntry compile s = Inr r) []" by simp
      ultimately show ?thesis unfolding pe sum.case using Inl by blast
    next
      case (Inr r)
      define rs' where "rs' = (if ipPrefix r \<noteq> None then rs else rs @ [r])"
      define ips' where "ips' = (if ipPrefix r \<noteq> None then ips @ [r] else ips)"
      have unf: "parse_entries compile (e # es) rs ips = parse_entries compile es rs' ips'"
        using ne Inr by (simp add: rs'_def ips'_def)
      show ?thesis
      proof (cases "parse_entries compile es rs' ips'")
        case (Inr out)
        with Cons.IH[of rs' ips'] obtain ps where
          "list_all2 (\<lambda>s r. parseRuleEntry compile s = Inr r) (filter (\<lambda>e. e \<noteq> []) (map TrimSpace es)) ps"
          "out = rs' @ filter (\<lambda>r. ipPrefix r = None) ps @ ips' @ filter (\<lambda>r. ipPrefix r \<noteq> None) ps" by auto
        then show ?thesis using unf Inr ne \<open>parseRuleEntry compile (TrimSpace e) = Inr r\<close>
          by (auto simp: rs'_def ips'_def intro!: exI[of _ "r # ps"])
      next
        case (Inl err)
        with Cons.IH[of rs' ips'] obtain pre s post where
          "filter (\<lambda>e. e \<noteq> []) (map TrimSpace es) = pre @ s # post"
          "list_all (\<lambda>s. \<exists>r. parseRuleEntry compile s = Inr r) pre" "parseRuleEntry compile s = Inl err" by auto
        then show ?thesis using unf Inl ne \<open>parseRuleEntry compile (TrimSpace e) = Inr r\<close>
          by (auto intro!: exI[of _ "TrimSpace e # pre"])
      qed
    qed
  qed
qed

lemma Split_Nil_entries: "rule_entries [] = []"
  by (simp add: rule_entries_def TrimSpace_def)

lemma engine_spec:
  "case NewRuleEngine compile direct of
     Inr (e, c) \<Rightarrow> c = new_dnsCache \<and> private_nets e = map mustPrefix private_cidrs \<and>
       (\<exists>ps. list_all2 (\<lambda>s r. parseRuleEntry compile s = Inr r) (rule_entries direct) ps \<and>
         rules e = filter (\<lambda>r. ipPrefix r = None) ps @ filter (\<lambda>r. ipPrefix r \<noteq> None) ps)
   | Inl err \<Rightarrow> \<exists>pre s post. rule_entries direct = pre @ s # post \<and>
       list_all (\<lambda>s. \<exists>r. parseRuleEntry compile s = Inr r) pre \<and> parseRuleEntry compile s = Inl err"
proof (cases "direct = []")
  case True
  then show ?thesis by (auto simp: NewRuleEngine_def Split_Nil_entries)
next
  case False
  then show ?thesis
    using parse_entries_spec[where compile = compile and es = "Split direct CHR '',''" and rs = "[]" and ips = "[]"]
    by (auto simp: NewRuleEngine_def rule_entries_def split: sum.splits)
qed

lemma engine_wf_New: "NewRuleEngine compile direct = Inr (e, c) \<Longrightarrow> engine_wf e"
  using engine_spec[where compile = compile and direct = direct] by (auto simp: engine_wf_def filter_empty_conv)

lemma ToLower_normalizeHost [simp]: "ToLower (normalizeHost host) = normalizeHost host"
  by (simp add: normalizeHost_def TrimSuffix_def ToLower_def take_map o_def)

lemma normalizeHost_idem: "\<not> HasSuffix (normalizeHost host) ''.'' \<Longrightarrow> normalizeHost (normalizeHost host) = normalizeHost host"
  by (simp add: normalizeHost_def[of "normalizeHost host"] TrimSuffix_neq HasSuffix_def)

lemma static_matches:
  assumes "ipPrefix r = None"
  shows "matches env r host c = (static_match r host, c)"
  using assms by (auto simp: matches_def static_match_def HasSuffix_def suffix_def split: option.split)

lemma decide_static:
  assumes "list_all (\<lambda>r. ipPrefix r = None) xs"
  shows "decide_rules env (xs @ ys) host c =
    (case find (\<lambda>r. static_match r host) xs of
       Some r \<Rightarrow> ((RouteDirect, ''direct:'' @ raw r), c)
     | None \<Rightarrow> decide_rules env ys host c)"
  using assms by (induction xs) (auto simp: static_matches)

lemma engine_static:
  assumes "engine_wf e"
  shows "decide_rules env (rules e) host c =
    (case find (\<lambda>r. static_match r host) (filter (\<lambda>r. ipPrefix r = None) (rules e)) of
       Some r \<Rightarrow> ((RouteDirect, ''direct:'' @ raw r), c)
     | None \<Rightarrow> decide_rules env (filter (\<lambda>r. ipPrefix r \<noteq> None) (rules e)) host c)"
proof -
  have *: "rules e = filter (\<lambda>r. ipPrefix r = None) (rules e) @ filter (\<lambda>r. ipPrefix r \<noteq> None) (rules e)"
    using assms by (simp only: engine_wf_def)
  show ?thesis by (subst *, rule decide_static) (simp add: list_all_iff)
qed

lemma decide_rules_asks:
  assumes "\<not> HasSuffix host ''.''" and "host = normalizeHost h0"
  shows "asks (ask_tunnel host) c (snd (decide_rules env rs host c)) \<and> same_config c (snd (decide_rules env rs host c))"
proof (induction rs arbitrary: c)
  case Nil
  then show ?case by simp
next
  case (Cons r rs)
  have n: "normalizeHost host = host" using normalizeHost_idem assms by metis
  have m: "asks (ask_tunnel host) c (snd (matches env r host c))" "same_config c (snd (matches env r host c))"
    using tunnel_resolver.res_asks[of host c env] tunnel_resolver.res_config[of c env host] n
    by (auto simp: matches_def split: option.split prod.split sum.split)
  then show ?case using Cons.IH[of "snd (matches env r host c)"] asks_trans same_config_trans
    by (cases "matches env r host c") (auto split: bool.split)
qed

lemma decide_rules_discreet:
  assumes "normalizeHost host = host"
  shows "discreet host c (snd (decide_rules env rs host c))"
proof (induction rs arbitrary: c)
  case Nil
  then show ?case by simp
next
  case (Cons r rs)
  have "discreet host c (snd (matches env r host c))"
    using resolveTunnel_discreet[of host c env] assms
    by (auto simp: matches_def resolveTunnel_ResolveAll(2) split: option.split prod.split sum.split)
  then show ?case using Cons.IH[of "snd (matches env r host c)"] discreet_trans
    by (cases "matches env r host c") (auto split: bool.split)
qed

lemma Decide_discreet:
  assumes "\<not> HasSuffix (normalizeHost host) ''.''"
  shows "discreet (normalizeHost host) c (snd (Decide env e host port c))"
  using decide_rules_discreet[OF normalizeHost_idem[OF assms]] by (simp add: Decide_def Let_def)

lemma decide_rules_inv:
  assumes "range_order (e_range env)" and "normalizeHost host \<noteq> []"
  shows "dns_inv c \<Longrightarrow> dns_inv (snd (decide_rules env rs host c))"
proof (induction rs arbitrary: c)
  case Nil
  then show ?case by simp
next
  case (Cons r rs)
  have "dns_inv (snd (matches env r host c))"
    using tunnel_resolver.res_inv[OF assms(1) Cons.prems assms(2)] Cons.prems
    by (auto simp: matches_def split: option.split prod.split sum.split)
  then show ?case using Cons.IH[of "snd (matches env r host c)"]
    by (cases "matches env r host c") (auto split: bool.split)
qed

lemma decide_rules_literal:
  assumes "ParseAddr (normalizeHost host) = Some ip"
  shows "snd (decide_rules env rs host c) = c \<and>
    (fst (fst (decide_rules env rs host c)) = RouteDirect \<longleftrightarrow>
      (\<exists>r\<in>set rs. static_match r host \<or> (\<exists>p. ipPrefix r = Some p \<and> Contains p (Unmap ip))))"
proof (induction rs)
  case Nil
  then show ?case by simp
next
  case (Cons r rs)
  have "matches env r host c = (static_match r host \<or> (\<exists>p. ipPrefix r = Some p \<and> Contains p (Unmap ip)), c)"
    using tunnel_resolver.res_literal[OF assms, of env c] static_matches[of r env host c]
    by (cases "ipPrefix r") (auto simp: matches_def static_match_def)
  then show ?case using Cons.IH by (auto split: bool.split)
qed

lemma Decide_inv [inv_intros]:
  assumes "range_order (e_range env)" and "normalizeHost (normalizeHost host) \<noteq> []" and "dns_inv c"
  shows "dns_inv (snd (Decide env e host port c))"
  using assms decide_rules_inv by (simp add: Decide_def Let_def)

lemma Decide_asks:
  assumes "\<not> HasSuffix (normalizeHost host) ''.''"
  shows "asks (ask_tunnel (normalizeHost host)) c (snd (Decide env e host port c))"
    and "same_config c (snd (Decide env e host port c))"
  using decide_rules_asks[OF assms refl] by (simp_all add: Decide_def Let_def)


lemma decide_rules_nx: "localOnNXDomain (snd (decide_rules env rs host c)) = localOnNXDomain c"
proof (induction rs arbitrary: c)
  case Nil
  then show ?case by simp
next
  case (Cons r rs)
  have "localOnNXDomain (snd (matches env r host c)) = localOnNXDomain c"
    using tunnel_resolver.res_config[of c env host]
    by (auto simp: matches_def same_config_def split: option.split prod.split sum.split)
  then show ?case using Cons.IH by (cases "matches env r host c") (auto split: bool.split)
qed

lemma Decide_nx: "localOnNXDomain (snd (Decide env e host port c)) = localOnNXDomain c"
  by (simp add: Decide_def Let_def decide_rules_nx)

section \<open>Properties\<close>

text \<open>
  \<open>NewRuleEngine\<close> either keeps every non-empty entry of \<open>DIRECT_RULES\<close> as a parsed rule, the
  prefix rules after all the others and each group in the order written, or returns the error of
  the first entry that does not parse.
\<close>

theorem NewRuleEngine_rules:
  "case NewRuleEngine compile direct of
     Inr (e, c) \<Rightarrow> c = new_dnsCache \<and> private_nets e = map mustPrefix private_cidrs \<and>
       (\<exists>ps. list_all2 (\<lambda>s r. parseRuleEntry compile s = Inr r) (rule_entries direct) ps \<and>
         rules e = filter (\<lambda>r. ipPrefix r = None) ps @ filter (\<lambda>r. ipPrefix r \<noteq> None) ps)
   | Inl err \<Rightarrow> \<exists>pre s post. rule_entries direct = pre @ s # post \<and>
       list_all (\<lambda>s. \<exists>r. parseRuleEntry compile s = Inr r) pre \<and> parseRuleEntry compile s = Inl err"
  by (rule engine_spec)

lemma parse_domain:
  assumes "parseRuleEntry compile rw = Inr r" and "\<not> HasPrefix rw ''ip:''" and "\<not> HasPrefix rw ''re:''"
  shows "ipPrefix r = None \<and> re r = None \<and> domain r = normalizeHost (TrimPrefix rw ''.'') \<and> domain r \<noteq> []"
  using assms by (auto simp: parseRuleEntry_def Let_def split: if_splits)

lemma Decide_static:
  assumes "engine_wf e" and "r \<in> set (rules e)" and "static_match r (normalizeHost host)"
  shows "fst (fst (Decide env e host port c)) = RouteDirect \<and> snd (Decide env e host port c) = c"
proof -
  have "ipPrefix r = None" using assms(3) by (simp add: static_match_def)
  then have "find (\<lambda>r. static_match r (normalizeHost host)) (filter (\<lambda>r. ipPrefix r = None) (rules e)) \<noteq> None"
    using assms(2,3) by (auto simp: find_None_iff)
  then show ?thesis using engine_static[OF assms(1)] by (auto simp: Decide_def Let_def)
qed

text \<open>
  C32: A name listed in \<open>DIRECT_RULES\<close> as a domain, and every name below it, goes direct without any
  DNS query, in any letter case and with or without a trailing dot, wherever the entry stands among
  the rules.
\<close>

theorem listed_domain_is_direct:
  assumes "NewRuleEngine compile direct = Inr (e, c0)" and "d \<in> set (rule_entries direct)"
    and "\<not> HasPrefix d ''ip:''" and "\<not> HasPrefix d ''re:''"
    and "normalizeHost host = normalizeHost (TrimPrefix d ''.'') \<or>
      (\<exists>sub. normalizeHost host = sub @ ''.'' @ normalizeHost (TrimPrefix d ''.''))"
  shows "fst (fst (Decide env e host port c)) = RouteDirect \<and> snd (Decide env e host port c) = c"
proof -
  from assms(1) obtain ps where ps: "list_all2 (\<lambda>s r. parseRuleEntry compile s = Inr r) (rule_entries direct) ps"
    "rules e = filter (\<lambda>r. ipPrefix r = None) ps @ filter (\<lambda>r. ipPrefix r \<noteq> None) ps"
    using engine_spec[where compile = compile and direct = direct] by auto
  from assms(2) obtain i where i: "i < length (rule_entries direct)" "rule_entries direct ! i = d"
    by (auto simp: in_set_conv_nth)
  define r where "r = ps ! i"
  have r: "r \<in> set ps" "parseRuleEntry compile d = Inr r"
    using i list_all2_nthD[OF ps(1) i(1)] list_all2_lengthD[OF ps(1)] by (auto simp: r_def)
  note dom = parse_domain[OF r(2) assms(3,4)]
  have "static_match r (normalizeHost host)"
    using dom assms(5) by (auto simp: static_match_def)
  moreover have "r \<in> set (rules e)" using r(1) dom ps(2) by auto
  ultimately show ?thesis using Decide_static[OF engine_wf_New[OF assms(1)]] by blast
qed

lemma sample_engine_New:
  "\<exists>c. NewRuleEngine literal_compile ''ip:93.184.0.0/16, Intra.Example.,re:ads'' = Inr (sample_engine, c)"
proof -
  have "case NewRuleEngine literal_compile ''ip:93.184.0.0/16, Intra.Example.,re:ads'' of Inr p \<Rightarrow> True | Inl e \<Rightarrow> False" by code_simp
  then show ?thesis by (auto simp: sample_engine_def split: sum.splits)
qed

theorem listed_domain_is_direct_witness:
  "fst (fst (Decide sample_env sample_engine ''WWW.intra.EXAMPLE.'' 443 (sample_cache [''9.9.9.9:53'']))) = RouteDirect \<and>
   snd (Decide sample_env sample_engine ''WWW.intra.EXAMPLE.'' 443 (sample_cache [''9.9.9.9:53''])) = sample_cache [''9.9.9.9:53'']"
proof -
  let ?d = "''ip:93.184.0.0/16, Intra.Example.,re:ads''"
  obtain c where ec: "NewRuleEngine literal_compile ?d = Inr (sample_engine, c)" using sample_engine_New by blast
  have a: "''Intra.Example.'' \<in> set (rule_entries ?d)" "\<not> HasPrefix ''Intra.Example.'' ''ip:''"
    "\<not> HasPrefix ''Intra.Example.'' ''re:''" by code_simp+
  have b: "normalizeHost ''WWW.intra.EXAMPLE.'' = ''www'' @ ''.'' @ normalizeHost (TrimPrefix ''Intra.Example.'' ''.'')"
    by code_simp
  show ?thesis by (rule listed_domain_is_direct[OF ec a]) (use b in blast)
qed

text \<open>
  For an address literal the decision needs no lookup: it is direct exactly when the address is
  private, a rule without prefix matches its text, or a prefix rule contains the address with an
  IPv4-mapped address read as IPv4.
\<close>

theorem literal_decision:
  assumes "ParseAddr (normalizeHost host) = Some ip" and "\<not> HasSuffix (normalizeHost host) ''.''"
  shows "snd (Decide env e host port c) = c \<and>
    (fst (fst (Decide env e host port c)) = RouteDirect \<longleftrightarrow> isPrivate e ip \<or>
      (\<exists>r\<in>set (rules e). static_match r (normalizeHost host) \<or> (\<exists>p. ipPrefix r = Some p \<and> Contains p (Unmap ip))))"
proof -
  have "ParseAddr (normalizeHost (normalizeHost host)) = Some ip" using assms normalizeHost_idem by simp
  from decide_rules_literal[OF this] assms(1) show ?thesis by (auto simp: Decide_def Let_def)
qed

theorem literal_decision_witness:
  "fst (fst (Decide sample_env sample_engine ''::ffff:93.184.1.1'' 443 new_dnsCache)) = RouteDirect"
proof -
  have a: "ParseAddr (normalizeHost ''::ffff:93.184.1.1'') = Some (Addr6 0xFFFF5DB80101 [])"
    "\<not> HasSuffix (normalizeHost ''::ffff:93.184.1.1'') ''.''" by code_simp+
  have b: "list_ex (\<lambda>r. case ipPrefix r of Some p \<Rightarrow> Contains p (Unmap (Addr6 0xFFFF5DB80101 [])) | None \<Rightarrow> False) (rules sample_engine)"
    by code_simp
  then have "\<exists>r\<in>set (rules sample_engine). \<exists>p. ipPrefix r = Some p \<and> Contains p (Unmap (Addr6 0xFFFF5DB80101 []))"
    unfolding list_ex_iff by (auto split: option.splits)
  then show ?thesis using literal_decision[OF a, of sample_env sample_engine 443 new_dnsCache] by blast
qed

text \<open>
  C33: The private ranges, as numbers: an IPv4 address (also written as an IPv4-mapped IPv6 address)
  is private when it lies in 0/8, 10/8, 127/8, 100.64/10, 172.16/12, 192.168/16 or 169.254/16; any
  other IPv6 address when it is :: or ::1 or lies in fc00::/7 or fe80::/10, whatever its zone.
\<close>

theorem isPrivate_ranges:
  assumes "engine_wf e"
  shows "isPrivate e (Addr4 w) = private_v4 (uint w) \<and>
    isPrivate e (Addr6 v z) = (if drop_bit 32 v = 0xFFFF then private_v4 (uint v mod 2 ^ 32) else private_v6 (uint v))"
proof
  show "isPrivate e (Addr4 w) = private_v4 (uint w)" by (rule isPrivate_v4[OF assms])
  show "isPrivate e (Addr6 v z) = (if drop_bit 32 v = 0xFFFF then private_v4 (uint v mod 2 ^ 32) else private_v6 (uint v))"
  proof (cases "drop_bit 32 v = 0xFFFF")
    case True
    then have "isPrivate e (Addr6 v z) = isPrivate e (Addr4 (ucast v))" by (simp add: isPrivate_def Unmap_def)
    then show ?thesis using True isPrivate_v4[OF assms] by (simp add: unsigned_ucast_eq take_bit_eq_mod)
  next
    case False
    then show ?thesis using isPrivate_v6[OF assms] by (simp add: Is4In6_def)
  qed
qed

theorem isPrivate_ranges_witness:
  "isPrivate sample_engine (Addr4 0x7F000001) \<and> isPrivate sample_engine (Addr6 0xFFFF7F000001 []) \<and>
   isPrivate sample_engine (Addr6 0xFE800000000000000000000000000001 ''eth0'') \<and> \<not> isPrivate sample_engine (Addr4 0x08080808)"
proof -
  have "engine_wf sample_engine" using engine_wf_New sample_engine_New by blast
  from isPrivate_ranges[OF this] show ?thesis
    by (simp add: private_v4_def private_v6_def word_uint_eq_iff uint_drop_bit)
qed

end
