(* ===== verification/Config.thy ===== *)
theory Config
  imports GoTime Utils Rules
begin

text \<open>
  The configuration of \<open>main.go\<close>: the parsers of the environment variables and \<open>loadConfig\<close>, which
  composes them in the order of the code, with the error text of every branch. The process environment is
  a function \<open>getenv\<close> that gives the empty string for an unset variable, as \<open>os.Getenv\<close> does. A call that may
  fail is \<open>attempt r wrap k\<close>: the error of \<open>r\<close>, wrapped, is returned early, its value goes on to \<open>k\<close>.
\<close>

section \<open>Model\<close>

definition attempt :: "goerr + 'a \<Rightarrow> (goerr \<Rightarrow> goerr) \<Rightarrow> ('a \<Rightarrow> goerr + 'b) \<Rightarrow> goerr + 'b" where
  "attempt r wrap k = (case r of Inl e \<Rightarrow> Inl (wrap e) | Inr x \<Rightarrow> k x)"

definition guard :: "goerr option \<Rightarrow> (goerr \<Rightarrow> goerr) \<Rightarrow> goerr + 'b \<Rightarrow> goerr + 'b" where
  "guard r wrap k = (case r of Some e \<Rightarrow> Inl (wrap e) | None \<Rightarrow> k)"

definition Errorf :: "string \<Rightarrow> goerr \<Rightarrow> goerr" where
  "Errorf pre e = ErrWrap pre e []"

definition Atoi_result :: "string \<Rightarrow> goerr + int" where
  "Atoi_result s = (case Atoi s of (n, None) \<Rightarrow> Inr n | (n, Some e) \<Rightarrow> Inl (ErrText (NumError_text s e)))"

record config =
  cfg_sshHost :: string
  cfg_sshPort :: int
  cfg_sshUser :: string
  cfg_dataDir :: string
  cfg_proxyModes :: "string list"
  cfg_socks5Addrs :: "string list"
  cfg_httpAddrs :: "string list"
  cfg_directRules :: string
  cfg_directIPFamily :: IPFamily
  cfg_dohHost :: string
  cfg_tunnelDNS :: "string list"
  cfg_localOnNXDomain :: bool
  cfg_healthAddr :: string
  cfg_sshKeepalivePeriod :: duration
  cfg_sshKeepaliveInterval :: int
  cfg_sshKeepaliveProbes :: int
  cfg_dialTimeout :: duration
  cfg_maxConnections :: int
  cfg_uiAllowedHosts :: "string list"

definition connHistoryMaxAge :: duration where
  "connHistoryMaxAge = 10 * time_Minute"

definition missing :: "config \<Rightarrow> string list" where
  "missing c = (if cfg_sshHost c = [] then [''SSH_HOST''] else []) @ (if cfg_sshUser c = [] then [''SSH_USER''] else [])"

subsection \<open>Parsers\<close>

definition getEnv :: "(string \<Rightarrow> string) \<Rightarrow> string \<Rightarrow> string \<Rightarrow> string" where
  "getEnv getenv key fallback = (if getenv key \<noteq> [] then getenv key else fallback)"

definition parseOnOff :: "string \<Rightarrow> goerr + bool" where
  "parseOnOff v =
     (if ToLower v = ''on'' then Inr True
      else if ToLower v = ''off'' then Inr False
      else Inl (ErrText (Quote v @ '': want on or off'')))"

datatype log_level = DebugLevel | InfoLevel | WarnLevel | ErrorLevel

definition parseLogLevel :: "string \<Rightarrow> log_level" where
  "parseLogLevel level =
     (if ToLower level = ''debug'' then DebugLevel
      else if ToLower level = ''warn'' then WarnLevel
      else if ToLower level = ''error'' then ErrorLevel
      else InfoLevel)"

definition tunnelDNS_entry :: "string \<Rightarrow> goerr + string" where
  "tunnelDNS_entry entry =
     (case (if ParseAddr entry \<noteq> None then Inr (entry, ''53'') else SplitHostPort entry) of
        Inl err \<Rightarrow> Inl (ErrText (''invalid TUNNEL_DNS entry '' @ Quote entry @ '': use an IP address with an optional port''))
      | Inr (host, port) \<Rightarrow>
          if ParseAddr host = None
          then Inl (ErrText (''invalid TUNNEL_DNS entry '' @ Quote entry @ '': use an IP address, not a name''))
          else if snd (Atoi port) \<noteq> None \<or> fst (Atoi port) < 1 \<or> fst (Atoi port) > 65535
          then Inl (ErrText (''invalid TUNNEL_DNS entry '' @ Quote entry @ '': bad port''))
          else Inr (JoinHostPort host port))"

text \<open>
  The loop the list parsers share: entries are trimmed, empty ones are skipped, the first entry that
  \<open>item\<close> refuses ends the loop with its error.
\<close>

fun parse_list :: "(string \<Rightarrow> goerr + string) \<Rightarrow> string list \<Rightarrow> string list \<Rightarrow> goerr + string list" where
  "parse_list item [] out = Inr out"
| "parse_list item (e # es) out =
     (let entry = TrimSpace e in
      if entry = [] then parse_list item es out
      else case item entry of Inl err \<Rightarrow> Inl err | Inr v \<Rightarrow> parse_list item es (out @ [v]))"

definition parseTunnelDNS :: "string \<Rightarrow> goerr + string list" where
  "parseTunnelDNS inp =
     (case parse_list tunnelDNS_entry (Split inp CHR '','') [] of
        Inl err \<Rightarrow> Inl err
      | Inr servers \<Rightarrow> if servers = [] then Inl (ErrText ''TUNNEL_DNS has no servers'') else Inr servers)"

text \<open>\<open>parseModes\<close> lowers an entry before it trims it.\<close>

definition mode_entry :: "string \<Rightarrow> goerr + string" where
  "mode_entry m =
     (if m \<in> set [''socks5'', ''http''] then Inr m
      else Inl (ErrText (''unknown proxy mode '' @ Quote m @ '' (valid: socks5, http)'')))"

definition parseModes :: "string \<Rightarrow> goerr + string list" where
  "parseModes inp =
     (case parse_list mode_entry (map ToLower (Split inp CHR '','')) [] of
        Inl err \<Rightarrow> Inl err
      | Inr modes \<Rightarrow> if modes = [] then Inr [''socks5''] else Inr modes)"

definition listen_entry :: "string \<Rightarrow> string \<Rightarrow> goerr + string" where
  "listen_entry name addr =
     (case validateHostPort addr of
        Some err \<Rightarrow> Inl (Errorf (''invalid '' @ name @ '' address '' @ Quote addr @ '': '') err)
      | None \<Rightarrow> Inr addr)"

definition parseListenList :: "string \<Rightarrow> string \<Rightarrow> goerr + string list" where
  "parseListenList name inp =
     (case parse_list (listen_entry name) (Split inp CHR '','') [] of
        Inl err \<Rightarrow> Inl err
      | Inr as \<Rightarrow>
          if as = [] then Inl (ErrText (''invalid '' @ name @ '' '' @ Quote inp @ '': no listen addresses'')) else Inr as)"

definition host_entry :: "string \<Rightarrow> string \<Rightarrow> goerr + string" where
  "host_entry name h =
     (if (case SplitHostPort h of Inr _ \<Rightarrow> True | Inl _ \<Rightarrow> False) \<or> ContainsAny h ''/[] ''
      then Inl (ErrText (''invalid '' @ name @ '' entry '' @ Quote h @ '': want a host name or IP address without port''))
      else Inr h)"

definition parseHostList :: "string \<Rightarrow> string \<Rightarrow> goerr + string list" where
  "parseHostList name inp = parse_list (host_entry name) (Split inp CHR '','') []"

definition parseKeepalivePeriod :: "string \<Rightarrow> goerr + duration" where
  "parseKeepalivePeriod inp =
     attempt (ParseDuration inp) (Errorf (''invalid SSH_KEEPALIVE_PERIOD '' @ Quote inp @ '' (Go duration, e.g. 90s): ''))
       (\<lambda>d. if d \<le> 0 then Inr 0 else Inr d)"

definition parseKeepaliveInterval :: "string \<Rightarrow> goerr + int" where
  "parseKeepaliveInterval inp =
     attempt (ParseDuration inp) (Errorf (''invalid SSH_KEEPALIVE_INTERVAL '' @ Quote inp @ '' (Go duration, e.g. 1s): ''))
       (\<lambda>d. if d < 0 then Inl (ErrText (''SSH_KEEPALIVE_INTERVAL must be non-negative, got '' @ inp))
            else if d = 0 then Inr 0
            else let s = quot d time_Second in if s < 1 then Inr 1 else Inr s)"

definition parseKeepaliveProbes :: "string \<Rightarrow> goerr + int" where
  "parseKeepaliveProbes inp =
     attempt (Atoi_result inp) (Errorf (''invalid SSH_KEEPALIVE_PROBES '' @ Quote inp @ '' (integer, e.g. 5): ''))
       (\<lambda>n. if n < 0 then Inl (ErrText (''SSH_KEEPALIVE_PROBES must be non-negative, got '' @ Itoa n)) else Inr n)"

definition parseDialTimeout :: "string \<Rightarrow> goerr + duration" where
  "parseDialTimeout inp =
     attempt (ParseDuration inp) (Errorf (''invalid SSH_DIAL_TIMEOUT '' @ Quote inp @ '' (Go duration, e.g. 30s): ''))
       (\<lambda>d. if d \<le> 0 then Inl (ErrText (''SSH_DIAL_TIMEOUT must be positive, got '' @ inp)) else Inr d)"

definition parseMaxConnections :: "string \<Rightarrow> goerr + int" where
  "parseMaxConnections inp =
     attempt (Atoi_result inp) (Errorf (''invalid MAX_CONNECTIONS '' @ Quote inp @ '' (integer, e.g. 4096): ''))
       (\<lambda>n. if n < 0 then Inl (ErrText (''MAX_CONNECTIONS must be non-negative (0 = no limit), got '' @ Itoa n)) else Inr n)"

subsection \<open>loadConfig\<close>

definition validateSSHHost :: "string \<Rightarrow> goerr option" where
  "validateSSHHost sshHost =
     (case net_ParseIP (Trim sshHost ''[]'') of
        Some ip \<Rightarrow>
          if \<not> To4_ok ip
          then Some (ErrText (''invalid SSH_HOST '' @ Quote sshHost @
                 '': the tunnel connects over IPv4 only, use an IPv4 address or a name with an A record''))
          else None
      | None \<Rightarrow> None)"

definition validateDOHHost :: "string \<Rightarrow> goerr option" where
  "validateDOHHost doh =
     (if doh = [] then None
      else if Contains_str doh ''/'' then
        Some (ErrText (''invalid DOH_HOST '' @ Quote doh @ '': use a hostname, e.g. cloudflare-dns.com''))
      else
        (case (case SplitHostPort doh of
                 Inr (host, port) \<Rightarrow>
                   if port \<noteq> ''443'' then Inl (ErrText (''invalid DOH_HOST '' @ Quote doh @ '': only port 443 is supported''))
                   else Inr host
               | Inl err \<Rightarrow> Inr doh) of
           Inl err \<Rightarrow> Some err
         | Inr hostOnly \<Rightarrow>
             if net_ParseIP hostOnly \<noteq> None then
               Some (ErrText (''invalid DOH_HOST '' @ Quote doh @ '': use a hostname (e.g. cloudflare-dns.com), not an IP address''))
             else None))"

definition defaultTunnelDNS :: string where
  "defaultTunnelDNS = ''1.1.1.1,8.8.8.8''"

definition validateDialTimeout :: "duration \<Rightarrow> goerr option" where
  "validateDialTimeout d =
     (if d \<ge> connHistoryMaxAge then
        Some (ErrText (''invalid SSH_DIAL_TIMEOUT '' @ Duration_String d @ '': must be below '' @
          Duration_String connHistoryMaxAge @ '' (connection history window)''))
      else None)"

definition loadConfig :: "(string \<Rightarrow> string) \<Rightarrow> goerr + config" where
  "loadConfig getenv =
     (let portStr = getEnv getenv ''SSH_PORT'' ''22'' in
      attempt (Atoi_result portStr) (Errorf (''invalid SSH_PORT '' @ Quote portStr @ '': '')) (\<lambda>port.
      guard (validatePort port) (Errorf ''invalid SSH_PORT: '') (
      attempt (parseModes (getEnv getenv ''PROXY_MODES'' ''socks5'')) (Errorf ''invalid PROXY_MODES: '') (\<lambda>modes.
      let sshHost = getenv ''SSH_HOST'' in
      guard (validateSSHHost sshHost) id (
      attempt (parseIPFamily (getEnv getenv ''DIRECT_IP_FAMILY'' ''both'')) (Errorf ''invalid DIRECT_IP_FAMILY: '') (\<lambda>family.
      attempt (parseKeepalivePeriod (getEnv getenv ''SSH_KEEPALIVE_PERIOD'' ''10s'')) (Errorf ''invalid SSH_KEEPALIVE_PERIOD: '') (\<lambda>period.
      attempt (parseKeepaliveInterval (getEnv getenv ''SSH_KEEPALIVE_INTERVAL'' ''1s'')) (Errorf ''invalid SSH_KEEPALIVE_INTERVAL: '') (\<lambda>interval.
      attempt (parseKeepaliveProbes (getEnv getenv ''SSH_KEEPALIVE_PROBES'' ''5'')) (Errorf ''invalid SSH_KEEPALIVE_PROBES: '') (\<lambda>probes.
      attempt (parseDialTimeout (getEnv getenv ''SSH_DIAL_TIMEOUT'' ''30s'')) (Errorf ''invalid SSH_DIAL_TIMEOUT: '') (\<lambda>dialTimeout.
      guard (validateDialTimeout dialTimeout) id (
      attempt (parseMaxConnections (getEnv getenv ''MAX_CONNECTIONS'' ''4096'')) id (\<lambda>maxConnections.
      attempt (parseListenList ''SOCKS5_LISTEN'' (getEnv getenv ''SOCKS5_LISTEN'' '':1080'')) id (\<lambda>socks5Addrs.
      attempt (parseListenList ''HTTP_LISTEN'' (getEnv getenv ''HTTP_LISTEN'' '':3128'')) id (\<lambda>httpAddrs.
      let healthAddr = getEnv getenv ''HEALTH_LISTEN'' ''127.0.0.1:9090'' in
      guard (validateHostPort healthAddr) (Errorf ''invalid HEALTH_LISTEN: '') (
      attempt (parseHostList ''UI_ALLOWED_HOSTS'' (getEnv getenv ''UI_ALLOWED_HOSTS'' [])) id (\<lambda>uiAllowedHosts.
      let dataDir = getEnv getenv ''DATA_DIR'' ''/data''; doh = getenv ''DOH_HOST'' in
      guard (if dataDir = [] then Some (ErrText ''DATA_DIR cannot be empty'') else None) id (
      guard (validateDOHHost doh) id (
      guard (if doh \<noteq> [] \<and> getenv ''TUNNEL_DNS'' \<noteq> [] then Some (ErrText ''DOH_HOST and TUNNEL_DNS are both set: use one of them'') else None) id (
      attempt (if doh = [] then parseTunnelDNS (getEnv getenv ''TUNNEL_DNS'' defaultTunnelDNS) else Inr []) id (\<lambda>tunnelDNS.
      attempt (parseOnOff (getEnv getenv ''LOCAL_DNS_ON_NXDOMAIN'' ''off'')) (Errorf ''invalid LOCAL_DNS_ON_NXDOMAIN: '') (\<lambda>nx.
      Inr \<lparr>cfg_sshHost = sshHost, cfg_sshPort = port, cfg_sshUser = getenv ''SSH_USER'', cfg_dataDir = dataDir,
           cfg_proxyModes = modes, cfg_socks5Addrs = socks5Addrs, cfg_httpAddrs = httpAddrs,
           cfg_directRules = getEnv getenv ''DIRECT_RULES'' [], cfg_directIPFamily = family, cfg_dohHost = doh,
           cfg_tunnelDNS = tunnelDNS, cfg_localOnNXDomain = nx, cfg_healthAddr = healthAddr,
           cfg_sshKeepalivePeriod = period, cfg_sshKeepaliveInterval = interval, cfg_sshKeepaliveProbes = probes,
           cfg_dialTimeout = dialTimeout, cfg_maxConnections = maxConnections, cfg_uiAllowedHosts = uiAllowedHosts\<rparr>)))))))))))))))))))))"

subsection \<open>configureDNS and the first-run hint\<close>

definition configureDNS :: "config \<Rightarrow> dnsCache \<Rightarrow> dnsCache" where
  "configureDNS cfg c =
     (let c = c\<lparr>localOnNXDomain := cfg_localOnNXDomain cfg\<rparr> in
      if cfg_dohHost cfg \<noteq> [] then SetDOH (cfg_dohHost cfg) c else SetTunnelDNS (cfg_tunnelDNS cfg) c)"

definition listen_port :: "string \<Rightarrow> string \<Rightarrow> string" where
  "listen_port defaultPort addr =
     (case SplitHostPort addr of
        Inr (host, port) \<Rightarrow> if port = [] then defaultPort else port
      | Inl err \<Rightarrow> defaultPort)"

fun firstRunPorts_loop :: "string \<Rightarrow> string list \<Rightarrow> string list \<Rightarrow> string list" where
  "firstRunPorts_loop defaultPort [] ports = ports"
| "firstRunPorts_loop defaultPort (addr # as) ports =
     (let port = listen_port defaultPort addr in
      firstRunPorts_loop defaultPort as (if port \<in> set ports then ports else ports @ [port]))"

definition firstRunPorts :: "string list \<Rightarrow> string \<Rightarrow> string list" where
  "firstRunPorts as defaultPort = firstRunPorts_loop defaultPort as []"

definition printFirstRun :: "string \<Rightarrow> config \<Rightarrow> string list" where
  "printFirstRun pubKey cfg =
     [[], ''=== ssh-gate first run ==='', [], ''Add to VPS ~/.ssh/authorized_keys:'', [],
      ''   command='' @ [CHR 0x22] @ ''echo '' @ [CHR 0x27] @ ''tunnel only'' @ [CHR 0x27, CHR 0x22] @ '',no-pty,no-agent-forwarding,no-X11-forwarding,no-user-rc '' @ pubKey,
      []]
     @ (if contains (cfg_proxyModes cfg) ''socks5''
        then map (\<lambda>port. ''SOCKS5 proxy: localhost:'' @ port) (firstRunPorts (cfg_socks5Addrs cfg) ''1080'') else [])
     @ (if contains (cfg_proxyModes cfg) ''http''
        then map (\<lambda>port. ''HTTP proxy:  localhost:'' @ port) (firstRunPorts (cfg_httpAddrs cfg) ''3128'') else [])
     @ [[]]"

section \<open>Specification\<close>

text \<open>A listen address has a port; the host may be empty.\<close>

definition listen_ok :: "string \<Rightarrow> bool" where
  "listen_ok addr = (case SplitHostPort addr of Inr (host, port) \<Rightarrow> port \<noteq> [] | Inl err \<Rightarrow> False)"

definition port_ok :: "string \<Rightarrow> bool" where
  "port_ok port \<longleftrightarrow> snd (Atoi port) = None \<and> 1 \<le> fst (Atoi port) \<and> fst (Atoi port) \<le> 65535"

text \<open>An address literal without a zone, with its port, that splits back into both.\<close>

definition server_ok :: "string \<Rightarrow> bool" where
  "server_ok s = (case SplitHostPort s of Inr (host, port) \<Rightarrow> ParseAddr host \<noteq> None \<and> port_ok port | Inl err \<Rightarrow> False)"

definition no_zone :: "string \<Rightarrow> bool" where
  "no_zone s \<longleftrightarrow> CHR ''%'' \<notin> set s"

definition addr_char :: "char \<Rightarrow> bool" where
  "addr_char c \<longleftrightarrow> hex_val c \<noteq> None \<or> c = CHR ''.'' \<or> c = CHR '':''"

definition sample_environ :: "string \<Rightarrow> string" where
  "sample_environ key =
     (if key = ''SSH_HOST'' then ''vps.example'' else if key = ''SSH_USER'' then ''tunnel''
      else if key = ''TUNNEL_DNS'' then '' 9.9.9.9, [2620:fe::fe]:5353 '' else if key = ''SSH_DIAL_TIMEOUT'' then ''1.5m'' else [])"

definition sample_config :: config where
  "sample_config = \<lparr>cfg_sshHost = ''vps.example'', cfg_sshPort = 22, cfg_sshUser = ''tunnel'', cfg_dataDir = ''/data'',
     cfg_proxyModes = [''socks5''], cfg_socks5Addrs = ['':1080''], cfg_httpAddrs = ['':3128''], cfg_directRules = [],
     cfg_directIPFamily = FamilyBoth, cfg_dohHost = [], cfg_tunnelDNS = [''9.9.9.9:53'', ''[2620:fe::fe]:5353''],
     cfg_localOnNXDomain = False, cfg_healthAddr = ''127.0.0.1:9090'', cfg_sshKeepalivePeriod = 10 * time_Second,
     cfg_sshKeepaliveInterval = 1, cfg_sshKeepaliveProbes = 5, cfg_dialTimeout = 90 * time_Second,
     cfg_maxConnections = 4096, cfg_uiAllowedHosts = []\<rparr>"

definition valid_config :: "config \<Rightarrow> bool" where
  "valid_config cfg \<longleftrightarrow>
     1 \<le> cfg_sshPort cfg \<and> cfg_sshPort cfg \<le> 65535 \<and>
     cfg_proxyModes cfg \<noteq> [] \<and> set (cfg_proxyModes cfg) \<subseteq> {''socks5'', ''http''} \<and>
     cfg_socks5Addrs cfg \<noteq> [] \<and> cfg_httpAddrs cfg \<noteq> [] \<and>
     list_all listen_ok (cfg_socks5Addrs cfg @ cfg_httpAddrs cfg @ [cfg_healthAddr cfg]) \<and>
     0 < cfg_dialTimeout cfg \<and> cfg_dialTimeout cfg < connHistoryMaxAge \<and>
     0 \<le> cfg_sshKeepalivePeriod cfg \<and> cfg_sshKeepalivePeriod cfg \<le> max_int64 \<and>
     0 \<le> cfg_sshKeepaliveInterval cfg \<and> cfg_sshKeepaliveInterval cfg * time_Second \<le> max_int64 \<and>
     0 \<le> cfg_sshKeepaliveProbes cfg \<and> 0 \<le> cfg_maxConnections cfg \<and> cfg_dataDir cfg \<noteq> [] \<and>
     (cfg_dohHost cfg = [] \<longleftrightarrow> cfg_tunnelDNS cfg \<noteq> []) \<and>
     list_all (\<lambda>s. no_zone s \<longrightarrow> server_ok s) (cfg_tunnelDNS cfg)"

section \<open>Control flow\<close>

lemma attempt_Inr [simp]: "attempt r wrap k = Inr y \<longleftrightarrow> (\<exists>x. r = Inr x \<and> k x = Inr y)"
  by (simp add: attempt_def split: sum.splits)

lemma guard_Inr [simp]: "guard r wrap k = Inr y \<longleftrightarrow> r = None \<and> k = Inr y"
  by (simp add: guard_def split: option.splits)

lemma parse_list_Inr:
  "parse_list item es out = Inr r \<Longrightarrow>
     \<exists>vs. r = out @ vs \<and> list_all2 (\<lambda>e v. item e = Inr v) (filter (\<lambda>e. e \<noteq> []) (map TrimSpace es)) vs"
proof (induction item es out rule: parse_list.induct)
  case (2 item e es out)
  then show ?case
    by (fastforce simp: Let_def list_all2_Cons1 split: if_splits sum.splits)
qed simp

lemma parse_list_all:
  assumes "parse_list item es [] = Inr r" and "\<And>e v. item e = Inr v \<Longrightarrow> P v"
  shows "list_all P r"
proof -
  obtain es' where "list_all2 (\<lambda>e v. item e = Inr v) es' r" using parse_list_Inr [OF assms(1)] by auto
  then have "list_all2 (\<lambda>e v. P v) es' r" by (rule list_all2_mono) (rule assms(2))
  then show ?thesis by (simp add: list_all2_conv_all_nth list_all_length)
qed

section \<open>Characters of addresses and ports\<close>

lemma digit_addr_char: "is_digit c \<Longrightarrow> addr_char c"
  by (simp add: addr_char_def hex_val_def)

lemma addr_char_bracket: "\<not> addr_char CHR ''[''" "\<not> addr_char CHR '']''" "\<not> is_digit CHR ''[''" "\<not> is_digit CHR '']''" "\<not> is_digit CHR '':''"
  by code_simp+

lemma parseIPv4Fields_chars: "parseIPv4Fields s v n fs = Some r \<Longrightarrow> list_all addr_char s"
proof (induction s v n fs rule: parseIPv4Fields.induct)
  case (2 c cs v n fs)
  then show ?case by (auto simp: digit_addr_char split: if_splits) (simp add: addr_char_def)
qed simp

lemma scan_hex_chars: "scan_hex s off acc = Some (off', acc', rest) \<Longrightarrow> list_all addr_char rest \<Longrightarrow> list_all addr_char s"
proof (induction s off acc rule: scan_hex.induct)
  case (2 c cs off acc)
  then show ?case by (auto simp: addr_char_def split: option.splits if_splits)
qed simp

lemma parseIPv6_loop_chars: "parseIPv6_loop s ip ell = Some ([], ip', ell') \<Longrightarrow> list_all addr_char s"
proof (induction s ip ell rule: parseIPv6_loop.induct)
  case (1 s ip ell)
  show ?case
  proof (cases "16 \<le> length ip")
    case True
    then show ?thesis using 1 by (simp add: parseIPv6_loop.simps [of s])
  next
    case False
    then obtain off acc rest where sc: "scan_hex s 0 0 = Some (off, acc, rest)" and off: "off \<noteq> 0"
      using 1(3) by (auto simp: parseIPv6_loop.simps [of s] split: option.splits if_splits)
    show ?thesis
    proof (cases "rest \<noteq> [] \<and> hd rest = CHR ''.''")
      case True
      then show ?thesis
        using 1(3) False sc off by (auto simp: parseIPv6_loop.simps [of s] parseIPv4Fields_chars split: if_splits)
    next
      case nodot: False
      show ?thesis
      proof (rule scan_hex_chars [OF sc])
        show "list_all addr_char rest"
        proof (cases rest)
          case (Cons c cs)
          have eq: "(if c \<noteq> CHR '':'' \<or> cs = [] then None
              else if hd cs = CHR '':'' then
                (if ell \<noteq> None then None
                 else if tl cs = [] then Some ([], ip @ [acc div 256, acc mod 256], Some (length (ip @ [acc div 256, acc mod 256])))
                 else parseIPv6_loop (tl cs) (ip @ [acc div 256, acc mod 256]) (Some (length (ip @ [acc div 256, acc mod 256]))))
              else parseIPv6_loop cs (ip @ [acc div 256, acc mod 256]) ell) = Some ([], ip', ell')"
            using 1(3) False sc off nodot Cons by (simp add: parseIPv6_loop.simps [of s] Let_def split del: if_split)
          then have c: "c = CHR '':''" "cs \<noteq> []" and n: "\<not> (c \<noteq> CHR '':'' \<or> cs = [])"
            by (auto split: if_splits)
          note IH = 1(1) [OF False sc refl refl off nodot refl Cons n] 1(2) [OF False sc refl refl off nodot refl Cons n]
          have col: "addr_char CHR '':''" by (simp add: addr_char_def)
          have "list_all addr_char cs"
          proof (cases "hd cs = CHR '':''")
            case True
            then have "list_all addr_char (tl cs)"
              using IH(1) eq c by (cases "tl cs = []") (auto split: if_splits)
            then show ?thesis using True c col by (cases cs) auto
          next
            case False': False
            then show ?thesis using IH(2) eq c by simp
          qed
          then show ?thesis using Cons c col by simp
        qed simp
      qed
    qed
  qed
qed


lemma ParseAddr_chars:
  assumes "ParseAddr s = Some a" and "no_zone s"
  shows "list_all addr_char s"
proof -
  have "list_all addr_char s" if "parseIPv6 s = Some a"
  proof -
    have t: "takeWhile (\<lambda>c. c \<noteq> CHR ''%'') s = s"
      using assms(2) by (auto simp: no_zone_def takeWhile_eq_all_conv)
    have col: "addr_char CHR '':''" by (simp add: addr_char_def)
    show ?thesis
    proof (cases "2 \<le> length s \<and> s ! 0 = CHR '':'' \<and> s ! 1 = CHR '':''")
      case True
      then obtain r where r: "s = CHR '':'' # CHR '':'' # r"
        by (cases s; cases "tl s") auto
      have "parseIPv6_loop r [] (Some 0) = Some ([], ip, ell)" if "r \<noteq> []" "parseIPv6_loop r [] (Some 0) = Some (x, ip, ell)" for x ip ell
        using that \<open>parseIPv6 s = Some a\<close> True unfolding parseIPv6_def t Let_def by (simp add: r split: if_splits)
      moreover have "parseIPv6_loop r [] (Some 0) \<noteq> None" if "r \<noteq> []"
        using that \<open>parseIPv6 s = Some a\<close> True unfolding parseIPv6_def t Let_def
        by (cases "parseIPv6_loop r [] (Some 0)") (simp_all add: r split: if_splits)
      ultimately have "list_all addr_char r" by (cases "r = []") (auto dest: parseIPv6_loop_chars)
      then show ?thesis using r col by simp
    next
      case False
      then have "\<exists>ip ell. parseIPv6_loop s [] None = Some ([], ip, ell)"
        using that unfolding parseIPv6_def t Let_def
        by (cases "parseIPv6_loop s [] None") (simp_all split: if_splits prod.splits)
      then show ?thesis using parseIPv6_loop_chars by blast
    qed
  qed
  moreover have "list_all addr_char s" if "parseIPv4 s = Some a"
    using that parseIPv4Fields_chars by (auto simp: parseIPv4_def)
  ultimately show ?thesis
    using assms(1) by (auto simp: ParseAddr_def split: list.splits if_splits)
qed

lemma Atoi_digits:
  assumes "snd (Atoi s) = None"
  shows "\<exists>sign ds. s = sign @ ds \<and> list_all is_digit ds \<and> sign \<in> {[], ''-'', ''+''}"
proof (cases s)
  case Nil
  then show ?thesis by auto
next
  case (Cons c cs)
  define ds where "ds = (if c = CHR ''-'' \<or> c = CHR ''+'' then cs else s)"
  have "list_all is_digit ds"
  proof (rule ccontr)
    assume "\<not> list_all is_digit ds"
    then have "Atoi s = (0, Some ErrSyntax)"
      by (auto simp: Atoi_def Cons ds_def split: if_splits)
    then show False using assms by simp
  qed
  then show ?thesis
    using Cons by (intro exI [of _ "if c = CHR ''-'' \<or> c = CHR ''+'' then [c] else []"] exI [of _ ds]) (auto simp: ds_def)
qed

lemma port_ok_chars:
  assumes "port_ok port"
  shows "CHR '':'' \<notin> set port" "CHR ''['' \<notin> set port" "CHR '']'' \<notin> set port"
proof -
  obtain sign ds where "port = sign @ ds" "list_all is_digit ds" "sign \<in> {[], ''-'', ''+''}"
    using assms Atoi_digits [of port] unfolding port_ok_def by blast
  then show "CHR '':'' \<notin> set port" "CHR ''['' \<notin> set port" "CHR '']'' \<notin> set port"
    using addr_char_bracket by (auto simp: list_all_iff)
qed

lemma server_ok_Join:
  assumes "ParseAddr host = Some a" and "no_zone host" and "port_ok port"
  shows "server_ok (JoinHostPort host port)"
proof -
  have "CHR ''['' \<notin> set host" "CHR '']'' \<notin> set host"
    using ParseAddr_chars [OF assms(1,2)] addr_char_bracket by (auto simp: list_all_iff)
  then show ?thesis
    using SplitHostPort_JoinHostPort [of host port] port_ok_chars [OF assms(3)] assms
    by (simp add: server_ok_def)
qed

section \<open>What loadConfig accepts\<close>

lemma listen_ok_validate: "validateHostPort addr = None \<longleftrightarrow> listen_ok addr"
  by (auto simp: validateHostPort_None listen_ok_def split: sum.splits)

lemma listen_entry_Inr: "listen_entry name e = Inr v \<longleftrightarrow> v = e \<and> listen_ok e"
  by (auto simp: listen_entry_def listen_ok_validate [symmetric] split: option.splits)

lemma parseListenList_ok: "parseListenList name inp = Inr as \<Longrightarrow> as \<noteq> [] \<and> list_all listen_ok as"
  using parse_list_all [where P = listen_ok and item = "listen_entry name"]
  by (auto simp: parseListenList_def listen_entry_Inr split: sum.splits if_splits)

lemma parseModes_ok:
  assumes "parseModes inp = Inr modes"
  shows "modes \<noteq> [] \<and> set modes \<subseteq> {''socks5'', ''http''}"
proof -
  have "list_all (\<lambda>m. m \<in> {''socks5'', ''http''}) r" if "parse_list mode_entry es [] = Inr r" for es r
    by (rule parse_list_all [OF that]) (auto simp: mode_entry_def split: if_splits)
  then show ?thesis using assms by (auto simp: parseModes_def list_all_iff split: sum.splits if_splits)
qed

lemma tunnelDNS_entry_ok:
  assumes "tunnelDNS_entry e = Inr s" and "no_zone s"
  shows "server_ok s"
proof -
  obtain host port where hp: "ParseAddr host \<noteq> None" "port_ok port" "s = JoinHostPort host port"
    using assms(1) unfolding tunnelDNS_entry_def port_ok_def
    by (auto simp: not_less split: sum.splits if_splits prod.splits)
  moreover have "no_zone host" using assms(2) hp(3) by (auto simp: no_zone_def JoinHostPort_def split: if_splits)
  ultimately show ?thesis using server_ok_Join by auto
qed

lemma parseTunnelDNS_ok:
  assumes "parseTunnelDNS inp = Inr servers"
  shows "servers \<noteq> [] \<and> list_all (\<lambda>s. no_zone s \<longrightarrow> server_ok s) servers"
proof -
  have "list_all (\<lambda>s. no_zone s \<longrightarrow> server_ok s) r" if "parse_list tunnelDNS_entry es [] = Inr r" for es r
    by (rule parse_list_all [OF that]) (blast intro: tunnelDNS_entry_ok)
  then show ?thesis using assms by (auto simp: parseTunnelDNS_def split: sum.splits if_splits)
qed

lemma parseKeepalivePeriod_ok: "parseKeepalivePeriod inp = Inr d \<Longrightarrow> 0 \<le> d \<and> d \<le> max_int64"
  by (auto simp: parseKeepalivePeriod_def max_int64_def dest: ParseDuration_bounds split: if_splits)

lemma parseKeepaliveInterval_ok:
  assumes "parseKeepaliveInterval inp = Inr n"
  shows "0 \<le> n \<and> n * time_Second \<le> max_int64"
proof -
  obtain d where d: "ParseDuration inp = Inr d" "0 \<le> d"
    and n: "n = 0 \<or> n = 1 \<or> (n = quot d time_Second \<and> 1 \<le> n)"
    using assms by (auto simp: parseKeepaliveInterval_def Let_def split: if_splits)
  have "d div time_Second * time_Second \<le> max_int64"
  proof -
    have "0 \<le> d mod time_Second" by (simp add: time_units)
    then show ?thesis using ParseDuration_bounds [OF d(1)] minus_mod_eq_div_mult [of d time_Second] by linarith
  qed
  then show ?thesis using n d(2) by (auto simp: quot_def max_int64_def time_units)
qed

lemma parseDialTimeout_ok: "parseDialTimeout inp = Inr d \<Longrightarrow> 0 < d"
  by (auto simp: parseDialTimeout_def split: if_splits)

lemma parse_counts_ok:
  "parseKeepaliveProbes inp = Inr n \<Longrightarrow> 0 \<le> n" "parseMaxConnections inp = Inr n \<Longrightarrow> 0 \<le> n"
  by (auto simp: parseKeepaliveProbes_def parseMaxConnections_def split: if_splits)

lemma loadConfig_parts:
  assumes "loadConfig getenv = Inr cfg"
  shows "validatePort (cfg_sshPort cfg) = None \<and>
    (\<exists>i. parseModes i = Inr (cfg_proxyModes cfg)) \<and>
    (\<exists>i. parseKeepalivePeriod i = Inr (cfg_sshKeepalivePeriod cfg)) \<and>
    (\<exists>i. parseKeepaliveInterval i = Inr (cfg_sshKeepaliveInterval cfg)) \<and>
    (\<exists>i. parseKeepaliveProbes i = Inr (cfg_sshKeepaliveProbes cfg)) \<and>
    (\<exists>i. parseDialTimeout i = Inr (cfg_dialTimeout cfg)) \<and>
    validateDialTimeout (cfg_dialTimeout cfg) = None \<and>
    (\<exists>i. parseMaxConnections i = Inr (cfg_maxConnections cfg)) \<and>
    (\<exists>n i. parseListenList n i = Inr (cfg_socks5Addrs cfg)) \<and>
    (\<exists>n i. parseListenList n i = Inr (cfg_httpAddrs cfg)) \<and>
    validateHostPort (cfg_healthAddr cfg) = None \<and>
    (if cfg_dataDir cfg = [] then Some (ErrText ''DATA_DIR cannot be empty'') else None) = None \<and>
    (\<exists>i. (if cfg_dohHost cfg = [] then parseTunnelDNS i else Inr []) = Inr (cfg_tunnelDNS cfg))"
  using assms unfolding loadConfig_def Let_def attempt_Inr guard_Inr sum.inject
  apply (elim exE conjE)
  apply hypsubst
  unfolding config.simps
  by (intro conjI exI; assumption)

lemma loadConfig_dns:
  assumes "loadConfig getenv = Inr cfg"
  shows "(cfg_dohHost cfg = [] \<longleftrightarrow> cfg_tunnelDNS cfg \<noteq> []) \<and> list_all (\<lambda>s. no_zone s \<longrightarrow> server_ok s) (cfg_tunnelDNS cfg)"
  using loadConfig_parts [OF assms] parseTunnelDNS_ok by (cases "cfg_dohHost cfg = []") auto

lemma parse_listen_iff:
  "parse_list (listen_entry name) es out = Inr r \<longleftrightarrow>
     r = out @ filter (\<lambda>e. e \<noteq> []) (map TrimSpace es) \<and> list_all listen_ok (filter (\<lambda>e. e \<noteq> []) (map TrimSpace es))"
proof (induction es arbitrary: out)
  case (Cons e es)
  have "listen_ok (TrimSpace e) \<Longrightarrow> listen_entry name (TrimSpace e) = Inr (TrimSpace e)"
    using listen_entry_Inr by blast
  moreover have "\<not> listen_ok (TrimSpace e) \<Longrightarrow> \<exists>err. listen_entry name (TrimSpace e) = Inl err"
    using listen_entry_Inr by (metis sum.exhaust)
  ultimately show ?case using Cons by (cases "listen_ok (TrimSpace e)") (auto simp: Let_def)
qed auto

lemma sample_config_loaded: "loadConfig sample_environ = Inr sample_config"
  by code_simp

lemma loadConfig_valid_config:
  assumes "loadConfig getenv = Inr cfg"
  shows "valid_config cfg"
proof -
  note p = loadConfig_parts [OF assms]
  note loadConfig_dns [OF assms]
  moreover have "cfg_dialTimeout cfg < connHistoryMaxAge"
    using p by (simp add: validateDialTimeout_def split: if_splits)
  moreover have "cfg_dataDir cfg \<noteq> []" using p by (simp split: if_splits)
  moreover have "cfg_proxyModes cfg \<noteq> [] \<and> set (cfg_proxyModes cfg) \<subseteq> {''socks5'', ''http''}" using p parseModes_ok by blast
  moreover have "cfg_socks5Addrs cfg \<noteq> [] \<and> list_all listen_ok (cfg_socks5Addrs cfg)" using p parseListenList_ok by blast
  moreover have "cfg_httpAddrs cfg \<noteq> [] \<and> list_all listen_ok (cfg_httpAddrs cfg)" using p parseListenList_ok by blast
  moreover have "listen_ok (cfg_healthAddr cfg)" using p listen_ok_validate by blast
  moreover have "0 < cfg_dialTimeout cfg" using p parseDialTimeout_ok by blast
  moreover have "0 \<le> cfg_sshKeepalivePeriod cfg \<and> cfg_sshKeepalivePeriod cfg \<le> max_int64" using p parseKeepalivePeriod_ok by blast
  moreover have "0 \<le> cfg_sshKeepaliveInterval cfg \<and> cfg_sshKeepaliveInterval cfg * time_Second \<le> max_int64"
    using p parseKeepaliveInterval_ok by blast
  moreover have "0 \<le> cfg_sshKeepaliveProbes cfg" "0 \<le> cfg_maxConnections cfg" using p parse_counts_ok by blast+
  moreover have "1 \<le> cfg_sshPort cfg \<and> cfg_sshPort cfg \<le> 65535" using p validatePort_None by blast
  ultimately show ?thesis unfolding valid_config_def by simp
qed

text \<open>
  C25: Every configuration \<open>loadConfig\<close> accepts is one the rest of the program can run on: the SSH port is a
  port; at least one known proxy mode and at least one listen address per protocol, each with a
  port; a dial timeout that is positive and below the history window of the tracker; keepalive settings that
  do not overflow when they are turned back into nanoseconds; exactly one of DoH and a
  non-empty list of tunnel DNS servers, each an address literal and a port that split apart again (zones excepted).
\<close>

theorem loadConfig_valid:
  assumes "loadConfig getenv = Inr cfg"
  shows "valid_config cfg"
  using assms by (rule loadConfig_valid_config)

theorem loadConfig_valid_witness:
  "loadConfig sample_environ = Inr sample_config \<and> valid_config sample_config"
  using loadConfig_valid [OF sample_config_loaded] sample_config_loaded by blast

text \<open>
  A listen list is exactly the trimmed, non-empty entries of the variable, in order; it is accepted
  precisely when there is at least one and every one of them has a port.
\<close>

theorem parseListenList_iff:
  "parseListenList name inp = Inr as \<longleftrightarrow>
     as = filter (\<lambda>e. e \<noteq> []) (map TrimSpace (Split inp CHR '','')) \<and> as \<noteq> [] \<and> list_all listen_ok as"
proof -
  let ?es = "Split inp CHR '',''"
  show ?thesis
  proof (cases "parse_list (listen_entry name) ?es []")
    case (Inl e)
    then have "\<not> list_all listen_ok (filter (\<lambda>e. e \<noteq> []) (map TrimSpace ?es))"
      using parse_listen_iff [of name ?es "[]"] by simp
    then show ?thesis using Inl by (auto simp: parseListenList_def)
  next
    case (Inr r)
    then have "r = filter (\<lambda>e. e \<noteq> []) (map TrimSpace ?es) \<and> list_all listen_ok r"
      using parse_listen_iff [of name ?es "[]"] by simp
    then show ?thesis using Inr by (auto simp: parseListenList_def)
  qed
qed

text \<open>
  The resolvers a valid configuration sets up: with \<open>DOH_HOST\<close> a single DoH resolver, otherwise one per
  tunnel DNS server in the order given, at least one in both cases, none of them paused or probed.
\<close>

theorem configureDNS_resolvers:
  assumes "loadConfig getenv = Inr cfg"
  shows "tunnel (configureDNS cfg c) \<noteq> [] \<and> localOnNXDomain (configureDNS cfg c) = cfg_localOnNXDomain cfg
    \<and> (if cfg_dohHost cfg \<noteq> [] then map u_lookup (tunnel (configureDNS cfg c)) = [DohLookup]
       else map u_lookup (tunnel (configureDNS cfg c)) = map ServerLookup (cfg_tunnelDNS cfg))"
  using loadConfig_dns [OF assms]
  by (auto simp: configureDNS_def SetDOH_def SetTunnelDNS_def new_upstream_def)

theorem configureDNS_resolvers_witness:
  "map u_lookup (tunnel (configureDNS sample_config new_dnsCache)) = [ServerLookup ''9.9.9.9:53'', ServerLookup ''[2620:fe::fe]:5353'']"
  using configureDNS_resolvers [OF sample_config_loaded, of new_dnsCache] by (simp add: sample_config_def)

end
