(* ===== verification/Status.thy ===== *)
theory Status
  imports GoTime GoPath
begin

text \<open>
  \<open>status.go\<close>: the states of the tunnel, the classification of connect errors, the systemd status line, and
  the stand-in dialer of a service that is not configured. \<open>errors.As\<close> finds the first error of
  a type in the chain of unwrapped errors.
\<close>

section \<open>Model\<close>

definition stateNotConfigured :: string where "stateNotConfigured = ''not_configured''"
definition stateConnecting :: string where "stateConnecting = ''connecting''"
definition stateConnected :: string where "stateConnected = ''connected''"
definition stateReconnecting :: string where "stateReconnecting = ''reconnecting''"
definition stateKeyRejected :: string where "stateKeyRejected = ''key_rejected''"
definition stateUnreachable :: string where "stateUnreachable = ''unreachable''"
definition stateHostKeyMismatch :: string where "stateHostKeyMismatch = ''host_key_mismatch''"
definition stateSSHError :: string where "stateSSHError = ''ssh_error''"

lemmas state_defs = stateNotConfigured_def stateConnecting_def stateConnected_def stateReconnecting_def
  stateKeyRejected_def stateUnreachable_def stateHostKeyMismatch_def stateSSHError_def

record tunnelStatus =
  ts_State :: string
  ts_Err :: "goerr option"
  ts_Attempt :: int
  ts_Retry :: duration

definition plain_status :: "string \<Rightarrow> tunnelStatus" where
  "plain_status st = \<lparr>ts_State = st, ts_Err = None, ts_Attempt = 0, ts_Retry = 0\<rparr>"

subsection \<open>Classification of errors\<close>

fun as_connectError :: "goerr list \<Rightarrow> string option" where
  "as_connectError [] = None"
| "as_connectError (ConnectError st e # es) = Some st"
| "as_connectError (e # es) = as_connectError es"

fun as_hostKeyMismatch :: "goerr list \<Rightarrow> (string \<times> string) option" where
  "as_hostKeyMismatch [] = None"
| "as_hostKeyMismatch (HostKeyMismatch want got # es) = Some (want, got)"
| "as_hostKeyMismatch (e # es) = as_hostKeyMismatch es"

fun as_opError :: "goerr list \<Rightarrow> goerr option option" where
  "as_opError [] = None"
| "as_opError (OpError s e # es) = Some e"
| "as_opError (e # es) = as_opError es"

definition failState :: "goerr \<Rightarrow> string" where
  "failState err = (case as_connectError (err_chain err) of Some st \<Rightarrow> st | None \<Rightarrow> stateSSHError)"

definition handshakeState :: "goerr \<Rightarrow> string" where
  "handshakeState err =
     (if as_hostKeyMismatch (err_chain err) \<noteq> None then stateHostKeyMismatch
      else if Contains_str (err_Error err) ''ssh: unable to authenticate'' then stateKeyRejected
      else stateSSHError)"

definition dialCause :: "goerr option \<Rightarrow> string" where
  "dialCause err =
     (case err of
        None \<Rightarrow> ''unknown error''
      | Some e \<Rightarrow> (case as_opError (err_chain e) of Some (Some e') \<Rightarrow> err_Error e' | _ \<Rightarrow> err_Error e))"

subsection \<open>The status line\<close>

definition sshKnownHostsFile :: string where
  "sshKnownHostsFile = ''ssh_known_hosts''"

definition known_hosts_path :: "string \<Rightarrow> string" where
  "known_hosts_path keyPath = Join_path [Dir keyPath, sshKnownHostsFile]"

text \<open>\<open>%v\<close> of a nil error prints \<open><nil>\<close>.\<close>

definition show_err :: "goerr option \<Rightarrow> string" where
  "show_err err = (case err of None \<Rightarrow> ''<nil>'' | Some e \<Rightarrow> err_Error e)"

text \<open>The parameters of \<open>statusText\<close> are the fields of the dialer configuration it reads.\<close>

definition statusText :: "string \<Rightarrow> string \<Rightarrow> int \<Rightarrow> string \<Rightarrow> tunnelStatus \<Rightarrow> string" where
  "statusText user host port keyPath st =
     (let ep = user @ ''@'' @ JoinHostPort host (Itoa port);
          retry = ''retry in '' @ Duration_String (Duration_Round (ts_Retry st) time_Second) @ '' (attempt '' @ Itoa (ts_Attempt st) @ '')''
      in if ts_State st = stateConnecting then ''Connecting to '' @ ep
         else if ts_State st = stateConnected then ''Connected to '' @ ep
         else if ts_State st = stateReconnecting then ''Tunnel to '' @ ep @ '' lost, reconnecting''
         else if ts_State st = stateKeyRejected then
           ''Key not accepted by '' @ ep @ '': add '' @ keyPath @ ''.pub to authorized_keys; '' @ retry
         else if ts_State st = stateUnreachable then
           ''Cannot reach '' @ ep @ '': '' @ dialCause (ts_Err st) @ ''; '' @ retry
         else if ts_State st = stateHostKeyMismatch then
           (case as_hostKeyMismatch (case ts_Err st of Some e \<Rightarrow> err_chain e | None \<Rightarrow> []) of
              Some (want, got) \<Rightarrow>
                ''Host key of '' @ ep @ '' changed (expected '' @ want @ '', got '' @ got @ ''): delete '' @ known_hosts_path keyPath @ '' to trust the new key''
            | None \<Rightarrow> ''Host key of '' @ ep @ '' changed: delete '' @ known_hosts_path keyPath @ '' to trust the new key'')
         else ''SSH error: '' @ show_err (ts_Err st) @ ''; '' @ retry)"

definition notConfiguredText :: "string list \<Rightarrow> string" where
  "notConfiguredText names =
     ''Not configured: set '' @ Join names '' and '' @ '' in /etc/default/ssh-gate, then restart the service''"

subsection \<open>The dialer of an unconfigured service\<close>

definition unconfigured_DialContext :: "string \<Rightarrow> string \<Rightarrow> goerr + nat" where
  "unconfigured_DialContext network addr = Inl (ErrText ''not configured: SSH_HOST and SSH_USER are required'')"

definition unconfigured_Connected :: bool where
  "unconfigured_Connected = False"

definition unconfigured_Status :: tunnelStatus where
  "unconfigured_Status = plain_status stateNotConfigured"

section \<open>Lemmas\<close>

lemma as_hostKeyMismatch_iff: "as_hostKeyMismatch es \<noteq> None \<longleftrightarrow> (\<exists>want got. HostKeyMismatch want got \<in> set es)"
  by (induction es rule: as_hostKeyMismatch.induct) auto

lemma failState_tagged [simp]: "failState (ConnectError st e) = st"
  by (simp add: failState_def)

lemma handshakeState_mismatch: "HostKeyMismatch want got \<in> set (err_chain e) \<Longrightarrow> handshakeState e = stateHostKeyMismatch"
  using as_hostKeyMismatch_iff [of "err_chain e"] by (auto simp: handshakeState_def)

lemma state_distinct [simp]:
  "stateHostKeyMismatch \<noteq> stateConnecting" "stateHostKeyMismatch \<noteq> stateConnected" "stateHostKeyMismatch \<noteq> stateReconnecting"
  "stateHostKeyMismatch \<noteq> stateKeyRejected" "stateHostKeyMismatch \<noteq> stateUnreachable"
  "stateReconnecting \<noteq> stateConnected" "stateConnecting \<noteq> stateConnected" "stateSSHError \<noteq> stateConnected"
  "stateUnreachable \<noteq> stateConnected" "stateHostKeyMismatch \<noteq> stateConnected" "stateKeyRejected \<noteq> stateConnected"
  by (simp_all add: state_defs)

end
