(* ===== verification/Conntrack.thy ===== *)
theory Conntrack
  imports Routing "HOL-Library.Product_Lexorder"
begin

text \<open>
  \<open>conntrack.go\<close>: the tracker of tunneled connections, with its map of active records and its ring
  buffer of finished ones, and the wrapper around a tracked connection.

  The clock is a parameter: \<open>clk n\<close> is the answer to the \<open>n\<close>-th call of \<open>time.Now\<close>, counted by
  \<open>ct_tick\<close>. The wrapped connections that records point to live in the list \<open>tconns\<close>, a pointer is an
  index of it. Every exported operation runs under the tracker's mutex, so operations are atomic
  steps. Ids are the code's \<open>uint64\<close>, byte counters and page arithmetic wrap as \<open>int64\<close>.
\<close>

section \<open>State\<close>

datatype ConnState = StateDialing | StateActive | StateClosed | StateError

record ConnMeta =
  m_Proto :: string
  m_Src :: string
  m_Host :: string
  m_DstIP :: string

record connRecord =
  c_id :: "64 word"
  c_proto :: string
  c_src :: string
  c_host :: string
  c_dstIP :: string
  c_port :: int
  c_status :: ConnState
  startedAt :: time
  closedAt :: time
  bytesUp :: int
  bytesDown :: int
  c_reason :: string
  c_live :: "nat option"

record ConnView =
  v_ID :: "64 word"
  v_Proto :: string
  v_Src :: string
  v_Host :: string
  v_DstIP :: string
  v_Port :: int
  v_Status :: ConnState
  v_StartedAt :: int
  v_DurationMs :: int
  v_BytesUp :: int
  v_BytesDown :: int
  v_Reason :: string

record trackedConn =
  tc_Conn :: conn
  tc_id :: "64 word"
  tc_up :: int
  tc_down :: int
  tc_firstErr :: "goerr option"
  tc_closed :: bool

record ConnTracker =
  active :: "(64 word, connRecord) gomap"
  ring :: "connRecord list"
  ringHead :: nat
  ringCount :: nat
  capacity :: nat
  maxAge :: duration
  nextID :: "64 word"
  tconns :: "trackedConn list"
  ct_tick :: nat

type_synonym clock = "nat \<Rightarrow> time"
type_synonym active_order = "(64 word \<times> connRecord) list \<Rightarrow> (64 word \<times> connRecord) list"

definition ct_Now :: "clock \<Rightarrow> ConnTracker \<Rightarrow> time \<times> ConnTracker" where
  "ct_Now clk t = (clk (ct_tick t), t\<lparr>ct_tick := Suc (ct_tick t)\<rparr>)"

text \<open>The zero value of a record, which fills a fresh ring.\<close>

definition zero_record :: connRecord where
  "zero_record = \<lparr>c_id = 0, c_proto = [], c_src = [], c_host = [], c_dstIP = [], c_port = 0, c_status = StateDialing,
     startedAt = 0, closedAt = 0, bytesUp = 0, bytesDown = 0, c_reason = [], c_live = None\<rparr>"

definition NewConnTracker :: "int \<Rightarrow> duration \<Rightarrow> ConnTracker" where
  "NewConnTracker cap age =
     (let cap = (if cap \<le> 0 then 1000 else cap) in
      \<lparr>active = [], ring = replicate (nat cap) zero_record, ringHead = 0, ringCount = 0, capacity = nat cap, maxAge = age,
       nextID = 0, tconns = [], ct_tick = 0\<rparr>)"

section \<open>The ring\<close>

function pruneRing :: "time \<Rightarrow> ConnTracker \<Rightarrow> ConnTracker" where
  "pruneRing now t =
     (if 0 < ringCount t then
        (if time_Sub now (closedAt (ring t ! ringHead t)) \<le> maxAge t then t
         else pruneRing now (t\<lparr>ringHead := (ringHead t + 1) mod capacity t, ringCount := ringCount t - 1\<rparr>))
      else t)"
  by pat_completeness auto
termination
  by (relation "measure (\<lambda>(now, t). ringCount t)") auto

declare pruneRing.simps [simp del]

definition pushRing :: "clock \<Rightarrow> connRecord \<Rightarrow> ConnTracker \<Rightarrow> ConnTracker" where
  "pushRing clk r t =
     (let (now, t) = ct_Now clk t;
          t = pruneRing now t
      in if ringCount t = capacity t then
           t\<lparr>ringHead := (ringHead t + 1) mod capacity t, ring := (ring t)[ringHead t := r]\<rparr>
         else
           t\<lparr>ringCount := ringCount t + 1, ring := (ring t)[(ringHead t + ringCount t) mod capacity t := r]\<rparr>)"

section \<open>Connections\<close>

definition Begin :: "clock \<Rightarrow> ConnMeta \<Rightarrow> string \<Rightarrow> int \<Rightarrow> ConnTracker \<Rightarrow> 64 word \<times> ConnTracker" where
  "Begin clk meta host port t =
     (let n = nextID t + 1;
          (now, t) = ct_Now clk t;
          r = \<lparr>c_id = n, c_proto = m_Proto meta, c_src = m_Src meta, c_host = host, c_dstIP = m_DstIP meta, c_port = port,
               c_status = StateDialing, startedAt = now, closedAt = 0, bytesUp = 0, bytesDown = 0, c_reason = [], c_live = None\<rparr>
      in (n, t\<lparr>active := AList.update n r (active t), nextID := n\<rparr>))"

text \<open>What \<open>Done\<close> hands back: nothing, the connection itself, or a pointer to its wrapper.\<close>

datatype done_conn = NilConn | PlainConn conn | Tracked nat

definition Done :: "64 word \<Rightarrow> conn option \<Rightarrow> ConnTracker \<Rightarrow> done_conn \<times> ConnTracker" where
  "Done i cn t =
     (case cn of
        None \<Rightarrow> (NilConn, t)
      | Some b \<Rightarrow>
          (let p = length (tconns t);
               tc = \<lparr>tc_Conn = b, tc_id = i, tc_up = 0, tc_down = 0, tc_firstErr = None, tc_closed = False\<rparr>;
               t = t\<lparr>tconns := tconns t @ [tc]\<rparr>
           in case map_of (active t) i of
                Some r \<Rightarrow> (Tracked p, t\<lparr>active := AList.update i (r\<lparr>c_status := StateActive, c_live := Some p\<rparr>) (active t)\<rparr>)
              | None \<Rightarrow> (PlainConn b, t)))"

definition Fail :: "clock \<Rightarrow> 64 word \<Rightarrow> goerr \<Rightarrow> ConnTracker \<Rightarrow> ConnTracker" where
  "Fail clk i err t =
     (case map_of (active t) i of
        None \<Rightarrow> t
      | Some r \<Rightarrow>
          (let t = t\<lparr>active := AList.delete i (active t)\<rparr>;
               (now, t) = ct_Now clk t
           in pushRing clk (r\<lparr>c_status := StateError, c_reason := err_Error err, closedAt := now\<rparr>) t))"

definition finish :: "clock \<Rightarrow> 64 word \<Rightarrow> int \<Rightarrow> int \<Rightarrow> goerr option \<Rightarrow> ConnTracker \<Rightarrow> ConnTracker" where
  "finish clk i up down firstErr t =
     (case map_of (active t) i of
        None \<Rightarrow> t
      | Some r \<Rightarrow>
          (let t = t\<lparr>active := AList.delete i (active t)\<rparr>;
               r = (case firstErr of
                      None \<Rightarrow> r\<lparr>c_status := StateClosed\<rparr>
                    | Some e \<Rightarrow> r\<lparr>c_status := StateError, c_reason := err_Error e\<rparr>);
               (now, t) = ct_Now clk t
           in pushRing clk (r\<lparr>bytesUp := up, bytesDown := down, closedAt := now\<rparr>) t))"

definition stalled :: "time \<Rightarrow> ConnTracker \<Rightarrow> connRecord \<Rightarrow> bool" where
  "stalled now t r \<longleftrightarrow> c_status r = StateDialing \<and> time_Sub now (startedAt r) > maxAge t"

definition drop_one :: "clock \<Rightarrow> time \<Rightarrow> 64 word \<times> connRecord \<Rightarrow> ConnTracker \<Rightarrow> ConnTracker" where
  "drop_one clk now kv t =
     (if stalled now t (snd kv) then
        pushRing clk ((snd kv)\<lparr>c_status := StateError, c_reason := ''dial timeout'', closedAt := now\<rparr>)
          (t\<lparr>active := AList.delete (fst kv) (active t)\<rparr>)
      else t)"

definition dropStalled :: "clock \<Rightarrow> active_order \<Rightarrow> time \<Rightarrow> ConnTracker \<Rightarrow> ConnTracker" where
  "dropStalled clk rng now t = fold (drop_one clk now) (rng (active t)) t"

definition ActiveByProto :: "clock \<Rightarrow> active_order \<Rightarrow> ConnTracker \<Rightarrow> (string, int) gomap \<times> ConnTracker" where
  "ActiveByProto clk rng t =
     (let (now, t) = ct_Now clk t;
          t = dropStalled clk rng now t
      in (fold (\<lambda>r m. AList.update (c_proto r) ((case map_of m (c_proto r) of None \<Rightarrow> 0 | Some n \<Rightarrow> n) + 1) m)
            (map snd (rng (active t))) [], t))"

section \<open>Wrapped connections\<close>

definition isBenignCloseErr :: "goerr option \<Rightarrow> bool" where
  "isBenignCloseErr err = (case err of None \<Rightarrow> True | Some e \<Rightarrow> errors_Is e ErrEOF \<or> errors_Is e ErrClosed)"

definition upd_tconn :: "nat \<Rightarrow> (trackedConn \<Rightarrow> trackedConn) \<Rightarrow> ConnTracker \<Rightarrow> ConnTracker" where
  "upd_tconn p f t = t\<lparr>tconns := (tconns t)[p := f (tconns t ! p)]\<rparr>"

definition note_err :: "goerr option \<Rightarrow> trackedConn \<Rightarrow> trackedConn" where
  "note_err err tc =
     (if \<not> isBenignCloseErr err \<and> tc_firstErr tc = None then tc\<lparr>tc_firstErr := err\<rparr> else tc)"

text \<open>\<open>Read\<close> and \<open>Write\<close> on wrapper \<open>p\<close>, given what the wrapped connection returned.\<close>

definition tc_Read :: "nat \<Rightarrow> int \<times> goerr option \<Rightarrow> ConnTracker \<Rightarrow> (int \<times> goerr option) \<times> ConnTracker" where
  "tc_Read p res t =
     (let (n, err) = res in
      (res, upd_tconn p (\<lambda>tc. note_err err (if n > 0 then tc\<lparr>tc_down := wrap64 (tc_down tc + n)\<rparr> else tc)) t))"

definition tc_Write :: "nat \<Rightarrow> int \<times> goerr option \<Rightarrow> ConnTracker \<Rightarrow> (int \<times> goerr option) \<times> ConnTracker" where
  "tc_Write p res t =
     (let (n, err) = res in
      (res, upd_tconn p (\<lambda>tc. note_err err (if n > 0 then tc\<lparr>tc_up := wrap64 (tc_up tc + n)\<rparr> else tc)) t))"

text \<open>\<open>Close\<close>, given what closing the wrapped connection returned.\<close>

definition tc_Close :: "clock \<Rightarrow> nat \<Rightarrow> goerr option \<Rightarrow> ConnTracker \<Rightarrow> goerr option \<times> ConnTracker" where
  "tc_Close clk p berr t =
     (let tc = tconns t ! p in
      if tc_closed tc then (berr, t)
      else (berr, finish clk (tc_id tc) (tc_up tc) (tc_down tc) (tc_firstErr tc) (upd_tconn p (\<lambda>tc. tc\<lparr>tc_closed := True\<rparr>) t)))"

text \<open>Half-close, given what the wrapped connection returns if it supports it.\<close>

definition tc_CloseRead :: "goerr option option \<Rightarrow> goerr option" where
  "tc_CloseRead base = (case base of Some r \<Rightarrow> r | None \<Rightarrow> None)"

definition tc_CloseWrite :: "goerr option option \<Rightarrow> goerr option" where
  "tc_CloseWrite base = (case base of Some r \<Rightarrow> r | None \<Rightarrow> None)"

definition tc_bytes :: "ConnTracker \<Rightarrow> nat \<Rightarrow> int \<times> int" where
  "tc_bytes t p = (tc_up (tconns t ! p), tc_down (tconns t ! p))"

section \<open>Listing\<close>

definition toView :: "ConnTracker \<Rightarrow> time \<Rightarrow> connRecord \<Rightarrow> ConnView" where
  "toView t now r =
     (let (up, down) =
            (case c_live r of
               Some p \<Rightarrow> if c_status r = StateActive \<or> c_status r = StateDialing then tc_bytes t p else (bytesUp r, bytesDown r)
             | None \<Rightarrow> (bytesUp r, bytesDown r));
          dur = (if c_status r = StateClosed \<or> c_status r = StateError
                 then Milliseconds (time_Sub (closedAt r) (startedAt r)) else Milliseconds (time_Sub now (startedAt r)))
      in \<lparr>v_ID = c_id r, v_Proto = c_proto r, v_Src = c_src r, v_Host = c_host r, v_DstIP = c_dstIP r, v_Port = c_port r,
          v_Status = c_status r, v_StartedAt = time_Unix (startedAt r), v_DurationMs = dur,
          v_BytesUp = up, v_BytesDown = down, v_Reason = c_reason r\<rparr>)"

text \<open>The history tab: the ring from its head.\<close>

definition history :: "ConnTracker \<Rightarrow> connRecord list" where
  "history t = map (\<lambda>i. ring t ! ((ringHead t + i) mod capacity t)) [0..<ringCount t]"

definition query_match :: "string \<Rightarrow> connRecord \<Rightarrow> bool" where
  "query_match q r \<longleftrightarrow>
     Contains_str (ToLower (c_host r)) (ToLower q) \<or> Contains_str (ToLower (c_dstIP r)) (ToLower q) \<or>
     Contains_str (ToLower (c_src r)) (ToLower q)"

text \<open>
  The order of the result: latest start first, then highest id. Ids are distinct, so the order is
  total on the records and the algorithm of \<open>sort.Slice\<close> does not matter.
\<close>

definition rec_key :: "connRecord \<Rightarrow> int \<times> int" where
  "rec_key r = (- startedAt r, - uint (c_id r))"

definition rec_less :: "connRecord \<Rightarrow> connRecord \<Rightarrow> bool" where
  "rec_less a b = (if startedAt a \<noteq> startedAt b then startedAt a > startedAt b else c_id a > c_id b)"

definition ct_select :: "string \<Rightarrow> string \<Rightarrow> connRecord list \<Rightarrow> connRecord list" where
  "ct_select q proto recs =
     (let recs = (if q \<noteq> [] then filter (query_match q) recs else recs);
          recs = (if proto \<noteq> [] then filter (\<lambda>r. c_proto r = proto) recs else recs)
      in sort_key rec_key recs)"

text \<open>One page of a list: the arithmetic of \<open>List\<close> in \<open>int64\<close>, and the slice, which panics out of range.\<close>

definition ct_page :: "'a list \<Rightarrow> int \<Rightarrow> int \<Rightarrow> goerr + 'a list" where
  "ct_page recs page pageSize =
     (let total = int (length recs);
          start = wrap64 (wrap64 (page - 1) * pageSize)
      in if start \<ge> total then Inr []
         else
           (let end0 = wrap64 (start + pageSize);
                stop = (if end0 > total then total else end0)
            in if start < 0 \<or> stop < start then Inl (Panic ''slice bounds out of range'')
               else Inr (take (nat (stop - start)) (drop (nat start) recs))))"

definition ct_List :: "clock \<Rightarrow> active_order \<Rightarrow> string \<Rightarrow> string \<Rightarrow> string \<Rightarrow> int \<Rightarrow> int \<Rightarrow> ConnTracker
    \<Rightarrow> (goerr + ConnView list \<times> int) \<times> ConnTracker" where
  "ct_List clk rng tab q proto page pageSize t =
     (if tab \<noteq> ''active'' \<and> tab \<noteq> ''history'' then
        (Inl (ErrText (''invalid tab '' @ Quote tab @ '' (active|history)'')), t)
      else if page < 1 then (Inl (ErrText ''page must be >= 1''), t)
      else if pageSize < 1 \<or> pageSize > 200 then (Inl (ErrText ''page_size must be in 1..200''), t)
      else
        (let (now, t) = ct_Now clk t;
             t = dropStalled clk rng now (pruneRing now t);
             recs = (if tab = ''active'' then map snd (rng (active t)) else history t);
             recs = ct_select q proto recs
         in case ct_page recs page pageSize of
              Inl e \<Rightarrow> (Inl e, t)
            | Inr rs \<Rightarrow> (Inr (map (toView t now) rs, int (length recs)), t)))"

section \<open>Specification vocabulary\<close>

text \<open>A well-formed ring, when a record has expired, and the bounded list that the ring stands for.\<close>

definition ring_inv :: "ConnTracker \<Rightarrow> bool" where
  "ring_inv t \<longleftrightarrow> 0 < capacity t \<and> length (ring t) = capacity t \<and> ringHead t < capacity t \<and> ringCount t \<le> capacity t"

definition expired :: "time \<Rightarrow> duration \<Rightarrow> connRecord \<Rightarrow> bool" where
  "expired now age r \<longleftrightarrow> time_Sub now (closedAt r) > age"

definition hist_push :: "time \<Rightarrow> duration \<Rightarrow> nat \<Rightarrow> connRecord \<Rightarrow> connRecord list \<Rightarrow> connRecord list" where
  "hist_push now age cap r h =
     (let h = dropWhile (expired now age) h in (if length h = cap then tl h else h) @ [r])"

text \<open>
  The invariant of the tracker: \<open>rec_ok\<close> for an active record under its id, \<open>done_ok\<close> for a record of
  the history, and unique ids.
\<close>

definition rec_ok :: "ConnTracker \<Rightarrow> 64 word \<Rightarrow> connRecord \<Rightarrow> bool" where
  "rec_ok t i r \<longleftrightarrow> c_id r = i \<and> i \<noteq> 0 \<and> i \<le> nextID t \<and>
     (case c_live r of
        None \<Rightarrow> c_status r = StateDialing
      | Some p \<Rightarrow> c_status r = StateActive \<and> p < length (tconns t) \<and> tc_id (tconns t ! p) = i)"

definition done_ok :: "ConnTracker \<Rightarrow> connRecord \<Rightarrow> bool" where
  "done_ok t r \<longleftrightarrow> (c_status r = StateClosed \<or> c_status r = StateError) \<and> c_id r \<le> nextID t \<and> c_id r \<notin> fst ` set (active t)"

definition tracker_inv :: "ConnTracker \<Rightarrow> bool" where
  "tracker_inv t \<longleftrightarrow> ring_inv t \<and> wf_map (active t) \<and> list_all (\<lambda>(i, r). rec_ok t i r) (active t) \<and>
     distinct (map c_id (history t)) \<and> list_all (done_ok t) (history t)"

text \<open>The operations as steps, in any order, and the states they can reach from a fresh tracker.\<close>

inductive tracker_step :: "clock \<Rightarrow> active_order \<Rightarrow> ConnTracker \<Rightarrow> ConnTracker \<Rightarrow> bool" for clk rng where
  step_Begin: "nextID t \<noteq> - 1 \<Longrightarrow> tracker_step clk rng t (snd (Begin clk meta host port t))"
| step_Done: "tracker_step clk rng t (snd (Done i cn t))"
| step_Fail: "tracker_step clk rng t (Fail clk i err t)"
| step_Read: "tracker_step clk rng t (snd (tc_Read p res t))"
| step_Write: "tracker_step clk rng t (snd (tc_Write p res t))"
| step_Close: "tracker_step clk rng t (snd (tc_Close clk p berr t))"
| step_Active: "tracker_step clk rng t (snd (ActiveByProto clk rng t))"
| step_List: "tracker_step clk rng t (snd (ct_List clk rng tab q proto page pageSize t))"

inductive tracker_reachable :: "clock \<Rightarrow> active_order \<Rightarrow> int \<Rightarrow> duration \<Rightarrow> ConnTracker \<Rightarrow> bool" for clk rng cap age where
  reach_New: "tracker_reachable clk rng cap age (NewConnTracker cap age)"
| reach_step: "tracker_reachable clk rng cap age t \<Longrightarrow> tracker_step clk rng t u \<Longrightarrow> tracker_reachable clk rng cap age u"

text \<open>Reads and writes on wrappers in any order, and what they add up to on one of them.\<close>

datatype io = IORead nat int "goerr option" | IOWrite nat int "goerr option"

fun run_io :: "io list \<Rightarrow> ConnTracker \<Rightarrow> ConnTracker" where
  "run_io [] t = t"
| "run_io (IORead p n e # ios) t = run_io ios (snd (tc_Read p (n, e) t))"
| "run_io (IOWrite p n e # ios) t = run_io ios (snd (tc_Write p (n, e) t))"

fun io_up :: "nat \<Rightarrow> io list \<Rightarrow> int" where
  "io_up p [] = 0"
| "io_up p (IORead p' n e # ios) = io_up p ios"
| "io_up p (IOWrite p' n e # ios) = (if p' = p \<and> n > 0 then n else 0) + io_up p ios"

fun io_down :: "nat \<Rightarrow> io list \<Rightarrow> int" where
  "io_down p [] = 0"
| "io_down p (IORead p' n e # ios) = (if p' = p \<and> n > 0 then n else 0) + io_down p ios"
| "io_down p (IOWrite p' n e # ios) = io_down p ios"

fun io_err :: "nat \<Rightarrow> io list \<Rightarrow> goerr option" where
  "io_err p [] = None"
| "io_err p (IORead p' n e # ios) = (if p' = p \<and> \<not> isBenignCloseErr e then e else io_err p ios)"
| "io_err p (IOWrite p' n e # ios) = (if p' = p \<and> \<not> isBenignCloseErr e then e else io_err p ios)"

text \<open>The state a listing sees, and the records of a tab in it.\<close>

definition list_state :: "clock \<Rightarrow> active_order \<Rightarrow> ConnTracker \<Rightarrow> ConnTracker" where
  "list_state clk rng t =
     dropStalled clk rng (clk (ct_tick t)) (pruneRing (clk (ct_tick t)) (t\<lparr>ct_tick := Suc (ct_tick t)\<rparr>))"

definition tab_records :: "active_order \<Rightarrow> string \<Rightarrow> ConnTracker \<Rightarrow> connRecord list" where
  "tab_records rng tab t = (if tab = ''active'' then map snd (rng (active t)) else history t)"

section \<open>Concrete trackers\<close>

definition sample_clock :: clock where "sample_clock n = 1000 * time_Second + int n"

definition sample_meta :: ConnMeta where
  "sample_meta = \<lparr>m_Proto = ''http'', m_Src = ''127.0.0.1:5'', m_Host = ''a.example'', m_DstIP = ''93.184.216.34''\<rparr>"

definition sample_tracker :: ConnTracker where
  "sample_tracker = snd (Done 1 (Some 7) (snd (Begin sample_clock sample_meta ''a.example'' 443 (NewConnTracker 2 time_Minute))))"

definition sample_io :: "io list" where
  "sample_io = [IOWrite 0 10 None, IORead 0 20 (Some ErrEOF), IORead 0 0 (Some (ErrText ''reset''))]"

end
