(* ===== verification/Dialer.thy ===== *)
theory Dialer
  imports Status Utils Conntrack
begin

text \<open>
  \<open>dialer.go\<close>: the SSH dialer. \<open>connectSSH\<close> and the destination dials are functions of the answers of the operating
  system and of the SSH library, which are parameters; the monitor, the keepalive loops and \<open>stop\<close>
  run concurrently and are an interleaving step relation on a shared state.

  An SSH client is identified with the TCP connection it runs on, a natural number. \<open>connectSSH\<close> also yields the
  sequence of socket operations it performed, so that a connection left open by an error path shows.
\<close>

section \<open>Model\<close>

subsection \<open>Known hosts\<close>

datatype read_result = ReadOk string | ReadNotExist goerr | ReadErr goerr

text \<open>\<open>os.ReadFile\<close>: \<open>deny\<close> gives the errors other than a missing file.\<close>

definition os_ReadFile :: "(string \<Rightarrow> goerr option) \<Rightarrow> fs \<Rightarrow> string \<Rightarrow> read_result" where
  "os_ReadFile deny f path =
     (case deny path of
        Some err \<Rightarrow> ReadErr err
      | None \<Rightarrow> (case f path of
                   None \<Rightarrow> ReadNotExist (ErrText (''open '' @ path @ '': no such file or directory''))
                 | Some (data, perm) \<Rightarrow> ReadOk data))"

definition readKnownHostFingerprint :: "(string \<Rightarrow> goerr option) \<Rightarrow> fs \<Rightarrow> string \<Rightarrow> goerr + string" where
  "readKnownHostFingerprint deny f dir =
     (case os_ReadFile deny f (Join_path [dir, sshKnownHostsFile]) of
        ReadNotExist err \<Rightarrow> Inr []
      | ReadErr err \<Rightarrow> Inl (ErrWrap (''read '' @ sshKnownHostsFile @ '': '') err [])
      | ReadOk data \<Rightarrow>
          (let fp = TrimSpace data in
           if fp = [] then Inl (ErrText (sshKnownHostsFile @ '' exists but is empty '' @ [CHR 0xE2, CHR 0x80, CHR 0x94] @ '' delete the file to re-trust the host key''))
           else Inr fp))"

record sshDialerCfg =
  dc_host :: string
  dc_port :: int
  dc_user :: string
  dc_keyPath :: string
  dc_fingerprint :: string
  dc_keepalivePeriod :: duration
  dc_keepaliveInterval :: int
  dc_keepaliveProbes :: int
  dc_dialTimeout :: duration
  dc_handshakeTimeout :: duration

text \<open>\<open>newSSHDialer\<close>: the configuration the monitor starts with; its first status is \<open>stateConnecting\<close>.\<close>

definition newSSHDialer :: "(string \<Rightarrow> goerr option) \<Rightarrow> fs \<Rightarrow> sshDialerCfg \<Rightarrow> goerr + sshDialerCfg \<times> tunnelStatus" where
  "newSSHDialer deny f cfg =
     (case readKnownHostFingerprint deny f (Dir (dc_keyPath cfg)) of
        Inl err \<Rightarrow> Inl err
      | Inr fp \<Rightarrow> Inr (if fp \<noteq> [] then cfg\<lparr>dc_fingerprint := fp\<rparr> else cfg, plain_status stateConnecting))"

subsection \<open>Destination dials\<close>

definition parseDialAddr :: "string \<Rightarrow> string \<times> int" where
  "parseDialAddr addr =
     (case SplitHostPort addr of
        Inl err \<Rightarrow> (addr, 0)
      | Inr (host, portStr) \<Rightarrow> (host, fst (Atoi portStr)))"

text \<open>
  \<open>chan_open timeout network addr\<close> is the channel open of the SSH library, with the deadline \<open>dialTimeout\<close> adds
  to the caller's context, if any.
\<close>

type_synonym chan_open = "duration option \<Rightarrow> string \<Rightarrow> string \<Rightarrow> goerr + conn"

definition ssh_dial :: "chan_open \<Rightarrow> sshDialerCfg \<Rightarrow> nat option \<Rightarrow> string \<Rightarrow> string \<Rightarrow> goerr + conn" where
  "ssh_dial chan_open cfg client network addr =
     (case client of
        None \<Rightarrow> Inl (ErrText ''SSH client not connected'')
      | Some c \<Rightarrow>
          (case chan_open (if dc_dialTimeout cfg > 0 then Some (dc_dialTimeout cfg) else None) network addr of
             Inl err \<Rightarrow> Inl (NewNetworkError ''SSH dial'' addr (Some err))
           | Inr conn \<Rightarrow> Inr conn))"

text \<open>The value \<open>connMetaFromCtx\<close> finds in the context, and the mark of \<open>ctxWithNoTrack\<close>.\<close>

record dial_ctx =
  cx_noTrack :: bool
  cx_meta :: "ConnMeta option"

definition ctxWithNoTrack :: "dial_ctx \<Rightarrow> dial_ctx" where
  "ctxWithNoTrack ctx = ctx\<lparr>cx_noTrack := True\<rparr>"

definition zero_meta :: ConnMeta where
  "zero_meta = \<lparr>m_Proto = [], m_Src = [], m_Host = [], m_DstIP = []\<rparr>"

definition dial_meta :: "dial_ctx \<Rightarrow> string \<Rightarrow> ConnMeta \<times> string" where
  "dial_meta ctx dialHost =
     (case cx_meta ctx of
        None \<Rightarrow> (zero_meta, dialHost)
      | Some meta \<Rightarrow>
          (case ParseAddr dialHost of Some ip \<Rightarrow> meta\<lparr>m_DstIP := addr_String ip\<rparr> | None \<Rightarrow> meta,
           if m_Host meta \<noteq> [] then m_Host meta else dialHost))"

text \<open>\<open>during\<close> is what other goroutines do to the tracker while the dial is in flight.\<close>

definition trackDial ::
    "chan_open \<Rightarrow> clock \<Rightarrow> (ConnTracker \<Rightarrow> ConnTracker) \<Rightarrow> sshDialerCfg \<Rightarrow> nat option \<Rightarrow> dial_ctx \<Rightarrow> string \<Rightarrow> string
       \<Rightarrow> ConnTracker option \<Rightarrow> (goerr + done_conn) \<times> ConnTracker option" where
  "trackDial chan_open clk during cfg client ctx network addr tracker =
     (if cx_noTrack ctx then (map_sum id PlainConn (ssh_dial chan_open cfg client network addr), tracker)
      else case tracker of
        None \<Rightarrow> (map_sum id PlainConn (ssh_dial chan_open cfg client network addr), None)
      | Some tr \<Rightarrow>
          (let (dialHost, port) = parseDialAddr addr;
               (meta, host) = dial_meta ctx dialHost;
               (i, tr) = Begin clk meta host port tr;
               tr = during tr
           in case ssh_dial chan_open cfg client network addr of
                Inl err \<Rightarrow> (Inl err, Some (Fail clk i err tr))
              | Inr conn \<Rightarrow> (case Done i (Some conn) tr of (c, tr) \<Rightarrow> (Inr c, Some tr))))"

text \<open>The method of the \<open>dialer\<close> interface, and the dial of the HTTP clients that \<open>tunnelHTTPClient\<close> makes.\<close>

definition DialContext ::
    "chan_open \<Rightarrow> clock \<Rightarrow> (ConnTracker \<Rightarrow> ConnTracker) \<Rightarrow> sshDialerCfg \<Rightarrow> nat option \<Rightarrow> dial_ctx \<Rightarrow> string \<Rightarrow> string
       \<Rightarrow> ConnTracker option \<Rightarrow> (goerr + done_conn) \<times> ConnTracker option" where
  "DialContext chan_open clk during cfg client ctx network addr tracker = trackDial chan_open clk during cfg client ctx network addr tracker"

definition tunnelHTTPClient_DialContext ::
    "chan_open \<Rightarrow> clock \<Rightarrow> (ConnTracker \<Rightarrow> ConnTracker) \<Rightarrow> sshDialerCfg \<Rightarrow> nat option \<Rightarrow> dial_ctx \<Rightarrow> string \<Rightarrow> string
       \<Rightarrow> ConnTracker option \<Rightarrow> (goerr + done_conn) \<times> ConnTracker option" where
  "tunnelHTTPClient_DialContext chan_open clk during cfg client ctx network addr tracker =
     DialContext chan_open clk during cfg client (ctxWithNoTrack ctx) network addr tracker"

subsection \<open>connectSSH\<close>

datatype ssh_event =
    OpenRaw nat
  | SetKeepAlive bool
  | SetKeepAlivePeriod duration
  | SetKeepIntvl int
  | SetKeepCnt int
  | CloseRaw nat
  | CloseClient nat

record probe_env =
  pe_darwin :: bool
  pe_control :: "goerr option"
  pe_intvl :: "goerr option"
  pe_cnt :: "goerr option"

definition keepaliveIntervalUnit :: "probe_env \<Rightarrow> duration" where
  "keepaliveIntervalUnit pe = (if pe_darwin pe then time_Millisecond else time_Second)"

text \<open>When \<open>raw.Control\<close> fails it has not run its argument.\<close>

definition setKeepaliveProbeOpts :: "probe_env \<Rightarrow> int \<Rightarrow> int \<Rightarrow> goerr option \<times> ssh_event list" where
  "setKeepaliveProbeOpts pe intervalSecs probes =
     (if intervalSecs = 0 \<and> probes = 0 then (None, [])
      else case pe_control pe of
             Some err \<Rightarrow> (Some err, [])
           | None \<Rightarrow>
               (let e1 = (if intervalSecs > 0 then pe_intvl pe else None);
                    e2 = (if probes > 0 then pe_cnt pe else None)
                in (if e1 \<noteq> None then e1 else e2,
                    (if intervalSecs > 0 then [SetKeepIntvl (quot (wrap64 (intervalSecs * time_Second)) (keepaliveIntervalUnit pe))] else [])
                    @ (if probes > 0 then [SetKeepCnt probes] else []))))"

text \<open>
  The answers one connect attempt gets. \<open>se_dial\<close> and \<open>se_deadline\<close> get the
  handshake timeout. \<open>se_hs callback\<close> is \<open>ssh.NewClientConn\<close>: its error, and the host keys it
  presented to the host key callback, in order. \<open>se_hash\<close> is the base64 text of the SHA-256 of a marshalled key.
\<close>

record ssh_env =
  se_deny :: "string \<Rightarrow> goerr option"
  se_parse :: "string \<Rightarrow> goerr option"
  se_dial :: "duration \<Rightarrow> string \<Rightarrow> goerr + nat"
  se_tcp :: bool
  se_probe :: probe_env
  se_deadline :: "duration \<Rightarrow> goerr option"
  se_hs :: "(string \<Rightarrow> goerr option) \<Rightarrow> goerr option \<times> string list"
  se_clear :: "goerr option"
  se_fs :: fs_env
  se_hash :: "string \<Rightarrow> string"

definition handshake_timeout :: "sshDialerCfg \<Rightarrow> duration" where
  "handshake_timeout cfg = (if dc_handshakeTimeout cfg \<le> 0 then 10 * time_Second else dc_handshakeTimeout cfg)"

definition sshFingerprint :: "ssh_env \<Rightarrow> string \<Rightarrow> string" where
  "sshFingerprint e key = ''SHA256:'' @ se_hash e key"

definition hostKeyCallback :: "ssh_env \<Rightarrow> sshDialerCfg \<Rightarrow> string \<Rightarrow> goerr option" where
  "hostKeyCallback e cfg key =
     (if dc_fingerprint cfg \<noteq> [] \<and> sshFingerprint e key \<noteq> dc_fingerprint cfg
      then Some (HostKeyMismatch (dc_fingerprint cfg) (sshFingerprint e key)) else None)"

definition keepalive_opts :: "ssh_env \<Rightarrow> sshDialerCfg \<Rightarrow> ssh_event list" where
  "keepalive_opts e cfg =
     (if se_tcp e then
        (if dc_keepalivePeriod cfg > 0
         then [SetKeepAlive True, SetKeepAlivePeriod (dc_keepalivePeriod cfg)]
              @ snd (setKeepaliveProbeOpts (se_probe e) (dc_keepaliveInterval cfg) (dc_keepaliveProbes cfg))
         else [SetKeepAlive False])
      else [])"

text \<open>The end of \<open>connectSSH\<close>, on an established connection \<open>raw\<close>: pin the host key on first use.\<close>

definition pin_host_key :: "ssh_env \<Rightarrow> sshDialerCfg \<Rightarrow> nat \<Rightarrow> string list \<Rightarrow> fs \<Rightarrow> (goerr + nat \<times> string) \<times> fs \<times> ssh_event list" where
  "pin_host_key e cfg raw keys f =
     (if keys = [] then (Inr (raw, []), f, [])
      else let fp = sshFingerprint e (last keys) in
           if dc_fingerprint cfg = [] then
             (case writeFileAtomic (se_fs e) (known_hosts_path (dc_keyPath cfg)) fp 384 f of
                (Some err, states) \<Rightarrow>
                  (Inl (ErrWrap ''save SSH host key fingerprint: '' err []), last states, [CloseClient raw])
              | (None, states) \<Rightarrow> (Inr (raw, fp), last states, []))
           else (Inr (raw, fp), f, []))"

definition connectSSH :: "ssh_env \<Rightarrow> sshDialerCfg \<Rightarrow> fs \<Rightarrow> (goerr + nat \<times> string) \<times> fs \<times> ssh_event list" where
  "connectSSH e cfg f =
     (case os_ReadFile (se_deny e) f (dc_keyPath cfg) of
        ReadNotExist err \<Rightarrow> (Inl (ErrWrap ''read SSH key: '' err []), f, [])
      | ReadErr err \<Rightarrow> (Inl (ErrWrap ''read SSH key: '' err []), f, [])
      | ReadOk keyData \<Rightarrow>
          (case se_parse e keyData of
             Some err \<Rightarrow> (Inl (ErrWrap ''parse SSH key: '' err []), f, [])
           | None \<Rightarrow>
               (let addr = JoinHostPort (dc_host cfg) (Itoa (dc_port cfg)) in
                case se_dial e (handshake_timeout cfg) addr of
                  Inl err \<Rightarrow> (Inl (ConnectError stateUnreachable (ErrWrap (''SSH dial to '' @ addr @ '': '') err [])), f, [])
                | Inr raw \<Rightarrow>
                    (let opened = OpenRaw raw # keepalive_opts e cfg in
                     case se_deadline e (handshake_timeout cfg) of
                       Some err \<Rightarrow> (Inl (ErrWrap (''SSH handshake deadline to '' @ addr @ '': '') err []), f, opened @ [CloseRaw raw])
                     | None \<Rightarrow>
                         (case se_hs e (hostKeyCallback e cfg) of
                            (Some err, keys) \<Rightarrow>
                              (Inl (ConnectError (handshakeState err) (ErrWrap (''SSH handshake to '' @ addr @ '': '') err [])), f,
                               opened @ [CloseRaw raw])
                          | (None, keys) \<Rightarrow>
                              (case se_clear e of
                                 Some err \<Rightarrow>
                                   (Inl (ErrWrap (''clear SSH handshake deadline on '' @ addr @ '': '') err []), f, opened @ [CloseRaw raw])
                               | None \<Rightarrow>
                                   (case pin_host_key e cfg raw keys f of (r, f', evs) \<Rightarrow> (r, f', opened @ evs))))))))"

subsection \<open>The reconnect delay\<close>

text \<open>\<open>baseDelay << uint(shift)\<close>: a negative shift is a huge unsigned one, which leaves no bit.\<close>

definition reconnectDelay :: "int \<Rightarrow> duration" where
  "reconnectDelay attempt =
     (let shift = (if attempt > 6 then 6 else attempt);
          delay = (if shift < 0 then 0 else wrap64 (time_Second * 2 ^ nat shift))
      in if delay > 60 * time_Second then 60 * time_Second else delay)"

subsection \<open>The monitor, the keepalive loops and stop\<close>

text \<open>
  Where the monitor is: at the top of its loop, in \<open>client.Wait\<close>, after the loss of the client, in the
  sleep, in \<open>connect\<close>, before the check of \<open>done\<close> that follows it, after that check, after publishing the client, or returned.
\<close>

datatype monitor_pc =
    MTop | MWait nat | MLost | MSleep | MConnect | MCheck nat string | MPublish nat string | MAnnounce nat string | MReturned

text \<open>Where a call of \<open>stop\<close> is: not called, after \<open>done.Store\<close>, after it read the client, returned.\<close>

datatype stop_pc = SIdle | SStored | SRead "nat option" | SReturned

record dialer_state =
  ds_client :: "nat option"
  ds_done :: bool
  ds_status :: tunnelStatus
  ds_pc :: monitor_pc
  ds_attempt :: int
  ds_delay :: duration
  ds_pinned :: string
  ds_stop :: stop_pc
  ds_live :: "nat set"
  ds_keepalives :: "nat list"
  ds_trusted :: "string list"

definition new_dialer_state :: "string \<Rightarrow> dialer_state" where
  "new_dialer_state fp =
     \<lparr>ds_client = None, ds_done = False, ds_status = plain_status stateConnecting, ds_pc = MTop, ds_attempt = 0, ds_delay = 0,
      ds_pinned = fp, ds_stop = SIdle, ds_live = {}, ds_keepalives = [], ds_trusted = []\<rparr>"

definition Connected :: "dialer_state \<Rightarrow> bool" where
  "Connected d \<longleftrightarrow> ds_client d \<noteq> None"

definition sshDialer_Status :: "dialer_state \<Rightarrow> tunnelStatus" where
  "sshDialer_Status d = ds_status d"

definition setStatus :: "tunnelStatus \<Rightarrow> dialer_state \<Rightarrow> dialer_state" where
  "setStatus st d = d\<lparr>ds_status := st\<rparr>"

definition close_client :: "nat \<Rightarrow> dialer_state \<Rightarrow> dialer_state" where
  "close_client c d = d\<lparr>ds_live := ds_live d - {c}\<rparr>"

text \<open>The steps of \<open>monitor\<close>, one per stretch of code between two points where another goroutine may interfere.\<close>

definition monitor_top :: "dialer_state \<Rightarrow> dialer_state" where
  "monitor_top d = d\<lparr>ds_pc := (case ds_client d of Some c \<Rightarrow> MWait c | None \<Rightarrow> MSleep)\<rparr>"

definition monitor_wait :: "dialer_state \<Rightarrow> dialer_state" where
  "monitor_wait d = (if ds_done d then d\<lparr>ds_pc := MReturned\<rparr> else d\<lparr>ds_client := None, ds_pc := MLost\<rparr>)"

definition monitor_lost :: "dialer_state \<Rightarrow> dialer_state" where
  "monitor_lost d = (setStatus (plain_status stateReconnecting) d)\<lparr>ds_pc := MSleep\<rparr>"

definition monitor_sleep :: "dialer_state \<Rightarrow> dialer_state" where
  "monitor_sleep d = d\<lparr>ds_pc := (if ds_done d then MReturned else MConnect)\<rparr>"

definition monitor_failed :: "goerr \<Rightarrow> int \<Rightarrow> dialer_state \<Rightarrow> dialer_state" where
  "monitor_failed err jitter d =
     (let attempt = ds_attempt d + 1;
          delay = reconnectDelay attempt + jitter * time_Millisecond
      in setStatus \<lparr>ts_State = failState err, ts_Err = Some err, ts_Attempt = attempt, ts_Retry = delay\<rparr>
           (d\<lparr>ds_attempt := attempt, ds_delay := delay, ds_pc := MTop\<rparr>))"

definition monitor_connected :: "nat \<Rightarrow> string \<Rightarrow> dialer_state \<Rightarrow> dialer_state" where
  "monitor_connected c fp d = d\<lparr>ds_live := insert c (ds_live d), ds_pc := MCheck c fp\<rparr>"

definition monitor_check :: "nat \<Rightarrow> string \<Rightarrow> dialer_state \<Rightarrow> dialer_state" where
  "monitor_check c fp d =
     (if ds_done d then (close_client c d)\<lparr>ds_pc := MReturned\<rparr> else d\<lparr>ds_pc := MPublish c fp\<rparr>)"

definition monitor_publish :: "nat \<Rightarrow> string \<Rightarrow> dialer_state \<Rightarrow> dialer_state" where
  "monitor_publish c fp d =
     (let old = ds_client d;
          d = d\<lparr>ds_client := Some c, ds_pc := MAnnounce c fp\<rparr>
      in case old of Some o' \<Rightarrow> close_client o' d | None \<Rightarrow> d)"

definition monitor_announce :: "sshDialerCfg \<Rightarrow> nat \<Rightarrow> string \<Rightarrow> dialer_state \<Rightarrow> dialer_state" where
  "monitor_announce cfg c fp d =
     (let d = (if dc_keepalivePeriod cfg > 0 then d\<lparr>ds_keepalives := c # ds_keepalives d\<rparr> else d);
          d = (if ds_pinned d = [] then d\<lparr>ds_pinned := fp\<rparr> else d)
      in setStatus (plain_status stateConnected)
           (d\<lparr>ds_attempt := 0, ds_delay := 0, ds_pc := MTop, ds_trusted := ds_trusted d @ [fp]\<rparr>))"

text \<open>
  One tick of the keepalive loop of client \<open>c\<close>; \<open>answered\<close> tells whether a reply without error came within the
  period. The loop retires when its client was replaced or the dialer stops; the flag tells whether it goes on.
\<close>

definition keepalive_tick :: "nat \<Rightarrow> bool \<Rightarrow> dialer_state \<Rightarrow> dialer_state \<times> bool" where
  "keepalive_tick c answered d =
     (if ds_client d \<noteq> Some c \<or> ds_done d then (d, False)
      else if answered then (d, True)
      else (close_client c d, False))"

definition stop_store :: "dialer_state \<Rightarrow> dialer_state" where
  "stop_store d = d\<lparr>ds_done := True, ds_stop := SStored\<rparr>"

definition stop_read :: "dialer_state \<Rightarrow> dialer_state" where
  "stop_read d = d\<lparr>ds_stop := SRead (ds_client d)\<rparr>"

definition stop_close :: "nat option \<Rightarrow> dialer_state \<Rightarrow> dialer_state" where
  "stop_close c d = (case c of Some c \<Rightarrow> (close_client c d)\<lparr>ds_stop := SReturned\<rparr> | None \<Rightarrow> d\<lparr>ds_stop := SReturned\<rparr>)"

text \<open>
  The interleaving. \<open>connect fp r\<close> holds when \<open>r\<close> is a possible result of the connect function for the
  pinned fingerprint \<open>fp\<close>; a new client is a connection that is not live yet. \<open>client.Wait\<close> returns once its client is no
  longer live, which a close or the network causes.
\<close>

inductive dialer_step :: "sshDialerCfg \<Rightarrow> (string \<Rightarrow> goerr + nat \<times> string \<Rightarrow> bool) \<Rightarrow> dialer_state \<Rightarrow> dialer_state \<Rightarrow> bool"
  for cfg connect where
  top: "ds_pc d = MTop \<Longrightarrow> dialer_step cfg connect d (monitor_top d)"
| wait: "ds_pc d = MWait c \<Longrightarrow> c \<notin> ds_live d \<Longrightarrow> dialer_step cfg connect d (monitor_wait d)"
| lost: "ds_pc d = MLost \<Longrightarrow> dialer_step cfg connect d (monitor_lost d)"
| slept: "ds_pc d = MSleep \<Longrightarrow> dialer_step cfg connect d (monitor_sleep d)"
| failed: "ds_pc d = MConnect \<Longrightarrow> connect (ds_pinned d) (Inl err) \<Longrightarrow> 0 \<le> jitter \<Longrightarrow> jitter < 500 \<Longrightarrow>
    dialer_step cfg connect d (monitor_failed err jitter d)"
| connected: "ds_pc d = MConnect \<Longrightarrow> connect (ds_pinned d) (Inr (c, fp)) \<Longrightarrow> c \<notin> ds_live d \<Longrightarrow>
    dialer_step cfg connect d (monitor_connected c fp d)"
| check: "ds_pc d = MCheck c fp \<Longrightarrow> dialer_step cfg connect d (monitor_check c fp d)"
| publish: "ds_pc d = MPublish c fp \<Longrightarrow> dialer_step cfg connect d (monitor_publish c fp d)"
| announce: "ds_pc d = MAnnounce c fp \<Longrightarrow> dialer_step cfg connect d (monitor_announce cfg c fp d)"
| keepalive: "c \<in> set (ds_keepalives d) \<Longrightarrow> keepalive_tick c answered d = (d', again) \<Longrightarrow>
    dialer_step cfg connect d (if again then d' else d'\<lparr>ds_keepalives := remove1 c (ds_keepalives d')\<rparr>)"
| died: "dialer_step cfg connect d (close_client c d)"
| stop1: "ds_stop d = SIdle \<Longrightarrow> dialer_step cfg connect d (stop_store d)"
| stop2: "ds_stop d = SStored \<Longrightarrow> dialer_step cfg connect d (stop_read d)"
| stop3: "ds_stop d = SRead c \<Longrightarrow> dialer_step cfg connect d (stop_close c d)"

inductive dialer_reachable :: "sshDialerCfg \<Rightarrow> (string \<Rightarrow> goerr + nat \<times> string \<Rightarrow> bool) \<Rightarrow> dialer_state \<Rightarrow> bool"
  for cfg connect where
  start: "dialer_reachable cfg connect (new_dialer_state (dc_fingerprint cfg))"
| reach: "dialer_reachable cfg connect d \<Longrightarrow> dialer_step cfg connect d d' \<Longrightarrow> dialer_reachable cfg connect d'"

inductive_cases dialer_stepE: "dialer_step cfg connect d d'"

section \<open>Specification\<close>

text \<open>
  What the program relies on in \<open>ssh.NewClientConn\<close>: a handshake that succeeds has presented at least one host key to the
  callback and the callback accepted every key presented; a key the callback refuses makes the handshake fail with an error that
  wraps the callback's.
\<close>

definition hs_contract :: "((string \<Rightarrow> goerr option) \<Rightarrow> goerr option \<times> string list) \<Rightarrow> bool" where
  "hs_contract hs \<longleftrightarrow>
     (\<forall>cb. (fst (hs cb) = None \<longrightarrow> snd (hs cb) \<noteq> [] \<and> (\<forall>k \<in> set (snd (hs cb)). cb k = None))
         \<and> (\<forall>k e. k \<in> set (snd (hs cb)) \<and> cb k = Some e \<longrightarrow> (\<exists>err. fst (hs cb) = Some err \<and> e \<in> set (err_chain err))))"

text \<open>Socket events: what was opened and not closed.\<close>

fun left_open :: "ssh_event list \<Rightarrow> nat set" where
  "left_open [] = {}"
| "left_open (ev # evs) =
     (case ev of OpenRaw n \<Rightarrow> (if CloseRaw n \<in> set evs \<or> CloseClient n \<in> set evs then left_open evs else insert n (left_open evs))
      | _ \<Rightarrow> left_open evs)"

text \<open>What \<open>connectSSH\<close> can return for a fingerprint, in any environment whose SSH library keeps its contract.\<close>

definition connectSSH_result :: "sshDialerCfg \<Rightarrow> string \<Rightarrow> goerr + nat \<times> string \<Rightarrow> bool" where
  "connectSSH_result cfg fp r \<longleftrightarrow>
     (\<exists>e f. hs_contract (se_hs e) \<and> fst (connectSSH e (cfg\<lparr>dc_fingerprint := fp\<rparr>) f) = r)"

definition no_space :: "string \<Rightarrow> bool" where
  "no_space s \<longleftrightarrow> list_all (\<lambda>c. \<not> is_space c) s"

text \<open>A concrete server, with its host key, that answers every handshake.\<close>

definition server_hs :: "string \<Rightarrow> (string \<Rightarrow> goerr option) \<Rightarrow> goerr option \<times> string list" where
  "server_hs key cb = (case cb key of Some e \<Rightarrow> (Some (ErrWrap ''ssh: handshake failed: '' e []), [key]) | None \<Rightarrow> (None, [key]))"

definition sample_ssh_env :: "string \<Rightarrow> ssh_env" where
  "sample_ssh_env key =
     \<lparr>se_deny = (\<lambda>_. None), se_parse = (\<lambda>_. None), se_dial = (\<lambda>_ _. Inr 1), se_tcp = True,
      se_probe = \<lparr>pe_darwin = False, pe_control = None, pe_intvl = None, pe_cnt = None\<rparr>, se_deadline = (\<lambda>_. None),
      se_hs = server_hs key, se_clear = None, se_fs = disk_ok, se_hash = (\<lambda>k. ''hash-'' @ filter (\<lambda>c. \<not> is_space c) k)\<rparr>"

definition sample_ssh_cfg :: sshDialerCfg where
  "sample_ssh_cfg =
     \<lparr>dc_host = ''vps.example'', dc_port = 22, dc_user = ''tunnel'', dc_keyPath = ''/data/id_ed25519'', dc_fingerprint = [],
      dc_keepalivePeriod = 10 * time_Second, dc_keepaliveInterval = 1, dc_keepaliveProbes = 5,
      dc_dialTimeout = 30 * time_Second, dc_handshakeTimeout = 0\<rparr>"

definition sample_fs :: fs where
  "sample_fs = Map.empty(''/data/id_ed25519'' \<mapsto> (''key'', 384))"

text \<open>The monitor has checked that the dialer runs on and is about to publish client 1.\<close>

definition about_to_publish :: dialer_state where
  "about_to_publish = monitor_check 1 ''SHA256:hash-k1'' (monitor_connected 1 ''SHA256:hash-k1'' (monitor_sleep (monitor_top (new_dialer_state []))))"

definition serving :: dialer_state where
  "serving = monitor_top (monitor_announce sample_ssh_cfg 1 ''SHA256:hash-k1'' (monitor_publish 1 ''SHA256:hash-k1'' about_to_publish))"

section \<open>Invariant of the monitor\<close>

text \<open>
  The host keys of all published clients are the pinned one; a key that is about to be announced is not empty and is the pinned one,
  if any. The delay is zero after a success and between 2 and 60.5 seconds after a failure. At most one client is live: the published one, or the one the
  monitor is about to publish. A published client the monitor waits on is reported as connected.
\<close>

definition key_inv :: "dialer_state \<Rightarrow> bool" where
  "key_inv d \<longleftrightarrow>
     (\<forall>fp \<in> set (ds_trusted d). fp = ds_pinned d) \<and> (ds_trusted d \<noteq> [] \<longrightarrow> ds_pinned d \<noteq> []) \<and>
     (\<forall>c fp. ds_pc d \<in> {MCheck c fp, MPublish c fp, MAnnounce c fp} \<longrightarrow> fp \<noteq> [] \<and> (ds_pinned d \<noteq> [] \<longrightarrow> fp = ds_pinned d))"

definition delay_inv :: "dialer_state \<Rightarrow> bool" where
  "delay_inv d \<longleftrightarrow> 0 \<le> ds_attempt d \<and>
     (if ds_attempt d = 0 then ds_delay d = 0
      else 2 * time_Second \<le> ds_delay d \<and> ds_delay d < 60 * time_Second + 500 * time_Millisecond)"

definition client_inv :: "dialer_state \<Rightarrow> bool" where
  "client_inv d =
     (case ds_pc d of
        MTop \<Rightarrow> ds_live d \<subseteq> set_option (ds_client d) \<and> (ds_client d \<noteq> None \<longrightarrow> ds_status d = plain_status stateConnected)
      | MWait c \<Rightarrow> ds_client d = Some c \<and> ds_live d \<subseteq> {c} \<and> ds_status d = plain_status stateConnected
      | MLost \<Rightarrow> ds_client d = None \<and> ds_live d = {}
      | MSleep \<Rightarrow> ds_client d = None \<and> ds_live d = {}
      | MConnect \<Rightarrow> ds_client d = None \<and> ds_live d = {}
      | MCheck c fp \<Rightarrow> ds_client d = None \<and> ds_live d \<subseteq> {c}
      | MPublish c fp \<Rightarrow> ds_client d = None \<and> ds_live d \<subseteq> {c}
      | MAnnounce c fp \<Rightarrow> ds_client d = Some c \<and> ds_live d \<subseteq> {c}
      | MReturned \<Rightarrow> ds_done d \<and> ds_live d = {})"

end
