(* ===== verification/Keys.thy ===== *)
theory Keys
  imports Dialer
begin

text \<open>
  \<open>keys.go\<close>: the SSH key pair of the service. Key generation and the key formats of the SSH library are parameters
  (\<open>key_env\<close>); a private key is the text that identifies it. \<open>EnsureSSHKeyPair\<close> yields its result and the file systems
  it goes through, the last one being the one it leaves.
\<close>

section \<open>Model\<close>

definition sshKeyFile :: string where
  "sshKeyFile = ''ssh_key''"

definition firstRunDoneFile :: string where
  "firstRunDoneFile = ''.first_run_done''"

record key_env =
  ke_deny :: "string \<Rightarrow> goerr option"
  ke_parse :: "string \<Rightarrow> goerr + string"
  ke_generate :: "goerr + string"
  ke_marshal :: "string \<Rightarrow> goerr + string"
  ke_signer :: "string \<Rightarrow> goerr + string"
  ke_authorized :: "string \<Rightarrow> string"
  ke_fs_priv :: fs_env
  ke_fs_pub :: fs_env

definition formatPublicKey :: "key_env \<Rightarrow> string \<Rightarrow> string" where
  "formatPublicKey e key = TrimSuffix (ke_authorized e key) [CHR 0x0A] @ '' ssh-gate''"

text \<open>The signer of a key that does not exist yet, with the file systems of writing it.\<close>

definition generate_key :: "key_env \<Rightarrow> string \<Rightarrow> fs \<Rightarrow> (goerr + string) \<times> fs list" where
  "generate_key e privPath f =
     (case ke_generate e of
        Inl err \<Rightarrow> (Inl (ErrWrap ''generate ed25519 key: '' err []), [f])
      | Inr priv \<Rightarrow>
          (case ke_marshal e priv of
             Inl err \<Rightarrow> (Inl (ErrWrap ''marshal private key: '' err []), [f])
           | Inr pem \<Rightarrow>
               (case writeFileAtomic (ke_fs_priv e) privPath pem 384 f of
                  (Some err, states) \<Rightarrow> (Inl (ErrWrap ''write private key: '' err []), f # states)
                | (None, states) \<Rightarrow>
                    (case ke_signer e priv of
                       Inl err \<Rightarrow> (Inl (ErrWrap ''create signer: '' err []), f # states)
                     | Inr pk \<Rightarrow> (Inr pk, f # states)))))"

definition privPath_of :: "string \<Rightarrow> string" where
  "privPath_of dataDir = Join_path [dataDir, sshKeyFile]"

definition pubPath_of :: "string \<Rightarrow> string" where
  "pubPath_of dataDir = privPath_of dataDir @ ''.pub''"

definition load_signer :: "key_env \<Rightarrow> string \<Rightarrow> fs \<Rightarrow> (goerr + string) \<times> fs list" where
  "load_signer e privPath f =
     (case os_ReadFile (ke_deny e) f privPath of
        ReadErr err \<Rightarrow>
          (Inl (ErrWrap (''read SSH key '' @ privPath @ '': '') err
             '' (check the file owner; a new key would not match authorized_keys on the server)''), [f])
      | ReadOk privData \<Rightarrow>
          (case ke_parse e privData of
             Inl err \<Rightarrow> (Inl (ErrWrap (''parse existing SSH key '' @ privPath @ '': '') err []), [f])
           | Inr pk \<Rightarrow> (Inr pk, [f]))
      | ReadNotExist err \<Rightarrow> generate_key e privPath f)"

definition EnsureSSHKeyPair :: "key_env \<Rightarrow> string \<Rightarrow> fs \<Rightarrow> (goerr + string) \<times> fs list" where
  "EnsureSSHKeyPair e dataDir f =
     (case load_signer e (privPath_of dataDir) f of
        (Inl err, states) \<Rightarrow> (Inl err, states)
      | (Inr pk, states) \<Rightarrow>
          (let pubKey = formatPublicKey e pk; f1 = last states in
           if os_ReadFile (ke_deny e) f1 (pubPath_of dataDir) = ReadOk pubKey then (Inr pubKey, states)
           else case writeFileAtomic (ke_fs_pub e) (pubPath_of dataDir) pubKey 420 f1 of
                  (Some err, states') \<Rightarrow> (Inl (ErrWrap ''write public key: '' err []), states @ states')
                | (None, states') \<Rightarrow> (Inr pubKey, states @ states')))"

section \<open>Specification\<close>

text \<open>\<open>os.CreateTemp\<close> picks names that are not in use.\<close>

definition fresh_temps :: "key_env \<Rightarrow> string \<Rightarrow> fs \<Rightarrow> bool" where
  "fresh_temps e dataDir f \<longleftrightarrow>
     (\<forall>tmp. temp_file (ke_fs_priv e) (privPath_of dataDir) = Inr tmp \<or> temp_file (ke_fs_pub e) (pubPath_of dataDir) = Inr tmp
        \<longrightarrow> f tmp = None \<and> tmp \<noteq> privPath_of dataDir \<and> tmp \<noteq> pubPath_of dataDir)"

text \<open>What the SSH library writes for a private key it reads back as that key.\<close>

definition pem_roundtrip :: "key_env \<Rightarrow> bool" where
  "pem_roundtrip e \<longleftrightarrow>
     (case ke_generate e of
        Inl err \<Rightarrow> True
      | Inr priv \<Rightarrow> (case ke_marshal e priv of Inl err \<Rightarrow> True | Inr pem \<Rightarrow> isl (ke_signer e priv) \<or> ke_parse e pem = ke_signer e priv))"

definition sample_key_env :: key_env where
  "sample_key_env = \<lparr>ke_deny = \<lambda>_. None, ke_parse = \<lambda>pem. if pem = ''PEM k'' then Inr ''pub k'' else Inl (ErrText ''ssh: no key found''),
     ke_generate = Inr ''k'', ke_marshal = \<lambda>k. Inr (''PEM '' @ k), ke_signer = \<lambda>k. Inr (''pub '' @ k),
     ke_authorized = \<lambda>k. ''ssh-ed25519 '' @ k @ [CHR 0x0A], ke_fs_priv = disk_ok, ke_fs_pub = disk_ok\<rparr>"

section \<open>Lemmas\<close>

lemma pub_neq_priv [simp]: "pubPath_of d \<noteq> privPath_of d" "privPath_of d \<noteq> pubPath_of d"
  by (simp_all add: pubPath_of_def)

lemma generate_key_final:
  assumes "fresh_temps e d f" and "generate_key e (privPath_of d) f = (Inr pk, states)"
  shows "\<exists>priv pem. ke_generate e = Inr priv \<and> ke_marshal e priv = Inr pem \<and> ke_signer e priv = Inr pk
    \<and> last states = f(privPath_of d \<mapsto> (pem, 384))"
proof -
  obtain priv pem st where g: "ke_generate e = Inr priv" "ke_marshal e priv = Inr pem" "ke_signer e priv = Inr pk"
    and w: "writeFileAtomic (ke_fs_priv e) (privPath_of d) pem 384 f = (None, st)" and s: "states = f # st"
    using assms(2) by (auto simp: generate_key_def split: sum.splits prod.splits option.splits)
  have "last st = f(privPath_of d \<mapsto> (pem, 384))"
    using writeFileAtomic_final [OF _ w] assms(1) by (auto simp: fresh_temps_def)
  moreover have "st \<noteq> []" using w by (auto simp: writeFileAtomic_def Let_def split: sum.splits option.splits)
  ultimately show ?thesis using g s by simp
qed

lemma load_signer_existing:
  assumes "ke_deny e (privPath_of d) \<noteq> None \<or> f (privPath_of d) \<noteq> None"
  shows "snd (load_signer e (privPath_of d) f) = [f]"
  using assms by (auto simp: load_signer_def os_ReadFile_def split: option.splits sum.splits)

lemma pub_write_keeps:
  assumes "fresh_temps e d f" and "g \<in> set (snd (writeFileAtomic (ke_fs_pub e) (pubPath_of d) data perm f))"
  shows "g (privPath_of d) = f (privPath_of d)"
proof -
  obtain err st where w: "writeFileAtomic (ke_fs_pub e) (pubPath_of d) data perm f = (err, st)" by force
  have fr: "\<And>tmp. temp_file (ke_fs_pub e) (pubPath_of d) = Inr tmp \<Longrightarrow> f tmp = None \<and> tmp \<noteq> pubPath_of d"
    "temp_file (ke_fs_pub e) (pubPath_of d) \<noteq> Inr (privPath_of d)"
    using assms(1) by (auto simp: fresh_temps_def)
  show ?thesis using writeFileAtomic_states [OF fr(1) w] fr(2) assms(2) w by simp
qed

text \<open>
  C27: An existing key is never replaced. When the private key exists, or cannot be read for another reason than that it is missing, no
  state the file system goes through has a different private key, whatever else fails.
\<close>

theorem existing_key_kept:
  assumes "fresh_temps e d f" and "ke_deny e (privPath_of d) \<noteq> None \<or> f (privPath_of d) \<noteq> None"
    and "g \<in> set (snd (EnsureSSHKeyPair e d f))"
  shows "g (privPath_of d) = f (privPath_of d)"
proof -
  obtain r where l: "load_signer e (privPath_of d) f = (r, [f])" using load_signer_existing [of e d f] assms(2) by (metis prod.collapse)
  consider "g = f" | pk err st where "writeFileAtomic (ke_fs_pub e) (pubPath_of d) (formatPublicKey e pk) 420 f = (err, st)" "g \<in> set st"
    using assms(3) l by (auto simp: EnsureSSHKeyPair_def Let_def split: sum.splits if_splits prod.splits option.splits)
  then show ?thesis
  proof cases
    case 2
    then show ?thesis using pub_write_keeps [OF assms(1), of g "formatPublicKey e pk" 420] by simp
  qed simp
qed

lemma EnsureSSHKeyPair_final:
  assumes "fresh_temps e d f" and "EnsureSSHKeyPair e d f = (Inr pub, states)"
  shows "\<exists>pk st perm. load_signer e (privPath_of d) f = (Inr pk, st) \<and> pub = formatPublicKey e pk
    \<and> last states (pubPath_of d) = Some (pub, perm) \<and> last states (privPath_of d) = last st (privPath_of d)"
proof -
  obtain pk st where l: "load_signer e (privPath_of d) f = (Inr pk, st)" and pub: "pub = formatPublicKey e pk"
    using assms(2) by (auto simp: EnsureSSHKeyPair_def Let_def split: sum.splits if_splits prod.splits option.splits)
  show ?thesis
  proof (cases "os_ReadFile (ke_deny e) (last st) (pubPath_of d) = ReadOk pub")
    case True
    then have "states = st" using assms(2) l pub by (simp add: EnsureSSHKeyPair_def)
    then show ?thesis using True l pub by (auto simp: os_ReadFile_def split: option.splits)
  next
    case False
    then obtain st' where w: "writeFileAtomic (ke_fs_pub e) (pubPath_of d) pub 420 (last st) = (None, st')" and s: "states = st @ st'"
      using assms(2) l pub by (auto simp: EnsureSSHKeyPair_def Let_def split: prod.splits option.splits)
    have "last st = f \<or> (\<exists>pem. last st = f(privPath_of d \<mapsto> (pem, 384)))"
      using l generate_key_final [OF assms(1), of pk st] by (auto simp: load_signer_def split: read_result.splits sum.splits)
    then have "\<And>tmp. temp_file (ke_fs_pub e) (pubPath_of d) = Inr tmp \<Longrightarrow> last st tmp = None \<and> tmp \<noteq> pubPath_of d"
      using assms(1) by (auto simp: fresh_temps_def)
    then have "last st' = (last st)(pubPath_of d \<mapsto> (pub, 420))" using writeFileAtomic_final [OF _ w] by simp
    moreover have "st' \<noteq> []" using w by (auto simp: writeFileAtomic_def Let_def split: sum.splits option.splits)
    ultimately show ?thesis using l pub s by simp
  qed
qed

text \<open>
  The key pair is stable. After a successful run \<open>ssh_key.pub\<close> holds the key that was returned, and the next start, with readable
  files, returns the same key and changes no file, whether the key was generated or found.
\<close>

theorem key_pair_stable:
  assumes "fresh_temps e d f" and "pem_roundtrip e" and "\<And>p. ke_deny e p = None"
    and "EnsureSSHKeyPair e d f = (Inr pub, states)"
  shows "EnsureSSHKeyPair e d (last states) = (Inr pub, [last states]) \<and> map_option fst (last states (pubPath_of d)) = Some pub"
proof -
  obtain pk st perm where l: "load_signer e (privPath_of d) f = (Inr pk, st)" and pub: "pub = formatPublicKey e pk"
    and pf: "last states (pubPath_of d) = Some (pub, perm)" and sf: "last states (privPath_of d) = last st (privPath_of d)"
    using EnsureSSHKeyPair_final [OF assms(1,4)] by blast
  have "\<exists>pem perm. last st (privPath_of d) = Some (pem, perm) \<and> ke_parse e pem = Inr pk"
  proof (cases "f (privPath_of d)")
    case (Some x)
    then have "st = [f]" using load_signer_existing [of e d f] l by simp
    then show ?thesis using Some l assms(3) by (cases x) (auto simp: load_signer_def os_ReadFile_def split: sum.splits)
  next
    case None
    then have "generate_key e (privPath_of d) f = (Inr pk, st)" using l assms(3) by (simp add: load_signer_def os_ReadFile_def)
    from generate_key_final [OF assms(1) this] show ?thesis using assms(2) by (auto simp: pem_roundtrip_def)
  qed
  then have "load_signer e (privPath_of d) (last states) = (Inr pk, [last states])"
    using sf assms(3) by (auto simp: load_signer_def os_ReadFile_def)
  then show ?thesis using pub pf assms(3) by (simp add: EnsureSSHKeyPair_def os_ReadFile_def)
qed

lemma sample_key_fresh: "fresh_temps sample_key_env ''/data'' Map.empty"
proof -
  have "temp_file (ke_fs_priv sample_key_env) (privPath_of ''/data'') = Inr ''/data/.ssh_key.tmp1''"
    "temp_file (ke_fs_pub sample_key_env) (pubPath_of ''/data'') = Inr ''/data/.ssh_key.pub.tmp1''"
    "privPath_of ''/data'' = ''/data/ssh_key''" "pubPath_of ''/data'' = ''/data/ssh_key.pub''" by code_simp+
  then show ?thesis by (auto simp: fresh_temps_def)
qed

theorem existing_key_kept_witness:
  "last (snd (EnsureSSHKeyPair (sample_key_env\<lparr>ke_deny := \<lambda>p. Some (ErrText ''permission denied'')\<rparr>) ''/data'' Map.empty)) (privPath_of ''/data'') = None"
proof -
  let ?e = "sample_key_env\<lparr>ke_deny := \<lambda>p. Some (ErrText ''permission denied'')\<rparr>"
  have "fresh_temps ?e ''/data'' Map.empty" using sample_key_fresh by (simp add: fresh_temps_def)
  moreover have "last (snd (EnsureSSHKeyPair ?e ''/data'' Map.empty)) \<in> set (snd (EnsureSSHKeyPair ?e ''/data'' Map.empty))"
    by (rule last_in_set) (simp add: EnsureSSHKeyPair_def load_signer_def os_ReadFile_def)
  ultimately show ?thesis
    using existing_key_kept [of ?e "''/data''" Map.empty "last (snd (EnsureSSHKeyPair ?e ''/data'' Map.empty))"] by simp
qed

theorem key_pair_stable_witness:
  "fst (EnsureSSHKeyPair sample_key_env ''/data'' (last (snd (EnsureSSHKeyPair sample_key_env ''/data'' Map.empty)))) = Inr ''ssh-ed25519 pub k ssh-gate''"
proof -
  let ?r = "EnsureSSHKeyPair sample_key_env ''/data'' Map.empty"
  have "fst ?r = Inr ''ssh-ed25519 pub k ssh-gate''" by code_simp
  then have "?r = (Inr ''ssh-ed25519 pub k ssh-gate'', snd ?r)" by (metis prod.collapse)
  from key_pair_stable [OF sample_key_fresh _ _ this] show ?thesis by (simp add: pem_roundtrip_def sample_key_env_def)
qed

end
