(* ===== verification/Service.thy ===== *)
theory Service
  imports Errors
begin

text \<open>
  The service manager's side: \<open>notify.go\<close> (the systemd notify socket and the status line) and \<open>journal.go\<close>, \<open>journal_linux.go\<close>,
  \<open>journal_other.go\<close> (log lines in journald's native protocol). Sockets are parameters: a send is answered by an
  error or not.
\<close>

section \<open>Model: notify\<close>

text \<open>The name of the datagram socket, and the message sent to it; \<open>None\<close> when nothing is sent.\<close>

definition notify_socket :: "string \<Rightarrow> string" where
  "notify_socket name = (if HasPrefix name ''@'' then CHR 0x00 # drop 1 name else name)"

definition sdNotify :: "string \<Rightarrow> (string \<Rightarrow> goerr option) \<Rightarrow> (string \<Rightarrow> string \<Rightarrow> goerr option) \<Rightarrow> string \<Rightarrow> goerr option \<times> (string \<times> string) option" where
  "sdNotify env_name dial write msg =
     (if env_name = [] then (None, None)
      else let name = notify_socket env_name in
           case dial name of
             Some err \<Rightarrow> (Some err, None)
           | None \<Rightarrow> (write name msg, Some (name, msg)))"

text \<open>\<open>sdStatus\<close> with the messages it handed to its \<open>notify\<close>; a failed send is only logged.\<close>

record sdStatus =
  sd_stopping :: bool
  sd_sent :: "string list"

definition newSDStatus :: sdStatus where
  "newSDStatus = \<lparr>sd_stopping = False, sd_sent = []\<rparr>"

definition sd_write :: "string \<Rightarrow> sdStatus \<Rightarrow> sdStatus" where
  "sd_write msg s = s\<lparr>sd_sent := sd_sent s @ [msg]\<rparr>"

definition sd_send :: "string \<Rightarrow> sdStatus \<Rightarrow> sdStatus" where
  "sd_send msg s = (if sd_stopping s then s else sd_write msg s)"

definition sd_set :: "string \<Rightarrow> sdStatus \<Rightarrow> sdStatus" where
  "sd_set txt s = sd_send (''STATUS='' @ txt) s"

definition sd_ready :: "sdStatus \<Rightarrow> sdStatus" where
  "sd_ready s = sd_send ''READY=1'' s"

definition sd_stop :: "string \<Rightarrow> sdStatus \<Rightarrow> sdStatus" where
  "sd_stop txt s = sd_write (''STOPPING=1'' @ [CHR 0x0A] @ ''STATUS='' @ txt) (s\<lparr>sd_stopping := True\<rparr>)"

section \<open>Model: journal\<close>

datatype zerolog_level = TraceLevel | DebugLevel | InfoLevel | WarnLevel | ErrorLevel | FatalLevel | PanicLevel | NoLevel | Disabled

fun journalPriority :: "zerolog_level \<Rightarrow> int" where
  "journalPriority TraceLevel = 7"
| "journalPriority DebugLevel = 7"
| "journalPriority InfoLevel = 6"
| "journalPriority WarnLevel = 4"
| "journalPriority ErrorLevel = 3"
| "journalPriority FatalLevel = 2"
| "journalPriority PanicLevel = 2"
| "journalPriority _ = 6"

text \<open>\<open>binary.LittleEndian.AppendUint64\<close>.\<close>

fun le_bytes :: "nat \<Rightarrow> int \<Rightarrow> string" where
  "le_bytes 0 n = []"
| "le_bytes (Suc k) n = char_of (n mod 256) # le_bytes k (n div 256)"

definition journalEntry :: "string \<Rightarrow> zerolog_level \<Rightarrow> string \<Rightarrow> string" where
  "journalEntry ident level p =
     (let msg = TrimSuffix p [CHR 0x0A] in
      ''PRIORITY='' @ Itoa (journalPriority level) @ [CHR 0x0A] @ ''SYSLOG_IDENTIFIER='' @ ident
      @ [CHR 0x0A] @ ''MESSAGE'' @ [CHR 0x0A] @ le_bytes 8 (int (length msg)) @ msg @ [CHR 0x0A])"

text \<open>\<open>WriteLevel\<close>: \<open>send\<close> answers the datagram, \<open>fallback\<close> the write to the fallback writer; with the datagram and the fallback write.\<close>

definition journal_WriteLevel ::
    "(string \<Rightarrow> goerr option) \<Rightarrow> (string \<Rightarrow> int \<times> goerr option) \<Rightarrow> string \<Rightarrow> zerolog_level \<Rightarrow> string \<Rightarrow> (int \<times> goerr option) \<times> string option" where
  "journal_WriteLevel send fallback ident level p =
     (case send (journalEntry ident level p) of
        Some err \<Rightarrow> (fallback p, Some p)
      | None \<Rightarrow> ((int (length p), None), None))"

definition journal_Write ::
    "(string \<Rightarrow> goerr option) \<Rightarrow> (string \<Rightarrow> int \<times> goerr option) \<Rightarrow> string \<Rightarrow> string \<Rightarrow> (int \<times> goerr option) \<times> string option" where
  "journal_Write send fallback ident p = journal_WriteLevel send fallback ident NoLevel p"

text \<open>\<open>stderrIsJournal\<close> on Linux, with what \<open>Fstat\<close> of stderr gives: its device and inode; and elsewhere.\<close>

definition stderrIsJournal_linux :: "string \<Rightarrow> (int \<times> int) option \<Rightarrow> bool" where
  "stderrIsJournal_linux v fstat =
     (if v = [] then False
      else case fstat of None \<Rightarrow> False | Some (dev, ino) \<Rightarrow> v = Itoa dev @ '':'' @ Itoa ino)"

definition stderrIsJournal_other :: bool where
  "stderrIsJournal_other = False"

section \<open>Specification\<close>

datatype sd_op = SdSet string | SdReady | SdStop string

fun sd_run :: "sd_op list \<Rightarrow> sdStatus \<Rightarrow> sdStatus" where
  "sd_run [] s = s"
| "sd_run (SdSet t # ops) s = sd_run ops (sd_set t s)"
| "sd_run (SdReady # ops) s = sd_run ops (sd_ready s)"
| "sd_run (SdStop t # ops) s = sd_run ops (sd_stop t s)"

definition is_stop :: "sd_op \<Rightarrow> bool" where
  "is_stop op = (case op of SdStop _ \<Rightarrow> True | _ \<Rightarrow> False)"

text \<open>
  journald's reading of a datagram: a line \<open>NAME=value\<close>, or a line \<open>NAME\<close> followed by a little-endian 64-bit length, that many bytes and a
  newline.
\<close>

fun le_val :: "string \<Rightarrow> int" where
  "le_val [] = 0"
| "le_val (c # cs) = of_char c + 256 * le_val cs"

function journal_fields :: "string \<Rightarrow> (string \<times> string) list option" where
  "journal_fields b =
     (if b = [] then Some []
      else case IndexByte b (CHR 0x0A) of
             None \<Rightarrow> None
           | Some i \<Rightarrow>
               (let line = take i b; rest = drop (Suc i) b in
                case IndexByte line (CHR ''='') of
                  Some j \<Rightarrow> map_option (Cons (take j line, drop (Suc j) line)) (journal_fields rest)
                | None \<Rightarrow>
                    (let n = nat (le_val (take 8 rest)); data = drop 8 rest in
                     if length rest < 8 \<or> length data \<le> n \<or> data ! n \<noteq> CHR 0x0A then None
                     else map_option (Cons (line, take n data)) (journal_fields (drop (Suc n) data)))))"
  by pat_completeness auto
termination
  by (relation "measure length") auto

declare journal_fields.simps [simp del]

section \<open>Properties\<close>

lemma sd_run_stopped: "sd_stopping s \<Longrightarrow> list_all (\<lambda>op. \<not> is_stop op) ops \<Longrightarrow> sd_run ops s = s"
proof (induction ops)
  case (Cons op ops)
  then show ?case by (cases op) (simp_all add: is_stop_def sd_set_def sd_ready_def sd_send_def)
qed simp

lemma sd_run_append: "sd_run (xs @ ys) s = sd_run ys (sd_run xs s)"
  by (induction xs s rule: sd_run.induct) simp_all

text \<open>
  Stopping is the last word. Whatever was reported before, once \<open>stop\<close> has run no later status or ready message is sent: the last message is the
  one of \<open>stop\<close>.
\<close>

theorem sd_stop_last_word:
  assumes "list_all (\<lambda>op. \<not> is_stop op) post"
  shows "sd_sent (sd_run (pre @ SdStop txt # post) s) = sd_sent (sd_run pre s) @ [''STOPPING=1'' @ [CHR 0x0A] @ ''STATUS='' @ txt]"
proof -
  have "sd_run post (sd_stop txt (sd_run pre s)) = sd_stop txt (sd_run pre s)"
    using assms by (intro sd_run_stopped) (simp_all add: sd_stop_def sd_write_def)
  then show ?thesis by (simp add: sd_run_append sd_stop_def sd_write_def)
qed

theorem sd_stop_last_word_witness:
  "last (sd_sent (sd_run [SdReady, SdStop ''Stopping'', SdSet ''reconnecting''] newSDStatus)) = ''STOPPING=1'' @ [CHR 0x0A] @ ''STATUS=Stopping''"
  using sd_stop_last_word [of "[SdSet ''reconnecting'']" "[SdReady]" "''Stopping''" newSDStatus] by (simp add: is_stop_def)

section \<open>Journal entries\<close>

lemma length_le_bytes [simp]: "length (le_bytes k n) = k"
  by (induction k arbitrary: n) simp_all

lemma le_val_le_bytes: "0 \<le> n \<Longrightarrow> n < 256 ^ k \<Longrightarrow> le_val (le_bytes k n) = n"
proof (induction k arbitrary: n)
  case (Suc k)
  have "n div 256 < 256 ^ k" using Suc.prems by (simp add: div_less_iff_less_mult mult.commute)
  then have "le_val (le_bytes k (n div 256)) = n div 256" using Suc by simp
  then show ?case by simp
qed simp

lemma IndexByte_append: "c \<notin> set xs \<Longrightarrow> IndexByte (xs @ c # ys) c = Some (length xs)"
  by (simp add: IndexByte_def takeWhile_append)

lemma journal_fields_text:
  assumes "CHR 0x0A \<notin> set k" and "CHR ''='' \<notin> set k" and "CHR 0x0A \<notin> set v"
  shows "journal_fields (k @ CHR ''='' # v @ CHR 0x0A # rest) = map_option (Cons (k, v)) (journal_fields rest)"
proof -
  have "IndexByte ((k @ CHR ''='' # v) @ CHR 0x0A # rest) (CHR 0x0A) = Some (length (k @ CHR ''='' # v))"
    using assms by (intro IndexByte_append) simp
  moreover have "IndexByte (k @ CHR ''='' # v) (CHR ''='') = Some (length k)" using assms(2) by (rule IndexByte_append)
  ultimately show ?thesis by (subst journal_fields.simps) (simp add: Let_def)
qed

lemma journal_fields_binary:
  assumes "CHR 0x0A \<notin> set k" and "CHR ''='' \<notin> set k" and "int (length m) < 256 ^ 8"
  shows "journal_fields (k @ CHR 0x0A # le_bytes 8 (int (length m)) @ m @ CHR 0x0A # rest) = map_option (Cons (k, m)) (journal_fields rest)"
proof -
  have "IndexByte (k @ CHR 0x0A # le_bytes 8 (int (length m)) @ m @ CHR 0x0A # rest) (CHR 0x0A) = Some (length k)"
    using assms(1) by (rule IndexByte_append)
  moreover have "IndexByte k (CHR ''='') = None" using assms(2) by (simp add: IndexByte_def)
  moreover have "le_val (le_bytes 8 (int (length m))) = int (length m)" using assms(3) by (intro le_val_le_bytes) simp_all
  ultimately show ?thesis by (subst journal_fields.simps) (simp add: Let_def nth_append)
qed

lemma Itoa_no_newline: "CHR 0x0A \<notin> set (Itoa (journalPriority level))"
  by (cases level) (simp_all, code_simp+)

text \<open>
  C36: A journal entry reads back. For an identifier without a newline, journald's reading of the datagram gives exactly the priority, the identifier and
  the line without its final newline, whatever bytes the line holds.
\<close>

theorem journalEntry_roundtrip:
  assumes "CHR 0x0A \<notin> set ident" and "int (length p) < 256 ^ 8"
  shows "journal_fields (journalEntry ident level p) =
    Some [(''PRIORITY'', Itoa (journalPriority level)), (''SYSLOG_IDENTIFIER'', ident), (''MESSAGE'', TrimSuffix p [CHR 0x0A])]"
proof -
  let ?m = "TrimSuffix p [CHR 0x0A]"
  let ?r2 = "''MESSAGE'' @ CHR 0x0A # le_bytes 8 (int (length ?m)) @ ?m @ CHR 0x0A # []"
  let ?r1 = "''SYSLOG_IDENTIFIER'' @ CHR ''='' # ident @ CHR 0x0A # ?r2"
  have "length ?m \<le> length p" by (simp add: TrimSuffix_def)
  then have "int (length ?m) < 256 ^ 8" using assms(2) by linarith
  then have "journal_fields ?r2 = Some [(''MESSAGE'', ?m)]"
    by (subst journal_fields_binary) (simp_all add: journal_fields.simps)
  then have "journal_fields ?r1 = Some [(''SYSLOG_IDENTIFIER'', ident), (''MESSAGE'', ?m)]"
    using assms(1) by (subst journal_fields_text) simp_all
  then have r1: "journal_fields (''PRIORITY'' @ CHR ''='' # Itoa (journalPriority level) @ CHR 0x0A # ?r1) =
      Some [(''PRIORITY'', Itoa (journalPriority level)), (''SYSLOG_IDENTIFIER'', ident), (''MESSAGE'', ?m)]"
    using Itoa_no_newline by (subst journal_fields_text) simp_all
  have "journalEntry ident level p = ''PRIORITY'' @ CHR ''='' # Itoa (journalPriority level) @ CHR 0x0A # ?r1"
    by (simp add: journalEntry_def Let_def)
  then show ?thesis unfolding r1 [symmetric] by (rule arg_cong)
qed

theorem journalEntry_roundtrip_witness:
  "journal_fields (journalEntry ''ssh-gate'' WarnLevel ([CHR ''a'', CHR 0x0A, CHR ''='', CHR 0x0A])) =
    Some [(''PRIORITY'', ''4''), (''SYSLOG_IDENTIFIER'', ''ssh-gate''), (''MESSAGE'', [CHR ''a'', CHR 0x0A, CHR ''=''])]"
proof -
  have "Itoa (journalPriority WarnLevel) = ''4''" "TrimSuffix [CHR ''a'', CHR 0x0A, CHR ''='', CHR 0x0A] [CHR 0x0A] = [CHR ''a'', CHR 0x0A, CHR ''='']"
    by code_simp+
  then show ?thesis
    using journalEntry_roundtrip [of "''ssh-gate''" "[CHR ''a'', CHR 0x0A, CHR ''='', CHR 0x0A]" WarnLevel] by simp
qed

end
