(* ===== verification/ConntrackFacts.thy ===== *)
theory ConntrackFacts
  imports Conntrack
begin

text \<open>
  Facts about \<open>conntrack.go\<close>: the ring refines a bounded list, every operation keeps the tracker's
  invariant, connections are accounted once, and the listing is a sorted page.
\<close>

section \<open>The ring as a bounded list\<close>

lemma history_length [simp]: "length (history t) = ringCount t"
  by (simp add: history_def)

lemma history_nth: "i < ringCount t \<Longrightarrow> history t ! i = ring t ! ((ringHead t + i) mod capacity t)"
  by (simp add: history_def)

lemma history_Cons:
  assumes "ring_inv t" and "0 < ringCount t"
  shows "history t = ring t ! ringHead t # history (t\<lparr>ringHead := (ringHead t + 1) mod capacity t, ringCount := ringCount t - 1\<rparr>)"
proof (rule nth_equalityI)
  show "length (history t) = length (ring t ! ringHead t # history (t\<lparr>ringHead := (ringHead t + 1) mod capacity t, ringCount := ringCount t - 1\<rparr>))"
    using assms by simp
next
  fix i assume "i < length (history t)"
  then have i: "i < ringCount t" by simp
  show "history t ! i = (ring t ! ringHead t # history (t\<lparr>ringHead := (ringHead t + 1) mod capacity t, ringCount := ringCount t - 1\<rparr>)) ! i"
  proof (cases i)
    case 0
    then show ?thesis using assms i by (simp add: history_nth ring_inv_def)
  next
    case (Suc j)
    then show ?thesis using assms i by (simp add: history_nth mod_add_left_eq)
  qed
qed

lemma ring_inv_tail:
  "ring_inv t \<Longrightarrow> 0 < ringCount t \<Longrightarrow> ring_inv (t\<lparr>ringHead := (ringHead t + 1) mod capacity t, ringCount := ringCount t - 1\<rparr>)"
  by (auto simp: ring_inv_def)

lemma pruneRing_frame [frame_simps]:
  "active (pruneRing now t) = active t \<and> ring (pruneRing now t) = ring t \<and> capacity (pruneRing now t) = capacity t \<and>
   maxAge (pruneRing now t) = maxAge t \<and> nextID (pruneRing now t) = nextID t \<and> tconns (pruneRing now t) = tconns t \<and>
   ct_tick (pruneRing now t) = ct_tick t"
proof (induction now t rule: pruneRing.induct)
  case (1 now t)
  then show ?case by (subst (1 2 3 4 5 6 7) pruneRing.simps) auto
qed

lemma pruneRing_refines:
  "ring_inv t \<Longrightarrow> ring_inv (pruneRing now t) \<and> history (pruneRing now t) = dropWhile (expired now (maxAge t)) (history t)"
proof (induction now t rule: pruneRing.induct)
  case (1 now t)
  let ?t' = "t\<lparr>ringHead := (ringHead t + 1) mod capacity t, ringCount := ringCount t - 1\<rparr>"
  show ?case
  proof (cases "0 < ringCount t")
    case False
    then have "pruneRing now t = t" "history t = []" by (simp_all add: pruneRing.simps history_def)
    then show ?thesis using 1(2) by simp
  next
    case True
    note h = history_Cons[OF 1(2) True]
    show ?thesis
    proof (cases "time_Sub now (closedAt (ring t ! ringHead t)) \<le> maxAge t")
      case True
      then have "pruneRing now t = t" by (simp add: pruneRing.simps)
      then show ?thesis using h True 1(2) by (simp add: expired_def)
    next
      case False
      then have "pruneRing now t = pruneRing now ?t'" using True by (subst pruneRing.simps) simp
      moreover have "ring_inv (pruneRing now ?t') \<and> history (pruneRing now ?t') = dropWhile (expired now (maxAge t)) (history ?t')"
        using 1(1)[OF True False ring_inv_tail[OF 1(2) True]] by simp
      moreover have "expired now (maxAge t) (ring t ! ringHead t)" using False by (simp add: expired_def)
      ultimately show ?thesis using h by simp
    qed
  qed
qed

lemma ring_insert:
  assumes "ring_inv t" and "ringCount t < capacity t"
  shows "history (t\<lparr>ringCount := ringCount t + 1, ring := (ring t)[(ringHead t + ringCount t) mod capacity t := r]\<rparr>) = history t @ [r]"
proof (rule nth_equalityI)
  fix i assume "i < length (history (t\<lparr>ringCount := ringCount t + 1, ring := (ring t)[(ringHead t + ringCount t) mod capacity t := r]\<rparr>))"
  then have i: "i \<le> ringCount t" by simp
  have lt: "(ringHead t + ringCount t) mod capacity t < length (ring t)" using assms by (simp add: ring_inv_def)
  have ne: "(ringHead t + ringCount t) mod capacity t \<noteq> (ringHead t + i) mod capacity t" if "i < ringCount t"
  proof
    assume "(ringHead t + ringCount t) mod capacity t = (ringHead t + i) mod capacity t"
    then have "capacity t dvd (ringHead t + ringCount t) - (ringHead t + i)"
      using that mod_eq_dvd_iff_nat[of "ringHead t + i" "ringHead t + ringCount t" "capacity t"] by simp
    then show False using that assms(2) by (auto dest: dvd_imp_le)
  qed
  show "history (t\<lparr>ringCount := ringCount t + 1, ring := (ring t)[(ringHead t + ringCount t) mod capacity t := r]\<rparr>) ! i = (history t @ [r]) ! i"
    using i ne lt by (cases "i < ringCount t") (auto simp: history_nth nth_append)
qed simp

lemma ring_overwrite:
  assumes "ring_inv t" and "ringCount t = capacity t"
  shows "history (t\<lparr>ringHead := (ringHead t + 1) mod capacity t, ring := (ring t)[ringHead t := r]\<rparr>) = tl (history t) @ [r]"
proof -
  let ?u = "t\<lparr>ringHead := (ringHead t + 1) mod capacity t, ringCount := ringCount t - 1\<rparr>"
  have c: "0 < ringCount t" using assms by (simp add: ring_inv_def)
  have inv: "ring_inv ?u" by (rule ring_inv_tail[OF assms(1) c])
  have "(ringHead t + 1 + (ringCount t - 1)) mod capacity t = ringHead t"
    using assms c by (simp add: ring_inv_def)
  then have idx: "((ringHead t + 1) mod capacity t + (ringCount t - 1)) mod capacity t = ringHead t"
    by (simp add: mod_add_left_eq)
  have "history (?u\<lparr>ringCount := ringCount ?u + 1, ring := (ring ?u)[(ringHead ?u + ringCount ?u) mod capacity ?u := r]\<rparr>) = history ?u @ [r]"
    by (rule ring_insert[OF inv]) (use c assms in simp)
  then show ?thesis using history_Cons[OF assms(1) c] c idx by simp
qed

lemma pushRing_refines:
  assumes "ring_inv t"
  shows "ring_inv (pushRing clk r t) \<and>
    history (pushRing clk r t) = hist_push (clk (ct_tick t)) (maxAge t) (capacity t) r (history t)"
proof -
  let ?u = "pruneRing (clk (ct_tick t)) (t\<lparr>ct_tick := Suc (ct_tick t)\<rparr>)"
  have "ring_inv (t\<lparr>ct_tick := Suc (ct_tick t)\<rparr>)" "history (t\<lparr>ct_tick := Suc (ct_tick t)\<rparr>) = history t"
    using assms by (simp_all add: ring_inv_def history_def)
  then have u: "ring_inv ?u" "history ?u = dropWhile (expired (clk (ct_tick t)) (maxAge t)) (history t)"
    using pruneRing_refines[of "t\<lparr>ct_tick := Suc (ct_tick t)\<rparr>" "clk (ct_tick t)"] by simp_all
  have f: "capacity ?u = capacity t" by (simp add: frame_simps)
  have len: "length (dropWhile (expired (clk (ct_tick t)) (maxAge t)) (history t)) = ringCount ?u"
    using u(2) history_length[of ?u] by simp
  show ?thesis
  proof (cases "ringCount ?u = capacity ?u")
    case True
    then have p: "pushRing clk r t = ?u\<lparr>ringHead := (ringHead ?u + 1) mod capacity ?u, ring := (ring ?u)[ringHead ?u := r]\<rparr>"
      by (simp add: pushRing_def ct_Now_def Let_def)
    show ?thesis unfolding p using ring_overwrite[OF u(1) True] u True f len
      by (auto simp: hist_push_def ring_inv_def)
  next
    case False
    then have lt: "ringCount ?u < capacity ?u" using u(1) by (simp add: ring_inv_def)
    have p: "pushRing clk r t = ?u\<lparr>ringCount := ringCount ?u + 1, ring := (ring ?u)[(ringHead ?u + ringCount ?u) mod capacity ?u := r]\<rparr>"
      using False by (simp add: pushRing_def ct_Now_def Let_def)
    show ?thesis unfolding p using ring_insert[OF u(1) lt] u lt f len
      by (auto simp: hist_push_def ring_inv_def)
  qed
qed

lemma pushRing_frame [frame_simps]:
  "active (pushRing clk r t) = active t" "capacity (pushRing clk r t) = capacity t" "maxAge (pushRing clk r t) = maxAge t"
  "nextID (pushRing clk r t) = nextID t" "tconns (pushRing clk r t) = tconns t" "ct_tick (pushRing clk r t) = Suc (ct_tick t)"
  by (simp_all add: pushRing_def ct_Now_def Let_def frame_simps)

lemma hist_push_suffix: "\<exists>k. hist_push now age cap r h = drop k h @ [r]"
proof -
  obtain k where k: "dropWhile (expired now age) h = drop k h" using dropWhile_eq_drop by blast
  have "tl (drop k h) = drop (Suc k) h" by (simp add: drop_Suc tl_drop)
  with k show ?thesis unfolding hist_push_def Let_def by (metis (full_types))
qed

text \<open>
  A bounded log: whatever a push drops, it drops from the front, and it puts the new element last.
  The clients below need nothing else of the ring.
\<close>

locale bounded_log =
  fixes inv :: "'s \<Rightarrow> bool" and abs :: "'s \<Rightarrow> 'a list" and cap :: "'s \<Rightarrow> nat" and push :: "'a \<Rightarrow> 's \<Rightarrow> 's"
  assumes push_inv: "inv s \<Longrightarrow> inv (push x s)"
    and push_cap: "cap (push x s) = cap s"
    and abs_bound: "inv s \<Longrightarrow> length (abs s) \<le> cap s"
    and push_abs: "inv s \<Longrightarrow> \<exists>k. abs (push x s) = drop k (abs s) @ [x]"
begin

lemma log_last: "inv s \<Longrightarrow> abs (push x s) \<noteq> [] \<and> last (abs (push x s)) = x"
  using push_abs[of s x] by auto

lemma log_suffix: "inv s \<Longrightarrow> suffix (abs (push x s)) (abs s @ [x])"
  using push_abs[of s x] by (auto simp: suffix_def) (metis append_take_drop_id)

lemma log_set: "inv s \<Longrightarrow> set (abs (push x s)) \<subseteq> insert x (set (abs s))"
  using push_abs[of s x] by (auto dest: in_set_dropD)

lemma log_distinct:
  assumes "inv s" and "distinct (map f (abs s))" and "f x \<notin> f ` set (abs s)"
  shows "distinct (map f (abs (push x s)))"
proof -
  obtain k where k: "abs (push x s) = drop k (abs s) @ [x]" using push_abs[OF assms(1)] by blast
  have "distinct (map f (drop k (abs s)))" using assms(2) by (simp add: drop_map[symmetric])
  moreover have "f x \<notin> f ` set (drop k (abs s))" using assms(3) by (auto dest: in_set_dropD)
  ultimately show ?thesis using k by simp
qed

lemma logs_suffix: "inv s \<Longrightarrow> inv (fold push xs s) \<and> suffix (abs (fold push xs s)) (abs s @ xs)"
proof (induction xs arbitrary: s)
  case Nil
  then show ?case by simp
next
  case (Cons x xs)
  have "suffix (abs (push x s) @ xs) (abs s @ x # xs)"
    using log_suffix[OF Cons.prems, of x] by (metis append.assoc append_Cons append_Nil suffix_def)
  with Cons.IH[OF push_inv[OF Cons.prems]] show ?case using suffix_order.trans by fastforce
qed

lemma logs_bound: "inv s \<Longrightarrow> length (abs (fold push xs s)) \<le> cap s"
proof (induction xs arbitrary: s)
  case Nil
  then show ?case by (simp add: abs_bound)
next
  case (Cons x xs)
  then show ?case using Cons.IH[OF push_inv] by (simp add: push_cap)
qed

end

interpretation ring_log: bounded_log ring_inv history capacity "pushRing clk" for clk
  using pushRing_refines hist_push_suffix by unfold_locales (auto simp: frame_simps ring_inv_def)

section \<open>The invariant of the tracker\<close>

lemma tracker_inv_rec: "tracker_inv t \<Longrightarrow> map_of (active t) i = Some r \<Longrightarrow> rec_ok t i r"
  by (auto simp: tracker_inv_def list_all_iff dest: map_of_SomeD)

lemma rec_ok_mono:
  assumes "rec_ok t i r" and "nextID t \<le> nextID u"
    and "\<And>p. p < length (tconns t) \<Longrightarrow> p < length (tconns u) \<and> tc_id (tconns u ! p) = tc_id (tconns t ! p)"
  shows "rec_ok u i r"
  using assms by (auto simp: rec_ok_def split: option.splits)

lemma move_inv:
  assumes "tracker_inv t" and "i \<in> fst ` set (active t)" and "i \<le> nextID t" and "c_id r' = i"
    and "c_status r' = StateClosed \<or> c_status r' = StateError"
  shows "tracker_inv (pushRing clk r' (t\<lparr>active := AList.delete i (active t), ct_tick := n\<rparr>))"
proof -
  let ?u = "t\<lparr>active := AList.delete i (active t), ct_tick := n\<rparr>"
  let ?w = "pushRing clk r' ?u"
  have t: "ring_inv t" "wf_map (active t)" "list_all (\<lambda>(i, r). rec_ok t i r) (active t)" "distinct (map c_id (history t))"
    "list_all (done_ok t) (history t)" using assms(1) by (auto simp: tracker_inv_def)
  have u: "ring_inv ?u" "history ?u = history t" using t(1) by (simp_all add: ring_inv_def history_def)
  have keys: "fst ` set (active ?w) = fst ` set (active t) - {i}" by (auto simp: frame_simps AList.delete_eq image_iff)
  have sub: "set (active ?w) \<subseteq> set (active t)" by (auto simp: frame_simps AList.delete_eq)
  have "ring_inv ?w" by (rule ring_log.push_inv[OF u(1)])
  moreover have "wf_map (active ?w)" using t(2) by (simp add: frame_simps)
  moreover have "list_all (\<lambda>(i, r). rec_ok ?w i r) (active ?w)"
    using t(3) sub rec_ok_mono[of t _ _ ?w] by (fastforce simp: list_all_iff frame_simps)
  moreover have "i \<notin> c_id ` set (history t)"
    using t(5) assms(2) unfolding list_all_iff done_ok_def by blast
  then have "distinct (map c_id (history ?w))"
    using ring_log.log_distinct[OF u(1), of c_id r'] t(4) u(2) assms(4) by simp
  moreover have "list_all (done_ok ?w) (history ?w)"
    using ring_log.log_set[OF u(1), of clk r'] t(5) u(2) keys assms(3,4,5)
    by (auto simp: list_all_iff done_ok_def frame_simps)
  ultimately show ?thesis by (simp add: tracker_inv_def)
qed

lemma NewConnTracker_inv: "tracker_inv (NewConnTracker cap age)"
  by (simp add: tracker_inv_def ring_inv_def NewConnTracker_def history_def Let_def)

lemma inv_update:
  assumes "tracker_inv t" and "ring_inv u" and "history u = history t" and "wf_map (active u)" and "nextID t \<le> nextID u"
    and "\<And>i r. (i, r) \<in> set (active u) \<Longrightarrow> rec_ok u i r"
    and "\<And>i. i \<in> fst ` set (active u) \<Longrightarrow> i \<in> fst ` set (active t) \<or> nextID t < i"
  shows "tracker_inv u"
proof -
  have "done_ok u r" if "done_ok t r" for r
    using that assms(5) assms(7)[of "c_id r"] unfolding done_ok_def by (meson leD order_trans)
  then show ?thesis using assms by (auto simp: tracker_inv_def list_all_iff)
qed

lemma Begin_inv [inv_intros]:
  assumes "tracker_inv t" and "nextID t \<noteq> - 1"
  shows "tracker_inv (snd (Begin clk meta host port t))"
proof (rule inv_update[OF assms(1)])
  let ?u = "snd (Begin clk meta host port t)"
  note lt = word_less_add_1[OF assms(2)]
  have t: "ring_inv t" "wf_map (active t)" using assms(1) by (auto simp: tracker_inv_def)
  show "ring_inv ?u" "history ?u = history t" "wf_map (active ?u)" "nextID t \<le> nextID ?u"
    using t lt by (simp_all add: Begin_def ct_Now_def Let_def ring_inv_def history_def less_imp_le)
  have nz: "nextID t + 1 \<noteq> 0" using assms(2) by (metis add_eq_0_iff add.commute)
  fix i
  show "i \<in> fst ` set (active ?u) \<Longrightarrow> i \<in> fst ` set (active t) \<or> nextID t < i"
    using lt by (auto simp: Begin_def ct_Now_def Let_def dom_update image_iff dest!: set_update_alist[THEN subsetD])
  fix r assume "(i, r) \<in> set (active ?u)"
  then consider "(i, r) \<in> set (active t)" | "i = nextID t + 1" "c_id r = i" "c_live r = None" "c_status r = StateDialing"
    by (auto simp: Begin_def ct_Now_def Let_def dest!: set_update_alist[THEN subsetD])
  then show "rec_ok ?u i r"
  proof cases
    case 1
    then have "rec_ok t i r" using assms(1) by (auto simp: tracker_inv_def list_all_iff)
    then show ?thesis using lt rec_ok_mono[of t i r ?u] by (auto simp: Begin_def ct_Now_def Let_def)
  next
    case 2
    then show ?thesis using nz by (simp add: rec_ok_def Begin_def ct_Now_def Let_def)
  qed
qed

lemma Done_inv [inv_intros]:
  assumes "tracker_inv t"
  shows "tracker_inv (snd (Done i cn t))"
proof (cases cn)
  case None
  then show ?thesis using assms by (simp add: Done_def)
next
  case (Some b)
  let ?u = "snd (Done i cn t)"
  have t: "ring_inv t" "wf_map (active t)" using assms(1) by (auto simp: tracker_inv_def)
  show ?thesis
  proof (rule inv_update[OF assms(1)])
    show "ring_inv ?u" "history ?u = history t" "wf_map (active ?u)" "nextID t \<le> nextID ?u"
      using t Some by (simp_all add: Done_def Let_def ring_inv_def history_def split: option.split)
    fix j
    show "j \<in> fst ` set (active ?u) \<Longrightarrow> j \<in> fst ` set (active t) \<or> nextID t < j"
      using Some by (force simp: Done_def Let_def split: option.splits dest!: set_update_alist[THEN subsetD] map_of_SomeD)
    fix r assume "(j, r) \<in> set (active ?u)"
    then consider "(j, r) \<in> set (active t)"
      | r0 where "j = i" "map_of (active t) i = Some r0" "r = r0\<lparr>c_status := StateActive, c_live := Some (length (tconns t))\<rparr>"
      using Some by (auto simp: Done_def Let_def split: option.splits dest!: set_update_alist[THEN subsetD])
    then show "rec_ok ?u j r"
    proof cases
      case 1
      then have "rec_ok t j r" using assms(1) by (auto simp: tracker_inv_def list_all_iff)
      then show ?thesis using Some rec_ok_mono[of t j r ?u]
        by (auto simp: Done_def Let_def nth_append split: option.splits)
    next
      case 2
      then have "rec_ok t i r0" using assms(1) tracker_inv_rec by blast
      then show ?thesis using 2 Some by (auto simp: rec_ok_def Done_def Let_def)
    qed
  qed
qed

lemma Fail_inv [inv_intros]: "tracker_inv t \<Longrightarrow> tracker_inv (Fail clk i err t)"
  using tracker_inv_rec[of t i]
  by (auto simp: Fail_def ct_Now_def Let_def rec_ok_def map_of_key intro!: move_inv split: option.split)

lemma finish_inv [inv_intros]: "tracker_inv t \<Longrightarrow> tracker_inv (finish clk i up down e t)"
  using tracker_inv_rec[of t i]
  by (auto simp: finish_def ct_Now_def Let_def rec_ok_def map_of_key intro!: move_inv split: option.split)

lemma upd_tconn_inv [inv_intros]:
  assumes "tracker_inv t" and "\<And>tc. tc_id (f tc) = tc_id tc"
  shows "tracker_inv (upd_tconn p f t)"
proof (rule inv_update[OF assms(1)])
  have t: "ring_inv t" "wf_map (active t)" using assms(1) by (auto simp: tracker_inv_def)
  then show "ring_inv (upd_tconn p f t)" "history (upd_tconn p f t) = history t" "wf_map (active (upd_tconn p f t))"
    "nextID t \<le> nextID (upd_tconn p f t)"
    by (simp_all add: upd_tconn_def ring_inv_def history_def)
  fix i r
  show "i \<in> fst ` set (active (upd_tconn p f t)) \<Longrightarrow> i \<in> fst ` set (active t) \<or> nextID t < i"
    by (simp add: upd_tconn_def)
  assume "(i, r) \<in> set (active (upd_tconn p f t))"
  then have "rec_ok t i r" using assms(1) by (auto simp: tracker_inv_def list_all_iff upd_tconn_def)
  then show "rec_ok (upd_tconn p f t) i r"
    using rec_ok_mono[of t i r "upd_tconn p f t"] assms(2) by (auto simp: upd_tconn_def nth_list_update_lt)
qed

lemma pruneRing_inv [inv_intros]:
  assumes "tracker_inv t"
  shows "tracker_inv (pruneRing now t)"
proof -
  have t: "ring_inv t" using assms by (simp add: tracker_inv_def)
  note p = pruneRing_refines[OF t, of now]
  have sub: "set (history (pruneRing now t)) \<subseteq> set (history t)" "distinct (map c_id (history (pruneRing now t)))"
    using p assms by (auto simp: tracker_inv_def distinct_map dest: set_dropWhileD inj_on_subset)
  have "rec_ok (pruneRing now t) i r" if "(i, r) \<in> set (active t)" for i r
    using that assms rec_ok_mono[of t i r "pruneRing now t"] by (auto simp: tracker_inv_def list_all_iff frame_simps)
  then show ?thesis using assms p sub
    by (auto simp: tracker_inv_def frame_simps list_all_iff done_ok_def)
qed

section \<open>Stalled dials\<close>

lemma drop_one_frame:
  "maxAge (drop_one clk now kv t) = maxAge t" "nextID (drop_one clk now kv t) = nextID t" "tconns (drop_one clk now kv t) = tconns t"
  "set (active (drop_one clk now kv t)) =
     (if stalled now t (snd kv) then {x \<in> set (active t). fst x \<noteq> fst kv} else set (active t))"
  by (auto simp: drop_one_def frame_simps AList.delete_eq)

lemma drop_one_inv:
  assumes "tracker_inv t" and "kv \<in> set (active t)"
  shows "tracker_inv (drop_one clk now kv t)"
proof -
  obtain i r where kv: "kv = (i, r)" by force
  then have "rec_ok t i r" "i \<in> fst ` set (active t)"
    using assms by (auto simp: tracker_inv_def list_all_iff intro: rev_image_eqI)
  then show ?thesis using assms(1) move_inv[of t i "r\<lparr>c_status := StateError, c_reason := ''dial timeout'', closedAt := now\<rparr>" clk "ct_tick t"]
    by (auto simp: drop_one_def kv rec_ok_def)
qed

lemma stalled_maxAge: "maxAge u = maxAge t \<Longrightarrow> stalled now u = stalled now t"
  by (simp add: stalled_def fun_eq_iff)

lemma fold_drop_one:
  assumes "tracker_inv t" and "set kvs \<subseteq> set (active t)" and "distinct (map fst kvs)"
  shows "tracker_inv (fold (drop_one clk now) kvs t) \<and>
    set (active (fold (drop_one clk now) kvs t)) = {kv \<in> set (active t). \<not> (kv \<in> set kvs \<and> stalled now t (snd kv))} \<and>
    maxAge (fold (drop_one clk now) kvs t) = maxAge t \<and> nextID (fold (drop_one clk now) kvs t) = nextID t \<and>
    tconns (fold (drop_one clk now) kvs t) = tconns t"
  using assms
proof (induction kvs arbitrary: t)
  case Nil
  then show ?case by simp
next
  case (Cons kv kvs)
  let ?u = "drop_one clk now kv t"
  have kv: "kv \<in> set (active t)" using Cons.prems(2) by simp
  have wf: "distinct (map fst (active t))" using Cons.prems(1) by (simp add: tracker_inv_def wf_map_def)
  have fk: "fst x \<noteq> fst kv \<longleftrightarrow> x \<noteq> kv" if "x \<in> set (active t)" for x
    using that kv wf by (metis distinct_map inj_onD)
  have act: "set (active ?u) = {x \<in> set (active t). \<not> (x = kv \<and> stalled now t (snd kv))}"
    using fk by (auto simp: drop_one_frame)
  have sub: "set kvs \<subseteq> set (active ?u)" "kv \<notin> set kvs" using Cons.prems(2,3) act by auto
  note ih = Cons.IH[OF drop_one_inv[OF Cons.prems(1) kv] sub(1)]
  have "distinct (map fst kvs)" using Cons.prems(3) by simp
  from ih[OF this] act sub show ?case
    by (auto simp: drop_one_frame stalled_maxAge[of ?u t])
qed

lemma dropStalled_spec:
  assumes "tracker_inv t" and "range_order rng"
  shows "tracker_inv (dropStalled clk rng now t) \<and>
    set (active (dropStalled clk rng now t)) = {kv \<in> set (active t). \<not> stalled now t (snd kv)}"
proof -
  have "set (rng (active t)) \<subseteq> set (active t)" "distinct (map fst (rng (active t)))"
    using assms range_order_set[OF assms(2)] range_order_distinct[OF assms(2), of fst "active t"]
    by (auto simp: tracker_inv_def wf_map_def)
  from fold_drop_one[OF assms(1) this, of clk now] range_order_set[OF assms(2), of "active t"]
  show ?thesis by (auto simp: dropStalled_def)
qed

section \<open>Listing\<close>

lemma rec_less_key: "rec_less = (\<lambda>a b. rec_key a < rec_key b)"
  by (auto simp: fun_eq_iff rec_less_def rec_key_def less_prod_def' word_less_def)

lemma inj_rec_key: "distinct (map c_id rs) \<Longrightarrow> inj_on rec_key (set rs)"
  by (auto simp: inj_on_def rec_key_def distinct_map word_uint_eq_iff)

lemma sort_rec_key:
  assumes "distinct (map c_id rs)"
  shows "sorted_wrt rec_less (sort_key rec_key rs)"
proof -
  have "distinct (map rec_key (sort_key rec_key rs))"
    using assms inj_rec_key[OF assms] by (simp add: distinct_map)
  then have "sorted_wrt (<) (map rec_key (sort_key rec_key rs))"
    by (simp add: strict_sorted_iff)
  then show ?thesis by (simp add: sorted_wrt_map rec_less_key)
qed

lemma sort_rec_unique:
  assumes "distinct (map c_id rs)" and "mset ys = mset rs" and "sorted_wrt (\<lambda>a b. \<not> rec_less b a) ys"
  shows "ys = sort_key rec_key rs"
proof (rule properties_for_sort_key[symmetric])
  show "mset ys = mset rs" by (rule assms(2))
  have d: "distinct (map c_id ys)" using assms(1,2) by (metis mset_eq_imp_distinct_iff mset_map)
  have inj: "inj_on rec_key (set ys)" by (rule inj_rec_key[OF d])
  show "filter (\<lambda>x. rec_key k = rec_key x) ys = filter (\<lambda>x. rec_key k = rec_key x) rs" if "k \<in> set ys" for k
  proof -
    have s: "set ys = set rs" using assms(2) by (metis set_mset_mset)
    have "filter (\<lambda>x. rec_key k = rec_key x) xs = [k]" if "k \<in> set xs" "distinct xs" "inj_on rec_key (set xs)" for xs
      using that by (induction xs) (auto simp: inj_on_def filter_empty_conv)
    moreover have "distinct rs" "distinct ys" using assms(1) d by (auto simp: distinct_map)
    ultimately show ?thesis using that inj inj_rec_key[OF assms(1)] s by metis
  qed
  show "sorted (map rec_key ys)"
    using assms(3) by (simp add: sorted_wrt_map rec_less_key not_less)
qed

lemma ct_select_mset:
  "mset (ct_select q proto rs) = filter_mset (\<lambda>r. (q = [] \<or> query_match q r) \<and> (proto = [] \<or> c_proto r = proto)) (mset rs)"
  by (auto simp: ct_select_def Let_def filter_filter_mset mset_filter[symmetric] intro!: arg_cong[where f = mset] filter_cong simp del: mset_filter)

lemma ct_page_spec:
  assumes "1 \<le> page" and "1 \<le> pageSize" and "pageSize \<le> 200" and "(page - 1) * pageSize \<le> max_int64 - 200"
  shows "ct_page recs page pageSize = Inr (take (nat pageSize) (drop (nat ((page - 1) * pageSize)) recs))"
proof -
  let ?s = "(page - 1) * pageSize"
  have s0: "0 \<le> ?s" using assms by simp
  have q: "page - 1 \<le> ?s" using assms by (metis diff_ge_0_iff_ge mult.right_neutral mult_left_mono)
  have "min_int64 \<le> page - 1" "page - 1 \<le> max_int64"
    using assms q unfolding min_int64_def max_int64_def by linarith+
  then have p: "wrap64 (page - 1) = page - 1" by (rule wrap64_id)
  have "min_int64 \<le> ?s" "?s \<le> max_int64" "min_int64 \<le> ?s + pageSize" "?s + pageSize \<le> max_int64"
    using assms s0 unfolding min_int64_def max_int64_def by linarith+
  then have s: "wrap64 ?s = ?s" and e: "wrap64 (?s + pageSize) = ?s + pageSize" by (simp_all only: wrap64_id)
  show ?thesis
  proof (cases "?s \<ge> int (length recs)")
    case True
    then show ?thesis using s0 by (simp add: ct_page_def Let_def p s)
  next
    case False
    then have "nat (?s + pageSize - ?s) = nat pageSize" by simp
    have "take (nat (int (length recs) - ?s)) (drop (nat ?s) recs) = drop (nat ?s) recs" if "?s + pageSize > int (length recs)"
      by (rule take_all) (use False s0 in auto)
    moreover have "take (nat pageSize) (drop (nat ?s) recs) = drop (nat ?s) recs" if "?s + pageSize > int (length recs)"
      by (rule take_all) (use False s0 that in auto)
    ultimately show ?thesis using False s0 assms(2) by (auto simp: ct_page_def Let_def p s e)
  qed
qed

lemma ct_page_overflow: "ct_page recs max_int64 200 = Inl (Panic ''slice bounds out of range'')"
  by (simp add: ct_page_def wrap64_def max_int64_def)

lemma tc_id_note_err [simp]: "tc_id (note_err e tc) = tc_id tc"
  by (simp add: note_err_def)

lemma tracker_inv_tick: "tracker_inv t \<Longrightarrow> tracker_inv (t\<lparr>ct_tick := n\<rparr>)"
proof -
  have "rec_ok (t\<lparr>ct_tick := n\<rparr>) = rec_ok t" by (simp add: fun_eq_iff rec_ok_def cong: option.case_cong)
  moreover have "done_ok (t\<lparr>ct_tick := n\<rparr>) = done_ok t" by (simp add: fun_eq_iff done_ok_def)
  ultimately show "tracker_inv t \<Longrightarrow> tracker_inv (t\<lparr>ct_tick := n\<rparr>)"
    by (simp add: tracker_inv_def ring_inv_def history_def)
qed

lemma tc_Read_inv [inv_intros]: "tracker_inv t \<Longrightarrow> tracker_inv (snd (tc_Read p res t))"
  by (auto simp: tc_Read_def Let_def split: prod.split intro!: upd_tconn_inv)

lemma tc_Write_inv [inv_intros]: "tracker_inv t \<Longrightarrow> tracker_inv (snd (tc_Write p res t))"
  by (auto simp: tc_Write_def Let_def split: prod.split intro!: upd_tconn_inv)

lemma tc_Close_inv [inv_intros]: "tracker_inv t \<Longrightarrow> tracker_inv (snd (tc_Close clk p berr t))"
  by (auto simp: tc_Close_def Let_def intro!: upd_tconn_inv finish_inv)

lemma ActiveByProto_inv [inv_intros]:
  "tracker_inv t \<Longrightarrow> range_order rng \<Longrightarrow> tracker_inv (snd (ActiveByProto clk rng t))"
  by (simp add: ActiveByProto_def ct_Now_def Let_def dropStalled_spec tracker_inv_tick)

lemma ct_List_state:
  "snd (ct_List clk rng tab q proto page pageSize t) = t \<or>
   snd (ct_List clk rng tab q proto page pageSize t) =
     dropStalled clk rng (clk (ct_tick t)) (pruneRing (clk (ct_tick t)) (t\<lparr>ct_tick := Suc (ct_tick t)\<rparr>))"
  by (auto simp: ct_List_def ct_Now_def Let_def split: sum.split)

lemma ct_List_inv [inv_intros]:
  assumes "tracker_inv t" and "range_order rng"
  shows "tracker_inv (snd (ct_List clk rng tab q proto page pageSize t))"
proof -
  have "tracker_inv (dropStalled clk rng (clk (ct_tick t)) (pruneRing (clk (ct_tick t)) (t\<lparr>ct_tick := Suc (ct_tick t)\<rparr>)))"
    using dropStalled_spec[OF pruneRing_inv[OF tracker_inv_tick[OF assms(1)]] assms(2)] by blast
  then show ?thesis using ct_List_state[of clk rng tab q proto page pageSize t] assms(1) by metis
qed

lemma tracker_step_inv:
  assumes "tracker_step clk rng t u" and "range_order rng" and "tracker_inv t"
  shows "tracker_inv u"
  using assms by (induction rule: tracker_step.induct) (auto intro: inv_intros)

text \<open>
  C5: In every state the tracker can reach by its operations, in any order and with any clock: the
  history is a well-formed ring no longer than the capacity, ids are unique over the active map and
  the history together, an active record is dialing without a wrapper or active with its own
  wrapper, and a history record is closed or failed.
\<close>

theorem tracker_reachable_inv:
  assumes "tracker_reachable clk rng cap age t" and "range_order rng"
  shows "tracker_inv t \<and> length (history t) \<le> capacity t \<and> distinct (map c_id (map snd (active t) @ history t))"
proof -
  have inv: "tracker_inv t" using assms(1)
  proof (induction rule: tracker_reachable.induct)
    case reach_New
    show ?case by (rule NewConnTracker_inv)
  next
    case (reach_step t u)
    then show ?case using tracker_step_inv assms(2) by blast
  qed
  have m: "map c_id (map snd (active t)) = map fst (active t)"
    using inv by (auto simp: tracker_inv_def list_all_iff rec_ok_def)
  have "c_id ` set (history t) \<subseteq> - (fst ` set (active t))"
    using inv by (intro image_subsetI) (simp add: tracker_inv_def list_all_iff done_ok_def)
  then have "distinct (map fst (active t) @ map c_id (history t))"
    using inv by (auto simp: tracker_inv_def wf_map_def)
  then have "distinct (map c_id (map snd (active t) @ history t))" by (simp only: map_append m)
  with inv show ?thesis by (simp add: tracker_inv_def ring_inv_def)
qed

lemma sample_tracker_reachable: "tracker_reachable sample_clock (\<lambda>xs. xs) 2 time_Minute sample_tracker"
  unfolding sample_tracker_def
  by (intro reach_step[OF _ step_Done] reach_step[OF reach_New step_Begin]) (simp add: NewConnTracker_def Let_def)

theorem tracker_reachable_inv_witness: "tracker_inv sample_tracker \<and> length (active sample_tracker) = 1"
proof -
  have "length (active sample_tracker) = 1" by code_simp
  then show ?thesis using tracker_reachable_inv[OF sample_tracker_reachable range_order_id] by simp
qed

text \<open>
  C6: The history is the list a bounded log should be: pushing a record drops the expired records from
  the front, then one more if the log is full, and appends the new one; pruning drops the expired
  ones from the front.
\<close>

theorem ring_refines_list:
  assumes "ring_inv t"
  shows "history (pushRing clk r t) = hist_push (clk (ct_tick t)) (maxAge t) (capacity t) r (history t) \<and>
    history (pruneRing now t) = dropWhile (expired now (maxAge t)) (history t) \<and>
    ring_inv (pushRing clk r t) \<and> ring_inv (pruneRing now t)"
  using pushRing_refines[OF assms] pruneRing_refines[OF assms] by blast

theorem ring_refines_list_witness:
  "map c_id (history (fold (pushRing sample_clock) [zero_record\<lparr>c_id := 1, closedAt := 1000 * time_Second\<rparr>,
      zero_record\<lparr>c_id := 2, closedAt := 1000 * time_Second\<rparr>, zero_record\<lparr>c_id := 3, closedAt := 1000 * time_Second\<rparr>]
      (NewConnTracker 2 time_Minute))) = [2, 3]"
proof -
  let ?r = "\<lambda>i. zero_record\<lparr>c_id := i, closedAt := 1000 * time_Second\<rparr>"
  let ?t = "pushRing sample_clock (?r 2) (pushRing sample_clock (?r 1) (NewConnTracker 2 time_Minute))"
  have inv: "ring_inv ?t" using NewConnTracker_inv[of 2 time_Minute] pushRing_refines by (auto simp: tracker_inv_def)
  have h: "map c_id (history ?t) = [1, 2]" "hist_push (sample_clock (ct_tick ?t)) (maxAge ?t) (capacity ?t) (?r 3) (history ?t) = [?r 2, ?r 3]"
    by code_simp+
  show ?thesis using ring_refines_list[OF inv, of sample_clock "?r 3"] h by simp
qed

lemma upd_tconn_simps [simp]:
  "active (upd_tconn p f t) = active t" "history (upd_tconn p f t) = history t" "nextID (upd_tconn p f t) = nextID t"
  "capacity (upd_tconn p f t) = capacity t" "maxAge (upd_tconn p f t) = maxAge t" "length (tconns (upd_tconn p f t)) = length (tconns t)"
  "ring_inv (upd_tconn p f t) = ring_inv t" "ct_tick (upd_tconn p f t) = ct_tick t"
  by (simp_all add: upd_tconn_def history_def ring_inv_def)

lemma upd_tconn_nth: "q < length (tconns t) \<Longrightarrow> tconns (upd_tconn p f t) ! q = (if p = q then f (tconns t ! q) else tconns t ! q)"
  by (simp add: upd_tconn_def nth_list_update_lt)

lemma run_io_frame:
  "active (run_io ios t) = active t \<and> history (run_io ios t) = history t \<and> length (tconns (run_io ios t)) = length (tconns t) \<and>
   (ring_inv (run_io ios t) = ring_inv t)"
  by (induction ios t rule: run_io.induct) (auto simp: tc_Read_def tc_Write_def Let_def)

lemma note_err_simps [simp]:
  "tc_up (note_err e tc) = tc_up tc" "tc_down (note_err e tc) = tc_down tc" "tc_closed (note_err e tc) = tc_closed tc"
  "tc_Conn (note_err e tc) = tc_Conn tc"
  "tc_firstErr (note_err e tc) = (if tc_firstErr tc = None \<and> \<not> isBenignCloseErr e then e else tc_firstErr tc)"
  by (simp_all add: note_err_def)

lemma run_io_counters:
  assumes "p < length (tconns t)" and "wrap64 (tc_up (tconns t ! p)) = tc_up (tconns t ! p)"
    and "wrap64 (tc_down (tconns t ! p)) = tc_down (tconns t ! p)"
  shows "let tc = tconns (run_io ios t) ! p; tc0 = tconns t ! p in
    tc_up tc = wrap64 (tc_up tc0 + io_up p ios) \<and> tc_down tc = wrap64 (tc_down tc0 + io_down p ios) \<and>
    tc_firstErr tc = (if tc_firstErr tc0 = None then io_err p ios else tc_firstErr tc0) \<and>
    tc_id tc = tc_id tc0 \<and> tc_closed tc = tc_closed tc0"
  using assms
proof (induction ios t rule: run_io.induct)
  case (1 t)
  then show ?case by simp
next
  case (2 q n e ios t)
  show ?case using "2.IH" "2.prems"
    by (auto simp: tc_Read_def Let_def upd_tconn_nth wrap64_add wrap64_add_right ac_simps isBenignCloseErr_def split: if_splits)
next
  case (3 q n e ios t)
  show ?case using "3.IH" "3.prems"
    by (auto simp: tc_Write_def Let_def upd_tconn_nth wrap64_add wrap64_add_right ac_simps isBenignCloseErr_def split: if_splits)
qed

text \<open>What closing a tracked connection does.\<close>

lemma tc_Close_spec:
  assumes "tracker_inv t" and "map_of (active t) i = Some r" and "tc_id (tconns t ! p) = i" and "\<not> tc_closed (tconns t ! p)"
  shows "let tc = tconns t ! p; u = snd (tc_Close clk p berr t) in
    map_of (active u) = (map_of (active t))(i := None) \<and>
    last (history u) = r\<lparr>c_status := (if tc_firstErr tc = None then StateClosed else StateError),
      c_reason := (case tc_firstErr tc of None \<Rightarrow> c_reason r | Some e \<Rightarrow> err_Error e),
      bytesUp := tc_up tc, bytesDown := tc_down tc, closedAt := clk (ct_tick t)\<rparr> \<and> history u \<noteq> []"
proof -
  let ?tc = "tconns t ! p"
  let ?r = "r\<lparr>c_status := (if tc_firstErr ?tc = None then StateClosed else StateError),
      c_reason := (case tc_firstErr ?tc of None \<Rightarrow> c_reason r | Some e \<Rightarrow> err_Error e),
      bytesUp := tc_up ?tc, bytesDown := tc_down ?tc, closedAt := clk (ct_tick t)\<rparr>"
  let ?v = "(upd_tconn p (\<lambda>tc. tc\<lparr>tc_closed := True\<rparr>) t)\<lparr>active := AList.delete i (active t), ct_tick := Suc (ct_tick t)\<rparr>"
  have u: "snd (tc_Close clk p berr t) = pushRing clk ?r ?v"
    using assms by (auto simp: tc_Close_def Let_def finish_def ct_Now_def split: option.split)
  have "ring_inv ?v" using assms(1) by (simp add: tracker_inv_def ring_inv_def upd_tconn_def)
  from ring_log.log_last[OF this, of clk ?r] show ?thesis
    using assms(1) unfolding Let_def u
    by (simp add: frame_simps tracker_inv_def wf_map_def delete_conv')
qed

lemma run_io_inv: "tracker_inv t \<Longrightarrow> tracker_inv (run_io ios t)"
  by (induction ios t rule: run_io.induct) (auto intro: inv_intros)

text \<open>
  C16: The life of a connection, interleaved with traffic of others: after \<open>Begin\<close>, \<open>Done\<close>, any reads and
  writes, and \<open>Close\<close>, the record is no longer active and the newest history entry has its id, host
  and port, the bytes written and read on it (modulo 2^64), and the status and reason of its first
  error that is not a routine close; closing again changes nothing.
\<close>

theorem connection_accounted:
  assumes "tracker_inv t0" and "nextID t0 \<noteq> - 1" and "Begin clk meta host port t0 = (i, t1)"
    and "Done i (Some b) t1 = (cn, t2)" and "p = length (tconns t0)" and "tc_Close clk p berr (run_io ios t2) = (err, t4)"
  shows "cn = Tracked p \<and> map_of (active t4) i = None \<and> history t4 \<noteq> [] \<and>
    (let r = last (history t4) in c_id r = i \<and> c_host r = host \<and> c_port r = port \<and>
      bytesUp r = wrap64 (io_up p ios) \<and> bytesDown r = wrap64 (io_down p ios) \<and>
      c_status r = (if io_err p ios = None then StateClosed else StateError) \<and>
      c_reason r = (case io_err p ios of None \<Rightarrow> [] | Some e \<Rightarrow> err_Error e)) \<and>
    snd (tc_Close clk p berr t4) = t4"
proof -
  let ?t3 = "run_io ios t2"
  define tc0 where "tc0 = \<lparr>tc_Conn = b, tc_id = i, tc_up = 0, tc_down = 0, tc_firstErr = None, tc_closed = False\<rparr>"
  define r1 where "r1 = \<lparr>c_id = i, c_proto = m_Proto meta, c_src = m_Src meta, c_host = host, c_dstIP = m_DstIP meta, c_port = port,
     c_status = StateDialing, startedAt = clk (ct_tick t0), closedAt = 0, bytesUp = 0, bytesDown = 0, c_reason = [], c_live = None\<rparr>"
  have t1: "map_of (active t1) i = Some r1" "tconns t1 = tconns t0"
    using assms(3) by (auto simp: Begin_def ct_Now_def Let_def update_conv' r1_def)
  have inv1: "tracker_inv t1" using Begin_inv[OF assms(1,2)] assms(3) by (metis snd_conv)
  have d: "cn = Tracked p" "map_of (active t2) i = Some (r1\<lparr>c_status := StateActive, c_live := Some p\<rparr>)" "tconns t2 = tconns t0 @ [tc0]"
    using t1 assms(4,5) by (auto simp: Done_def Let_def update_conv' tc0_def)
  have inv3: "tracker_inv ?t3" using run_io_inv Done_inv[OF inv1] assms(4) by (metis snd_conv)
  have p2: "p < length (tconns t2)" "tconns t2 ! p = tc0" using d(3) assms(5) by simp_all
  have tc: "tc_up (tconns ?t3 ! p) = wrap64 (io_up p ios)" "tc_down (tconns ?t3 ! p) = wrap64 (io_down p ios)"
    "tc_firstErr (tconns ?t3 ! p) = io_err p ios" "tc_id (tconns ?t3 ! p) = i" "\<not> tc_closed (tconns ?t3 ! p)"
    using run_io_counters[OF p2(1), of ios] p2(2) by (simp_all add: Let_def tc0_def wrap64_def)
  have a3: "map_of (active ?t3) i = Some (r1\<lparr>c_status := StateActive, c_live := Some p\<rparr>)" "p < length (tconns ?t3)"
    using d(2) p2(1) run_io_frame[of ios t2] by simp_all
  have t4: "snd (tc_Close clk p berr ?t3) = t4" using assms(6) by simp
  have "tc_closed (tconns t4 ! p)"
    using tc(5) a3 tc(4) t4 by (auto simp: tc_Close_def Let_def finish_def ct_Now_def frame_simps upd_tconn_nth split: option.splits)
  then have "snd (tc_Close clk p berr t4) = t4" by (simp add: tc_Close_def Let_def)
  with tc_Close_spec[OF inv3 a3(1) tc(4,5), of clk berr] d(1) show ?thesis
    unfolding t4 Let_def tc by (simp add: r1_def split: option.split)
qed

theorem connection_accounted_witness:
  "bytesUp (last (history (snd (tc_Close sample_clock 0 None (run_io sample_io sample_tracker))))) = 10 \<and>
   bytesDown (last (history (snd (tc_Close sample_clock 0 None (run_io sample_io sample_tracker))))) = 20 \<and>
   c_status (last (history (snd (tc_Close sample_clock 0 None (run_io sample_io sample_tracker))))) = StateError"
proof -
  define t0 where "t0 = NewConnTracker 2 time_Minute"
  define t1 where "t1 = snd (Begin sample_clock sample_meta ''a.example'' 443 t0)"
  define C where "C = tc_Close sample_clock 0 None (run_io sample_io sample_tracker)"
  have b: "Begin sample_clock sample_meta ''a.example'' 443 t0 = (1, t1)"
    by (simp add: t1_def prod_eq_iff Begin_def t0_def NewConnTracker_def ct_Now_def Let_def)
  have d: "Done 1 (Some 7) t1 = (fst (Done 1 (Some 7) t1), sample_tracker)"
    by (simp add: prod_eq_iff sample_tracker_def t1_def t0_def)
  have n: "nextID t0 \<noteq> - 1" "0 = length (tconns t0)" "tracker_inv t0"
    by (simp_all add: t0_def NewConnTracker_inv) (simp_all add: NewConnTracker_def Let_def)
  have io: "wrap64 (io_up 0 sample_io) = 10" "wrap64 (io_down 0 sample_io) = 20" "io_err 0 sample_io \<noteq> None" by code_simp+
  have c: "tc_Close sample_clock 0 None (run_io sample_io sample_tracker) = (fst C, snd C)" by (simp add: C_def)
  from connection_accounted[OF n(3,1) b d n(2) c] io show ?thesis
    unfolding C_def[symmetric] Let_def by simp
qed

lemma list_state_inv: "tracker_inv t \<Longrightarrow> range_order rng \<Longrightarrow> tracker_inv (list_state clk rng t)"
  unfolding list_state_def using dropStalled_spec pruneRing_inv tracker_inv_tick by blast

lemma list_state_active:
  assumes "tracker_inv t" and "range_order rng"
  shows "set (active (list_state clk rng t)) = {kv \<in> set (active t). \<not> stalled (clk (ct_tick t)) t (snd kv)}"
  using dropStalled_spec[OF pruneRing_inv[OF tracker_inv_tick[OF assms(1)]] assms(2), of clk "clk (ct_tick t)" "clk (ct_tick t)" "Suc (ct_tick t)"]
  by (simp add: list_state_def frame_simps stalled_def)

lemma list_state_tconns:
  assumes "tracker_inv t" and "range_order rng"
  shows "tconns (list_state clk rng t) = tconns t"
proof -
  let ?u = "pruneRing (clk (ct_tick t)) (t\<lparr>ct_tick := Suc (ct_tick t)\<rparr>)"
  have "tconns (fold (drop_one clk now) kvs u) = tconns u" for now kvs u
    by (induction kvs arbitrary: u) (simp_all add: drop_one_frame)
  then show ?thesis by (simp add: list_state_def dropStalled_def frame_simps)
qed

lemma toView_cong: "tconns t = tconns u \<Longrightarrow> toView t = toView u"
proof -
  assume "tconns t = tconns u"
  then have "tc_bytes t = tc_bytes u" by (simp add: fun_eq_iff tc_bytes_def)
  then show ?thesis unfolding toView_def[abs_def] by (simp only:)
qed

lemma tab_records_distinct:
  assumes "tracker_inv t" and "range_order rng"
  shows "distinct (map c_id (tab_records rng tab t))"
proof -
  have "map c_id (map snd (rng (active t))) = map fst (rng (active t))"
    using assms range_order_set[OF assms(2), of "active t"] by (auto simp: tracker_inv_def list_all_iff rec_ok_def)
  moreover have "distinct (map fst (rng (active t)))"
    using assms by (simp add: range_order_distinct tracker_inv_def wf_map_def)
  ultimately have "distinct (map c_id (map snd (rng (active t))))" by (simp only:)
  moreover have "distinct (map c_id (history t))" using assms(1) by (simp add: tracker_inv_def)
  ultimately show ?thesis unfolding tab_records_def by presburger
qed

lemma ct_List_ok:
  assumes "tab = ''active'' \<or> tab = ''history''" and "1 \<le> page" and "1 \<le> pageSize" and "pageSize \<le> 200"
    and "(page - 1) * pageSize \<le> max_int64 - 200"
  shows "ct_List clk rng tab q proto page pageSize t =
    (let u = list_state clk rng t; recs = ct_select q proto (tab_records rng tab u)
     in (Inr (map (toView u (clk (ct_tick t))) (take (nat pageSize) (drop (nat ((page - 1) * pageSize)) recs)), int (length recs)), u))"
proof -
  have g: "(tab \<noteq> ''active'' \<and> tab \<noteq> ''history'') = False" "(page < 1) = False" "(pageSize < 1 \<or> pageSize > 200) = False"
    using assms by auto
  show ?thesis
    unfolding ct_List_def g if_False ct_Now_def list_state_def tab_records_def Let_def prod.case ct_page_spec[OF assms(2-5)] sum.case ..
qed

lemma ct_select_sorted:
  assumes "distinct (map c_id rs)"
  shows "sorted_wrt rec_less (ct_select q proto rs)"
  using assms by (auto simp: ct_select_def Let_def distinct_map_filter intro!: sort_rec_key)

lemma sorted_rec_unique:
  assumes "distinct (map c_id xs)" and "mset ys = mset xs" and "sorted_wrt rec_less xs" and "sorted_wrt rec_less ys"
  shows "ys = xs"
proof -
  have weak: "sorted_wrt (\<lambda>a b. \<not> rec_less b a) zs" if "sorted_wrt rec_less zs" for zs
    using that by (rule sorted_wrt_mono_rel[rotated]) (auto simp: rec_less_key)
  show ?thesis
    using sort_rec_unique[OF assms(1,2) weak[OF assms(4)]] sort_rec_unique[OF assms(1) refl weak[OF assms(3)]] by simp
qed

text \<open>
  A valid page request returns that page of the records of the tab that match both filters, latest
  start first and higher id first among equal starts, with their total number; the arithmetic stays
  exact as long as the first index of the page does.
\<close>

theorem List_page:
  assumes "tracker_inv t" and "range_order rng" and "tab = ''active'' \<or> tab = ''history''" and "1 \<le> page" and "1 \<le> pageSize"
    and "pageSize \<le> 200" and "(page - 1) * pageSize \<le> max_int64 - 200"
  shows "\<exists>u recs. tracker_inv u \<and> sorted_wrt rec_less recs \<and>
    mset recs = filter_mset (\<lambda>r. (q = [] \<or> query_match q r) \<and> (proto = [] \<or> c_proto r = proto)) (mset (tab_records rng tab u)) \<and>
    ct_List clk rng tab q proto page pageSize t =
      (Inr (map (toView u (clk (ct_tick t))) (take (nat pageSize) (drop (nat ((page - 1) * pageSize)) recs)), int (length recs)), u)"
proof -
  let ?u = "list_state clk rng t"
  let ?recs = "ct_select q proto (tab_records rng tab ?u)"
  have inv: "tracker_inv ?u" by (rule list_state_inv[OF assms(1,2)])
  show ?thesis
    by (rule exI[of _ ?u], rule exI[of _ ?recs])
      (simp only: inv ct_select_sorted[OF tab_records_distinct[OF inv assms(2)]] ct_select_mset ct_List_ok[OF assms(3-7)] Let_def)
qed

theorem List_page_witness:
  "snd (projr (fst (ct_List sample_clock (\<lambda>xs. xs) ''active'' [] [] 1 50 sample_tracker))) = 1"
proof -
  have inv: "tracker_inv sample_tracker"
    unfolding sample_tracker_def by (intro Done_inv Begin_inv NewConnTracker_inv) (simp add: NewConnTracker_def Let_def)
  have h: "''active'' = ''active'' \<or> ''active'' = ''history''" "(1 :: int) \<le> 1" "(1 :: int) \<le> 50" "(50 :: int) \<le> 200"
    "(1 - 1) * 50 \<le> max_int64 - 200" by (simp_all add: max_int64_def)
  from List_page[OF inv range_order_id h, of "[]" "[]" sample_clock]
  obtain u recs where m: "mset recs = mset (tab_records (\<lambda>xs. xs) ''active'' u)"
    and e: "snd (ct_List sample_clock (\<lambda>xs. xs) ''active'' [] [] 1 50 sample_tracker) = u"
      "snd (projr (fst (ct_List sample_clock (\<lambda>xs. xs) ''active'' [] [] 1 50 sample_tracker))) = int (length recs)"
    by (auto simp: filter_mset_True)
  have "length (active (snd (ct_List sample_clock (\<lambda>xs. xs) ''active'' [] [] 1 50 sample_tracker))) = 1" by code_simp
  moreover have "length recs = length (active u)"
    using arg_cong[OF m, of size] by (simp add: tab_records_def)
  ultimately show ?thesis using e by simp
qed

text \<open>
  What the active tab shows does not depend on the order in which Go visits the map of active
  connections, nor on the sorting algorithm: any two orders give the same answer, and any list of
  the selected records that is in order is that answer's list.
\<close>

theorem List_order_independent:
  assumes "tracker_inv t" and "range_order rng1" and "range_order rng2" and "1 \<le> page" and "1 \<le> pageSize"
    and "pageSize \<le> 200" and "(page - 1) * pageSize \<le> max_int64 - 200"
  shows "fst (ct_List clk rng1 ''active'' q proto page pageSize t) = fst (ct_List clk rng2 ''active'' q proto page pageSize t)"
proof -
  let ?u = "\<lambda>rng. list_state clk rng t"
  let ?r = "\<lambda>rng. tab_records rng ''active'' (?u rng)"
  have d: "distinct (map c_id (?r rng))" if "range_order rng" for rng
    by (rule tab_records_distinct[OF list_state_inv[OF assms(1) that] that])
  have s: "set (?r rng) = snd ` {kv \<in> set (active t). \<not> stalled (clk (ct_tick t)) t (snd kv)}" if "range_order rng" for rng
    using list_state_active[OF assms(1) that] range_order_set[OF that] by (simp add: tab_records_def)
  have "distinct (?r rng1)" "distinct (?r rng2)" "set (?r rng1) = set (?r rng2)"
    using d[OF assms(2)] d[OF assms(3)] s[OF assms(2)] s[OF assms(3)] by (auto simp: distinct_map)
  then have m: "mset (?r rng1) = mset (?r rng2)" by (simp add: set_eq_iff_mset_eq_distinct)
  let ?c = "\<lambda>rng. ct_select q proto (?r rng)"
  have "distinct (map c_id (?c rng))" if "range_order rng" for rng
    using d[OF that] by (auto simp: ct_select_def Let_def distinct_map intro: inj_on_subset)
  moreover have "mset (?c rng1) = mset (?c rng2)" by (simp add: ct_select_mset m)
  moreover have "sorted_wrt rec_less (?c rng)" if "range_order rng" for rng by (rule ct_select_sorted[OF d[OF that]])
  ultimately have e: "?c rng1 = ?c rng2" using sorted_rec_unique assms(2,3) by metis
  have v: "toView (?u rng1) = toView (?u rng2)"
    by (rule toView_cong) (simp add: list_state_tconns assms)
  show ?thesis using ct_List_ok[of "''active''", OF _ assms(4-7)] e v by (simp add: Let_def)
qed

theorem List_order_independent_witness:
  "fst (ct_List sample_clock (\<lambda>xs. xs) ''active'' [] [] 1 50 sample_tracker) = fst (ct_List sample_clock rev ''active'' [] [] 1 50 sample_tracker)"
proof -
  have inv: "tracker_inv sample_tracker"
    unfolding sample_tracker_def by (intro Done_inv Begin_inv NewConnTracker_inv) (simp add: NewConnTracker_def Let_def)
  have r: "range_order rev" by (simp add: range_order_def)
  show ?thesis by (rule List_order_independent[OF inv range_order_id r]) (simp_all add: max_int64_def)
qed

text \<open>
  A dial that is still in progress after \<open>maxAge\<close> leaves the active map at the next look at it, and
  when it completes later its connection is handed out unwrapped and no record comes back; records
  that are not stalled stay.
\<close>

theorem stalled_dial_is_dropped:
  assumes "tracker_inv t" and "range_order rng" and "map_of (active t) i = Some r"
  shows "let u = dropStalled clk rng now t in
    if stalled now t r then map_of (active u) i = None \<and> fst (Done i (Some b) u) = PlainConn b \<and> active (snd (Done i (Some b) u)) = active u
    else map_of (active u) i = Some r"
proof -
  let ?u = "dropStalled clk rng now t"
  have spec: "tracker_inv ?u" "set (active ?u) = {kv \<in> set (active t). \<not> stalled now t (snd kv)}"
    using dropStalled_spec[OF assms(1,2)] by auto
  have wf: "wf_map (active t)" "wf_map (active ?u)" using assms(1) spec(1) by (auto simp: tracker_inv_def)
  have in_t: "(i, r') \<in> set (active t) \<longleftrightarrow> r' = r" for r' using map_of_in_set[OF wf(1)] assms(3) by auto
  have "map_of (active ?u) i = (if stalled now t r then None else Some r)"
  proof (cases "stalled now t r")
    case True
    then have "(i, r') \<notin> set (active ?u)" for r' using spec(2) in_t by auto
    then show ?thesis using True map_of_SomeD by (metis option.exhaust)
  next
    case False
    then have "(i, r) \<in> set (active ?u)" using spec(2) in_t by auto
    then show ?thesis using False map_of_in_set[OF wf(2)] by simp
  qed
  then show ?thesis by (simp add: Let_def Done_def)
qed

theorem stalled_dial_is_dropped_witness:
  "map_of (active (dropStalled sample_clock (\<lambda>xs. xs) (2000 * time_Second)
     (snd (Begin sample_clock sample_meta ''a.example'' 443 (NewConnTracker 2 time_Minute))))) 1 = None"
proof -
  define t where "t = snd (Begin sample_clock sample_meta ''a.example'' 443 (NewConnTracker 2 time_Minute))"
  have inv: "tracker_inv t" unfolding t_def by (intro Begin_inv NewConnTracker_inv) (simp add: NewConnTracker_def Let_def)
  obtain r where r: "map_of (active t) 1 = Some r" "stalled (2000 * time_Second) t r"
    by (simp add: t_def Begin_def ct_Now_def NewConnTracker_def Let_def stalled_def sample_clock_def time_units time_Sub_def max_int64_def min_int64_def)
  from stalled_dial_is_dropped[OF inv range_order_id r(1), of sample_clock "2000 * time_Second"] r(2) show ?thesis
    by (simp add: t_def Let_def)
qed

lemma count_fold:
  "map_of (fold (\<lambda>r m. AList.update (c_proto r) ((case map_of m (c_proto r) of None \<Rightarrow> 0 | Some n \<Rightarrow> n) + 1) m) rs m) p =
    (let n = int (length (filter (\<lambda>r. c_proto r = p) rs)) in
     if n = 0 then map_of m p else Some ((case map_of m p of None \<Rightarrow> 0 | Some k \<Rightarrow> k) + n))"
  by (induction rs arbitrary: m) (auto simp: update_conv' Let_def split: option.splits)

text \<open>
  \<open>ActiveByProto\<close> counts, for each protocol, the active records that are not stalled dials.
\<close>

theorem ActiveByProto_counts:
  assumes "tracker_inv t" and "range_order rng"
  shows "let m = fst (ActiveByProto clk rng t); live = filter (\<lambda>kv. \<not> stalled (clk (ct_tick t)) t (snd kv)) (active t);
             n = int (length (filter (\<lambda>kv. c_proto (snd kv) = p) live))
    in map_of m p = (if n = 0 then None else Some n)"
proof -
  let ?t = "t\<lparr>ct_tick := Suc (ct_tick t)\<rparr>"
  let ?u = "dropStalled clk rng (clk (ct_tick t)) ?t"
  let ?live = "filter (\<lambda>kv. \<not> stalled (clk (ct_tick t)) t (snd kv)) (active t)"
  have spec: "tracker_inv ?u" "set (active ?u) = set ?live"
    using dropStalled_spec[OF tracker_inv_tick[OF assms(1)] assms(2), of clk "clk (ct_tick t)" "Suc (ct_tick t)"]
    by (auto simp: stalled_def)
  have "distinct (active ?u)" "distinct ?live"
    using assms(1) spec(1) by (auto simp: tracker_inv_def wf_map_def distinct_map)
  then have "mset (active ?u) = mset ?live" using spec(2) set_eq_iff_mset_eq_distinct by blast
  then have "mset (rng (active ?u)) = mset ?live" using assms(2) by (simp add: range_order_def)
  then have "length (filter (\<lambda>kv. c_proto (snd kv) = p) (rng (active ?u))) = length (filter (\<lambda>kv. c_proto (snd kv) = p) ?live)"
    by (metis mset_filter size_mset)
  then have "length (filter (\<lambda>r. c_proto r = p) (map snd (rng (active ?u)))) = length (filter (\<lambda>kv. c_proto (snd kv) = p) ?live)"
    by (simp add: filter_map o_def)
  then show ?thesis by (simp add: ActiveByProto_def ct_Now_def Let_def count_fold)
qed

theorem ActiveByProto_counts_witness: "map_of (fst (ActiveByProto sample_clock (\<lambda>xs. xs) sample_tracker)) ''http'' = Some 1"
proof -
  have inv: "tracker_inv sample_tracker"
    unfolding sample_tracker_def by (intro Done_inv Begin_inv NewConnTracker_inv) (simp add: NewConnTracker_def Let_def)
  have "length (filter (\<lambda>kv. c_proto (snd kv) = ''http'')
      (filter (\<lambda>kv. \<not> stalled (sample_clock (ct_tick sample_tracker)) sample_tracker (snd kv)) (active sample_tracker))) = 1" by code_simp
  then show ?thesis using ActiveByProto_counts[OF inv range_order_id, of sample_clock "''http''"] unfolding Let_def by (simp only:) simp
qed

text \<open>
  The page arithmetic overflows: the largest page number, with 200 records per page, gives a negative
  first index, and the slice panics, whatever the tracker holds.
\<close>

theorem List_overflow_panics:
  "fst (ct_List clk rng ''history'' q proto max_int64 200 t) = Inl (Panic ''slice bounds out of range'')"
proof -
  have "(max_int64 < 1) = False" by (simp add: max_int64_def)
  then show ?thesis by (simp add: ct_List_def ct_Now_def Let_def ct_page_overflow)
qed

end
