(* ===== verification/Web.thy ===== *)
theory Web
  imports Status ConntrackFacts Dns "HOL-Library.List_Lexorder"
begin

text \<open>
  The health server: \<open>health.go\<close> (liveness, readiness, \<open>/api/status\<close>, the probe of the SSH port), \<open>webui.go\<close> (the connection list and the embedded
  pages) and \<open>tcpinfo.go\<close>, \<open>tcpinfo_linux.go\<close>, \<open>tcpinfo_other.go\<close> (kernel counters of the tunnel connection). A request is its method, Host, path and query as
  \<open>net/http\<close> parsed them; a response is its code, the headers set and its body, JSON as a tree. The dialer is
  what its methods answer, \<open>Connected\<close> possibly differently at each call.
\<close>

section \<open>Model: kernel counters\<close>

record tcp_info =
  ti_Rtt :: int
  ti_Min_rtt :: int
  ti_Rttvar :: int
  ti_Total_retrans :: int
  ti_Snd_cwnd :: int
  ti_Bytes_sent :: int
  ti_Bytes_received :: int
  ti_Last_data_recv :: int
  ti_Last_ack_recv :: int

record tcpStats =
  RTTMs :: float64
  MinRTTMs :: float64
  RTTVarMs :: float64
  TotalRetrans :: int
  Cwnd :: int
  BytesSent :: int
  BytesReceived :: int
  LastDataRecvS :: float64
  LastAckRecvS :: float64

text \<open>
  \<open>readTCPStats\<close>: whether there is a raw connection, the error of \<open>Control\<close>, and the error and the result of the
  socket option call inside it.
\<close>

definition readTCPStats :: "bool \<Rightarrow> goerr option \<Rightarrow> goerr option \<times> tcp_info option \<Rightarrow> tcpStats option" where
  "readTCPStats rc control sockopt =
     (if \<not> rc then None
      else if control \<noteq> None then None
      else case sockopt of
             (None, Some info) \<Rightarrow>
               Some \<lparr>RTTMs = fl_div (fl_of_int (ti_Rtt info)) (fl_of_int 1000), MinRTTMs = fl_div (fl_of_int (ti_Min_rtt info)) (fl_of_int 1000),
                     RTTVarMs = fl_div (fl_of_int (ti_Rttvar info)) (fl_of_int 1000), TotalRetrans = ti_Total_retrans info,
                     Cwnd = ti_Snd_cwnd info, BytesSent = ti_Bytes_sent info, BytesReceived = ti_Bytes_received info,
                     LastDataRecvS = fl_div (fl_of_int (ti_Last_data_recv info)) (fl_of_int 1000000),
                     LastAckRecvS = fl_div (fl_of_int (ti_Last_ack_recv info)) (fl_of_int 1000000)\<rparr>
           | _ \<Rightarrow> None)"

definition readTCPStats_other :: "tcpStats option" where
  "readTCPStats_other = None"

section \<open>Model: responses\<close>

datatype json = JNull | JBool bool | JInt int | JFloat float64 | JStr string | JArr "json list" | JObj "(string \<times> json) list"

datatype body = Text string | Json json

record http_response =
  rsp_code :: int
  rsp_header :: "(string \<times> string) list"
  rsp_body :: body

text \<open>\<open>http.Error\<close>: it replaces \<open>Content-Type\<close> and sets \<open>nosniff\<close>.\<close>

definition http_Error :: "string \<Rightarrow> int \<Rightarrow> http_response" where
  "http_Error msg code =
     \<lparr>rsp_code = code, rsp_header = [(''Content-Type'', ''text/plain; charset=utf-8''), (''X-Content-Type-Options'', ''nosniff'')],
      rsp_body = Text (msg @ [CHR 0x0A])\<rparr>"

definition json_response :: "json \<Rightarrow> http_response" where
  "json_response j = \<lparr>rsp_code = 200, rsp_header = [(''Content-Type'', ''application/json; charset=utf-8'')], rsp_body = Json j\<rparr>"

definition plain_response :: "int \<Rightarrow> string \<Rightarrow> http_response" where
  "plain_response code msg = \<lparr>rsp_code = code, rsp_header = [], rsp_body = Text msg\<rparr>"

record web_request =
  wr_Method :: string
  wr_Host :: string
  wr_Path :: string
  wr_Query :: "(string \<times> string) list"

definition query_Get :: "(string \<times> string) list \<Rightarrow> string \<Rightarrow> string" where
  "query_Get q k = (case map_of q k of Some v \<Rightarrow> v | None \<Rightarrow> [])"

section \<open>Model: the connection list\<close>

fun state_text :: "ConnState \<Rightarrow> string" where
  "state_text StateDialing = ''dialing''"
| "state_text StateActive = ''active''"
| "state_text StateClosed = ''closed''"
| "state_text StateError = ''error''"

definition view_json :: "ConnView \<Rightarrow> json" where
  "view_json v =
     JObj [(''id'', JInt (uint (v_ID v))), (''proto'', JStr (v_Proto v)), (''src'', JStr (v_Src v)), (''host'', JStr (v_Host v)),
       (''dst_ip'', JStr (v_DstIP v)), (''port'', JInt (v_Port v)), (''status'', JStr (state_text (v_Status v))), (''started_at'', JInt (v_StartedAt v)),
       (''duration_ms'', JInt (v_DurationMs v)), (''bytes_up'', JInt (v_BytesUp v)), (''bytes_down'', JInt (v_BytesDown v)), (''reason'', JStr (v_Reason v))]"

definition connectionsResponse :: "int \<Rightarrow> int \<Rightarrow> int \<Rightarrow> ConnView list \<Rightarrow> json" where
  "connectionsResponse tot page pageSize items =
     JObj [(''total'', JInt tot), (''page'', JInt page), (''page_size'', JInt pageSize), (''items'', JArr (map view_json items))]"

text \<open>A numeric query parameter with its default; \<open>None\<close> is an invalid one. The upper bound is \<open>None\<close> when there is none.\<close>

definition query_int :: "string \<Rightarrow> int \<Rightarrow> int option \<Rightarrow> int option" where
  "query_int v dflt upper =
     (if v = [] then Some dflt
      else case Atoi v of
             (p, Some e) \<Rightarrow> None
           | (p, None) \<Rightarrow> if p < 1 \<or> (case upper of Some u \<Rightarrow> p > u | None \<Rightarrow> False) then None else Some p)"

text \<open>\<open>handleConnections\<close>; a response \<open>None\<close> is a panic of the handler, which aborts the connection.\<close>

definition handleConnections ::
    "clock \<Rightarrow> active_order \<Rightarrow> ConnTracker option \<Rightarrow> web_request \<Rightarrow> http_response option \<times> ConnTracker option" where
  "handleConnections clk rng tracker r =
     (if wr_Method r \<noteq> ''GET'' then (Some (http_Error ''method not allowed'' 405), tracker)
      else
        let tab = (if query_Get (wr_Query r) ''tab'' = [] then ''active'' else query_Get (wr_Query r) ''tab'') in
        case query_int (query_Get (wr_Query r) ''page'') 1 None of
          None \<Rightarrow> (Some (http_Error ''invalid page'' 400), tracker)
        | Some page \<Rightarrow>
            (case query_int (query_Get (wr_Query r) ''page_size'') 50 (Some 200) of
               None \<Rightarrow> (Some (http_Error ''invalid page_size'' 400), tracker)
             | Some pageSize \<Rightarrow>
                 (case tracker of
                    None \<Rightarrow> (Some (json_response (connectionsResponse 0 page pageSize [])), None)
                  | Some t \<Rightarrow>
                      (case ct_List clk rng tab (query_Get (wr_Query r) ''q'') (query_Get (wr_Query r) ''proto'') page pageSize t of
                         (Inl (Panic m), t) \<Rightarrow> (None, Some t)
                       | (Inl err, t) \<Rightarrow> (Some (http_Error (err_Error err) 400), Some t)
                       | (Inr (items, tot), t) \<Rightarrow> (Some (json_response (connectionsResponse tot page pageSize items)), Some t)))))"

section \<open>Model: the embedded pages\<close>

text \<open>\<open>filepath.Ext\<close>: the suffix from the last dot of the last element on.\<close>

definition Ext :: "string \<Rightarrow> string" where
  "Ext path =
     (let elem = rev (takeWhile (\<lambda>c. c \<noteq> CHR ''/'') (rev path)) in
      case LastIndexByte elem CHR ''.'' of Some i \<Rightarrow> drop i elem | None \<Rightarrow> [])"

text \<open>The embedded files and the content types by extension are parameters.\<close>

definition handleUI :: "(string \<Rightarrow> string option) \<Rightarrow> (string \<Rightarrow> string) \<Rightarrow> web_request \<Rightarrow> http_response" where
  "handleUI uiFS TypeByExtension r =
     (let path = (if wr_Path r = ''/'' then ''/index.html'' else wr_Path r);
          name = TrimPrefix path ''/''
      in if name = [] then http_Error ''404 page not found'' 404
         else case uiFS (''ui/'' @ name) of
                None \<Rightarrow> http_Error ''404 page not found'' 404
              | Some data \<Rightarrow>
                  \<lparr>rsp_code = 200,
                   rsp_header = (let ct = TypeByExtension (Ext name) in if ct \<noteq> [] then [(''Content-Type'', ct)] else []),
                   rsp_body = Text data\<rparr>)"

section \<open>Model: the health server\<close>

definition probeInterval :: duration where
  "probeInterval = 30 * time_Second"

definition probeTimeout :: duration where
  "probeTimeout = 3 * time_Second"

record sshProbe =
  pr_reachable :: bool
  pr_rttMs :: int
  pr_at :: time
  pr_fromSession :: bool

text \<open>
  The dialer: \<open>Connected\<close> at the call that the handler numbers \<open>n\<close>; \<open>Status\<close> and \<open>TunnelTCPStats\<close> of a dialer that has them.
\<close>

record dialer_view =
  dv_Connected :: "nat \<Rightarrow> bool"
  dv_Status :: "tunnelStatus option"
  dv_TunnelTCPStats :: "tcpStats option option"

record HealthServer =
  hv_sshHost :: string
  hv_sshPort :: int
  hv_probe :: sshProbe
  hv_allowedHosts :: "string list"
  hv_started :: bool
  hv_done :: bool
  hv_dnsStatus :: bool

text \<open>\<open>IP.IsUnspecified\<close>.\<close>

definition net_IsUnspecified :: "net_IP \<Rightarrow> bool" where
  "net_IsUnspecified ip \<longleftrightarrow> ip = replicate 10 0 @ [255, 255, 0, 0, 0, 0] \<or> ip = replicate 4 0 \<or> ip = replicate 16 0"

definition listen_host :: "string \<Rightarrow> string list" where
  "listen_host listen =
     (case SplitHostPort listen of
        Inl e \<Rightarrow> []
      | Inr (host, port) \<Rightarrow>
          if host = [] then []
          else case net_ParseIP host of
                 None \<Rightarrow> [normalizeHost host]
               | Some ip \<Rightarrow> if net_IsUnspecified ip then [] else [normalizeHost host])"

definition NewHealthServer :: "string \<Rightarrow> string \<Rightarrow> int \<Rightarrow> goerr option \<Rightarrow> goerr + HealthServer" where
  "NewHealthServer listen sshHost sshPort listenErr =
     (case listenErr of
        Some err \<Rightarrow> Inl err
      | None \<Rightarrow>
          Inr \<lparr>hv_sshHost = sshHost, hv_sshPort = sshPort,
               hv_probe = \<lparr>pr_reachable = False, pr_rttMs = 0, pr_at = 0, pr_fromSession = False\<rparr>,
               hv_allowedHosts = [''localhost'', ''127.0.0.1'', ''::1''] @ listen_host listen,
               hv_started = False, hv_done = False, hv_dnsStatus = False\<rparr>)"

definition AllowHosts :: "string list \<Rightarrow> HealthServer \<Rightarrow> HealthServer" where
  "AllowHosts hosts h = h\<lparr>hv_allowedHosts := hv_allowedHosts h @ map normalizeHost hosts\<rparr>"

definition SetDNSStatus :: "HealthServer \<Rightarrow> HealthServer" where
  "SetDNSStatus h = h\<lparr>hv_dnsStatus := True\<rparr>"

subsection \<open>The guard of the Web UI\<close>

definition guard_name :: "string \<Rightarrow> string" where
  "guard_name rHost =
     (let host = (case SplitHostPort rHost of Inr (hh, p) \<Rightarrow> hh | Inl e \<Rightarrow> rHost) in
      normalizeHost (TrimSuffix (TrimPrefix host ''['') '']''))"

definition ui_headers :: "(string \<times> string) list" where
  "ui_headers =
     [(''X-Content-Type-Options'', ''nosniff''), (''X-Frame-Options'', ''DENY''), (''Referrer-Policy'', ''no-referrer''),
      (''Content-Security-Policy'', [CHR ''d'', CHR ''e'', CHR ''f'', CHR ''a'', CHR ''u'', CHR ''l'', CHR ''t''] @ ''-src '' @ [CHR 0x27] @ ''self'' @ [CHR 0x27]
        @ ''; frame-ancestors '' @ [CHR 0x27] @ ''none'' @ [CHR 0x27])]"

text \<open>Headers a handler sets replace those of the guard.\<close>

definition with_headers :: "(string \<times> string) list \<Rightarrow> http_response \<Rightarrow> http_response" where
  "with_headers hs rsp = rsp\<lparr>rsp_header := filter (\<lambda>kv. fst kv \<notin> fst ` set (rsp_header rsp)) hs @ rsp_header rsp\<rparr>"

definition forbidden :: http_response where
  "forbidden = http_Error ''Host not allowed; add it to UI_ALLOWED_HOSTS'' 403"

definition uiGuard :: "HealthServer \<Rightarrow> web_request \<Rightarrow> (http_response option \<times> 's) \<Rightarrow> 's \<Rightarrow> http_response option \<times> 's" where
  "uiGuard h r next' s =
     (if guard_name (wr_Host r) \<notin> set (hv_allowedHosts h) then (Some forbidden, s)
      else (map_option (with_headers ui_headers) (fst next'), snd next'))"

subsection \<open>Handlers\<close>

definition healthHandler :: http_response where
  "healthHandler = plain_response 200 ''ok''"

text \<open>\<open>n\<close> is the number of the call of \<open>Connected\<close>, if it is made.\<close>

definition health_tunnelStatus :: "dialer_view \<Rightarrow> nat \<Rightarrow> tunnelStatus" where
  "health_tunnelStatus d n =
     (case dv_Status d of
        Some st \<Rightarrow>
          if ts_State st \<noteq> [] then st
          else plain_status (if dv_Connected d n then stateConnected else stateConnecting)
      | None \<Rightarrow> plain_status (if dv_Connected d n then stateConnected else stateConnecting))"

definition readyHandler :: "dialer_view \<Rightarrow> http_response" where
  "readyHandler d =
     (if dv_Connected d 0 then plain_response 200 ''ok''
      else let st = health_tunnelStatus d 1 in
           if ts_State st = stateNotConfigured then plain_response 503 ''not configured: SSH_HOST and SSH_USER are required''
           else plain_response 503 (''SSH not connected: '' @ ts_State st))"

text \<open>\<open>math.Round\<close> of a non-negative number, and \<open>Duration.Seconds\<close> truncated.\<close>

definition math_Round :: "float64 \<Rightarrow> int" where
  "math_Round x = (2 * fst (fl_ratio x) + snd (fl_ratio x)) div (2 * snd (fl_ratio x))"

definition fl_add :: "float64 \<Rightarrow> float64 \<Rightarrow> float64" where
  "fl_add x y = fl_round (fst (fl_ratio x) * snd (fl_ratio y) + fst (fl_ratio y) * snd (fl_ratio x), snd (fl_ratio x) * snd (fl_ratio y))"

definition Seconds_trunc :: "duration \<Rightarrow> int" where
  "Seconds_trunc d = fl_trunc (fl_add (fl_of_int (d div time_Second)) (fl_div (fl_of_int (d mod time_Second)) (fl_of_int 1000000000)))"

definition stats_json :: "tcpStats option \<Rightarrow> json" where
  "stats_json tcp =
     (case tcp of
        None \<Rightarrow> JNull
      | Some s \<Rightarrow>
          JObj [(''rtt_ms'', JFloat (RTTMs s)), (''min_rtt_ms'', JFloat (MinRTTMs s)), (''rttvar_ms'', JFloat (RTTVarMs s)),
            (''total_retrans'', JInt (TotalRetrans s)), (''cwnd'', JInt (Cwnd s)), (''bytes_sent'', JInt (BytesSent s)),
            (''bytes_received'', JInt (BytesReceived s)), (''last_data_recv_s'', JFloat (LastDataRecvS s)), (''last_ack_recv_s'', JFloat (LastAckRecvS s))])"

definition server_json :: "dnsServerStatus \<Rightarrow> json" where
  "server_json s =
     JObj [(''name'', JStr (s_Name s)), (''ok'', JInt (s_OK s)), (''fail'', JInt (s_Fail s)), (''rtt_ms'', JInt (s_RTTMs s)), (''last_ok_at'', JInt (s_LastOKAt s)),
       (''last_failed'', JBool (s_LastFailed s)), (''paused'', JBool (s_Paused s)), (''error'', JStr (s_Error s))]"

definition dns_json :: "dnsStatus option \<Rightarrow> json" where
  "dns_json dns =
     (case dns of
        None \<Rightarrow> JNull
      | Some d \<Rightarrow>
          JObj [(''mode'', JStr (Mode d)), (''degraded'', JBool (Degraded d)), (''local_fallbacks'', JInt (LocalFallbacks d)),
            (''last_fallback_at'', JInt (LastFallbackAt d)), (''servers'', JArr (map server_json (Servers d)))])"

text \<open>
  \<open>/api/status\<close>: \<open>act\<close> is the order in which the counts are summed, \<open>dns\<close> what the rule engine reports when asked, \<open>uptime\<close> the time
  since the process started. The keys of the maps are written in order.
\<close>

definition statusHandler ::
    "clock \<Rightarrow> active_order \<Rightarrow> ((string, int) gomap \<Rightarrow> (string, int) gomap) \<Rightarrow> dialer_view \<Rightarrow> dnsStatus \<Rightarrow> duration \<Rightarrow> HealthServer
     \<Rightarrow> ConnTracker option \<Rightarrow> web_request \<Rightarrow> http_response \<times> ConnTracker option" where
  "statusHandler clk rng act d dns uptime h tracker r =
     (if wr_Method r \<noteq> ''GET'' then (http_Error ''method not allowed'' 405, tracker)
      else
        let probe = hv_probe h;
            tcp = (case dv_TunnelTCPStats d of Some t \<Rightarrow> t | None \<Rightarrow> None);
            rtt = (case tcp of Some t \<Rightarrow> if pr_fromSession probe then math_Round (RTTMs t) else pr_rttMs probe | None \<Rightarrow> pr_rttMs probe);
            (counts, tracker) = (case tracker of None \<Rightarrow> ([], None) | Some t \<Rightarrow> (case ActiveByProto clk rng t of (m, t) \<Rightarrow> (m, Some t)));
            tot = sum_list (map snd (act counts));
            checkedAt = (if pr_at probe \<noteq> 0 then time_Unix (pr_at probe) else 0);
            st = health_tunnelStatus d 0;
            errText = (case ts_Err st of None \<Rightarrow> [] | Some e \<Rightarrow> err_Error e)
        in (json_response (JObj
             [(''active'', JObj (map (\<lambda>kv. (fst kv, JInt (snd kv))) (sort_key fst counts))),
              (''active_total'', JInt tot),
              (''dns'', dns_json (if hv_dnsStatus h then Some dns else None)),
              (''ssh'', JObj [(''checked_at'', JInt checkedAt), (''connected'', JBool (dv_Connected d 1)), (''error'', JStr errText),
                 (''host'', JStr (hv_sshHost h)), (''port'', JInt (hv_sshPort h)), (''reachable'', JBool (pr_reachable probe)), (''rtt_ms'', JInt rtt),
                 (''state'', JStr (ts_State st)), (''tcp'', stats_json tcp)]),
              (''uptime_s'', JInt (Seconds_trunc uptime))]), tracker))"

subsection \<open>The probe of the SSH port\<close>

definition liveSessionStats :: "dialer_view \<Rightarrow> tcpStats option" where
  "liveSessionStats d =
     (if \<not> dv_Connected d 0 then None
      else case dv_TunnelTCPStats d of Some t \<Rightarrow> t | None \<Rightarrow> None)"

text \<open>The dials of a probe are listed; \<open>now\<close> is the clock at its \<open>n\<close>-th reading.\<close>

definition runProbe ::
    "(nat \<Rightarrow> time) \<Rightarrow> (string \<Rightarrow> string \<Rightarrow> duration \<Rightarrow> goerr option) \<Rightarrow> dialer_view \<Rightarrow> HealthServer \<Rightarrow> (string \<times> string) list \<times> HealthServer" where
  "runProbe now dial d h =
     (if liveSessionStats d \<noteq> None
      then ([], h\<lparr>hv_probe := \<lparr>pr_reachable = True, pr_rttMs = 0, pr_at = now 0, pr_fromSession = True\<rparr>\<rparr>)
      else let addr = JoinHostPort (hv_sshHost h) (Itoa (hv_sshPort h));
               start = now 0;
               err = dial ''tcp4'' addr probeTimeout;
               result = \<lparr>pr_reachable = False, pr_rttMs = 0, pr_at = now 1, pr_fromSession = False\<rparr>
           in ([(''tcp4'', addr)],
               h\<lparr>hv_probe := (if err = None then result\<lparr>pr_reachable := True, pr_rttMs := Milliseconds (time_Sub (now 2) start)\<rparr> else result)\<rparr>))"

text \<open>The loop of \<open>probeLoop\<close> on what its select sees: ticks, each with the answers of that probe, until \<open>done\<close>.\<close>

datatype probe_event = ProbeTick "nat \<Rightarrow> time" "string \<Rightarrow> string \<Rightarrow> duration \<Rightarrow> goerr option" dialer_view | ProbeDone

fun probe_ticks :: "probe_event list \<Rightarrow> HealthServer \<Rightarrow> (string \<times> string) list \<times> HealthServer" where
  "probe_ticks [] h = ([], h)"
| "probe_ticks (ProbeDone # evs) h = ([], h)"
| "probe_ticks (ProbeTick now dial d # evs) h =
     (case runProbe now dial d h of (ds, h) \<Rightarrow> case probe_ticks evs h of (ds', h) \<Rightarrow> (ds @ ds', h))"

text \<open>\<open>probeLoop\<close>: one probe at once, then the ticks.\<close>

definition probeLoop ::
    "(nat \<Rightarrow> time) \<Rightarrow> (string \<Rightarrow> string \<Rightarrow> duration \<Rightarrow> goerr option) \<Rightarrow> dialer_view \<Rightarrow> probe_event list \<Rightarrow> HealthServer
     \<Rightarrow> (string \<times> string) list \<times> HealthServer" where
  "probeLoop now dial d evs h =
     (case runProbe now dial d h of (ds, h) \<Rightarrow> case probe_ticks evs h of (ds', h) \<Rightarrow> (ds @ ds', h))"

text \<open>\<open>Start\<close>: whether the server and the probe loop are started; \<open>Shutdown\<close> closes \<open>done\<close> whatever the server's own shutdown gives.\<close>

definition health_Start :: "HealthServer \<Rightarrow> bool \<times> bool \<times> HealthServer" where
  "health_Start h =
     (if hv_started h then (False, False, h) else (True, hv_sshHost h \<noteq> [], h\<lparr>hv_started := True\<rparr>))"

definition health_Shutdown :: "goerr option \<Rightarrow> HealthServer \<Rightarrow> goerr option \<times> HealthServer" where
  "health_Shutdown err h = (err, h\<lparr>hv_done := True\<rparr>)"

subsection \<open>Routing of requests\<close>

text \<open>\<open>cleanPath\<close> of \<open>net/http\<close>, for the mux.\<close>

definition cleanPath :: "string \<Rightarrow> string" where
  "cleanPath p =
     (if p = [] then ''/''
      else let p = (if hd p = CHR ''/'' then p else CHR ''/'' # p); np = Clean p
           in if HasSuffix p ''/'' \<and> np \<noteq> ''/'' then np @ ''/'' else np)"

datatype served = Redirect string | Answer http_response | Abort

definition served_of :: "http_response option \<Rightarrow> served" where
  "served_of r = (case r of Some rsp \<Rightarrow> Answer rsp | None \<Rightarrow> Abort)"

record web_env =
  we_clock :: clock
  we_order :: active_order
  we_counts :: "(string, int) gomap \<Rightarrow> (string, int) gomap"
  we_dns :: dnsStatus
  we_uptime :: duration
  we_uiFS :: "string \<Rightarrow> string option"
  we_types :: "string \<Rightarrow> string"

text \<open>The mux of \<open>NewHealthServer\<close>. The mux redirects a path that is not clean, except for CONNECT.\<close>

definition health_mux :: "web_env \<Rightarrow> dialer_view \<Rightarrow> HealthServer \<Rightarrow> web_request \<Rightarrow> ConnTracker option \<Rightarrow> served \<times> ConnTracker option" where
  "health_mux e d h r tracker =
     (if wr_Method r \<noteq> ''CONNECT'' \<and> cleanPath (wr_Path r) \<noteq> wr_Path r then (Redirect (cleanPath (wr_Path r)), tracker)
      else if wr_Path r = ''/healthz'' then (Answer healthHandler, tracker)
      else if wr_Path r = ''/readyz'' then (Answer (readyHandler d), tracker)
      else if wr_Path r = ''/api/connections'' then
        apfst served_of (uiGuard h r (handleConnections (we_clock e) (we_order e) tracker r) tracker)
      else if wr_Path r = ''/api/status'' then
        apfst served_of (uiGuard h r (apfst Some (statusHandler (we_clock e) (we_order e) (we_counts e) d (we_dns e) (we_uptime e) h tracker r)) tracker)
      else apfst served_of (uiGuard h r (Some (handleUI (we_uiFS e) (we_types e) r), tracker) tracker))"

section \<open>Specification\<close>

text \<open>The probes that are due before the loop ends, and those of them without a live session.\<close>

fun due_probes :: "probe_event list \<Rightarrow> dialer_view list" where
  "due_probes [] = []"
| "due_probes (ProbeDone # evs) = []"
| "due_probes (ProbeTick now dial d # evs) = d # due_probes evs"

definition plain_host :: "string \<Rightarrow> bool" where
  "plain_host host \<longleftrightarrow> list_all (\<lambda>c. c \<noteq> CHR ''['' \<and> c \<noteq> CHR '']'') host"

definition overflow_request :: "string \<Rightarrow> web_request" where
  "overflow_request host =
     \<lparr>wr_Method = ''GET'', wr_Host = host, wr_Path = ''/api/connections'',
      wr_Query = [(''tab'', ''history''), (''page'', ''9223372036854775807''), (''page_size'', ''200'')]\<rparr>"

definition sample_health :: HealthServer where
  "sample_health = projr (NewHealthServer ''127.0.0.1:8080'' ''vps.example'' 22 None)"

definition sample_dialer :: dialer_view where
  "sample_dialer = \<lparr>dv_Connected = \<lambda>_. True, dv_Status = Some (plain_status stateConnected), dv_TunnelTCPStats = Some None\<rparr>"

definition sample_web_env :: web_env where
  "sample_web_env = \<lparr>we_clock = sample_clock, we_order = \<lambda>xs. xs, we_counts = \<lambda>xs. xs,
     we_dns = \<lparr>Mode = ''servers'', Degraded = False, LocalFallbacks = 0, LastFallbackAt = 0, Servers = []\<rparr>, we_uptime = 0,
     we_uiFS = \<lambda>_. None, we_types = \<lambda>_. []\<rparr>"

section \<open>The guard\<close>

lemma uiGuard_refused: "guard_name (wr_Host r) \<notin> set (hv_allowedHosts h) \<Longrightarrow> uiGuard h r next' s = (Some forbidden, s)"
  by (simp add: uiGuard_def)

text \<open>
  C31: The Web UI is closed to other names. A request whose Host is not one of the allowed names gets no page and no connection data: the mux
  redirects it to the clean path, or it is refused with the fixed 403 reply, and the tracker is not even read; only the two health endpoints, which
  show no connections, answer.
\<close>

theorem ui_closed_to_other_names:
  assumes "guard_name (wr_Host r) \<notin> set (hv_allowedHosts h)"
  shows "snd (health_mux e d h r tracker) = tracker \<and>
    (fst (health_mux e d h r tracker) = Redirect (cleanPath (wr_Path r))
     \<or> fst (health_mux e d h r tracker) = Answer forbidden
     \<or> wr_Path r = ''/healthz'' \<and> fst (health_mux e d h r tracker) = Answer healthHandler
     \<or> wr_Path r = ''/readyz'' \<and> fst (health_mux e d h r tracker) = Answer (readyHandler d))"
  unfolding health_mux_def uiGuard_refused [OF assms] apfst_conv served_of_def option.case by (simp split: if_split)

lemma TrimPrefix_none: "\<not> HasPrefix s p \<Longrightarrow> TrimPrefix s p = s"
  by (simp add: TrimPrefix_def)

lemma trim_brackets: "plain_host host \<Longrightarrow> TrimSuffix (TrimPrefix host ''['') '']'' = host"
proof -
  assume p: "plain_host host"
  then have "\<not> HasPrefix host ''[''" by (cases host) (auto simp: plain_host_def HasPrefix_def)
  moreover have "\<not> suffix '']'' host" using p by (auto simp: plain_host_def suffix_def)
  ultimately show ?thesis by (simp add: TrimPrefix_none TrimSuffix_neq)
qed

lemma trim_bracketed: "TrimSuffix (TrimPrefix (''['' @ host @ '']'') ''['') '']'' = host"
  by (simp add: TrimPrefix_def HasPrefix_def TrimSuffix_append)

lemma guard_name_port:
  assumes "plain_host host" and "list_all is_digit port"
  shows "guard_name (JoinHostPort host port) = normalizeHost host"
proof -
  have "c \<notin> set port" if "c \<in> {CHR '':'', CHR ''['', CHR '']''}" for c
    using assms(2) that by (auto simp: list_all_iff is_digit_def less_eq_char_def)
  then have "SplitHostPort (JoinHostPort host port) = Inr (host, port)"
    using assms(1) by (intro SplitHostPort_JoinHostPort) (auto simp: plain_host_def list_all_iff)
  then show ?thesis by (simp add: guard_name_def trim_brackets [OF assms(1)])
qed

lemma guard_name_bracketed: "plain_host host \<Longrightarrow> guard_name (''['' @ host @ '']'') = normalizeHost host"
proof -
  assume p: "plain_host host"
  have i: "IndexByte (''['' @ host @ '']'') CHR '']'' = Some (Suc (length host))"
    using IndexByte_split [of "CHR '']''" "''['' @ host" "[]"] p by (auto simp: plain_host_def list_all_iff)
  have "\<exists>e. SplitHostPort (''['' @ host @ '']'') = Inl e"
    using i by (auto simp: SplitHostPort_def split: option.split)
  then show ?thesis using trim_bracketed [of host] by (auto simp: guard_name_def)
qed

lemma guard_name_bare: "plain_host host \<Longrightarrow> CHR '':'' \<notin> set host \<Longrightarrow> guard_name host = normalizeHost host"
  by (simp add: guard_name_def SplitHostPort_def LastIndexByte_def trim_brackets)

text \<open>
  An allowed name is answered in every spelling. The allowed names are the loopback ones, the listen host unless it is
  unspecified, and the configured ones; a request for such a name, in any case, with or without a trailing dot and a port, an IPv6
  address in brackets, passes the guard, and gets the headers that forbid framing and sniffing.
\<close>

theorem allowed_name_passes:
  assumes "NewHealthServer listen sshHost sshPort None = Inr h" and "plain_host host" and "list_all is_digit port"
    and "normalizeHost host \<in> {''localhost'', ''127.0.0.1'', ''::1''} \<union> set (listen_host listen) \<union> normalizeHost ` set hosts"
    and "wr_Host r = JoinHostPort host port \<or> wr_Host r = ''['' @ host @ '']'' \<or> wr_Host r = host \<and> CHR '':'' \<notin> set host"
  shows "uiGuard (AllowHosts hosts h) r (Some rsp, s') s = (Some (with_headers ui_headers rsp), s')"
proof -
  have "guard_name (wr_Host r) = normalizeHost host"
    using assms(2,3,5) guard_name_port guard_name_bracketed guard_name_bare by metis
  moreover have "hv_allowedHosts h = [''localhost'', ''127.0.0.1'', ''::1''] @ listen_host listen"
    using assms(1) unfolding NewHealthServer_def option.case sum.inject by auto
  then have "set (hv_allowedHosts (AllowHosts hosts h)) =
      {''localhost'', ''127.0.0.1'', ''::1''} \<union> set (listen_host listen) \<union> normalizeHost ` set hosts"
    unfolding AllowHosts_def by (simp only: HealthServer.simps set_append set_map list.set Un_assoc) auto
  ultimately have "guard_name (wr_Host r) \<in> set (hv_allowedHosts (AllowHosts hosts h))" using assms(4) by (simp only:)
  then show ?thesis by (simp add: uiGuard_def)
qed

theorem ui_closed_to_other_names_witness:
  "fst (health_mux sample_web_env sample_dialer sample_health (overflow_request ''evil.example'') None) = Answer forbidden"
proof -
  have "guard_name (wr_Host (overflow_request ''evil.example'')) \<notin> set (hv_allowedHosts sample_health)" by code_simp
  note closed = ui_closed_to_other_names [OF this, of sample_web_env sample_dialer None]
  have "cleanPath (wr_Path (overflow_request ''evil.example'')) = wr_Path (overflow_request ''evil.example'')" by code_simp
  then have "fst (health_mux sample_web_env sample_dialer sample_health (overflow_request ''evil.example'') None) \<noteq> Redirect x" for x
    by (simp add: health_mux_def served_of_def overflow_request_def uiGuard_def split: if_split option.split)
  then show ?thesis using closed by (simp add: overflow_request_def)
qed

theorem allowed_name_passes_witness:
  "uiGuard (AllowHosts [''NAS.lan.''] sample_health) (overflow_request ''nas.lan:8080'') (Some healthHandler, ()) () =
     (Some (with_headers ui_headers healthHandler), ())"
proof -
  have h: "NewHealthServer ''127.0.0.1:8080'' ''vps.example'' 22 None = Inr sample_health"
    by (simp add: sample_health_def NewHealthServer_def)
  have p: "plain_host ''nas.lan''" "list_all is_digit ''8080''" "normalizeHost ''nas.lan'' = normalizeHost ''NAS.lan.''"
    "wr_Host (overflow_request ''nas.lan:8080'') = JoinHostPort ''nas.lan'' ''8080''" by code_simp+
  have "normalizeHost ''nas.lan'' \<in> {''localhost'', ''127.0.0.1'', ''::1''} \<union> set (listen_host ''127.0.0.1:8080'') \<union> normalizeHost ` set [''NAS.lan.'']"
    unfolding p(3) by (rule UnI2) (simp only: list.set image_insert insert_iff simp_thms)
  from allowed_name_passes [OF h p(1,2) this disjI1 [OF p(4)]] show ?thesis .
qed

section \<open>Probing\<close>

lemma runProbe_cases:
  "runProbe now dial d h = (if liveSessionStats d \<noteq> None then [] else [(''tcp4'', JoinHostPort (hv_sshHost h) (Itoa (hv_sshPort h)))], snd (runProbe now dial d h))"
  "hv_sshHost (snd (runProbe now dial d h)) = hv_sshHost h" "hv_sshPort (snd (runProbe now dial d h)) = hv_sshPort h"
  "pr_fromSession (hv_probe (snd (runProbe now dial d h))) \<longleftrightarrow> liveSessionStats d \<noteq> None"
  "liveSessionStats d \<noteq> None \<Longrightarrow> pr_reachable (hv_probe (snd (runProbe now dial d h)))"
  by (simp_all add: runProbe_def Let_def)

lemma probe_ticks_dials:
  "fst (probe_ticks evs h) = replicate (length (filter (\<lambda>d. liveSessionStats d = None) (due_probes evs))) (''tcp4'', JoinHostPort (hv_sshHost h) (Itoa (hv_sshPort h)))"
proof (induction evs h rule: probe_ticks.induct)
  case (3 now dial d evs h)
  obtain ds h' where r: "runProbe now dial d h = (ds, h')" by force
  have "ds = (if liveSessionStats d \<noteq> None then [] else [(''tcp4'', JoinHostPort (hv_sshHost h) (Itoa (hv_sshPort h)))])"
    "hv_sshHost h' = hv_sshHost h" "hv_sshPort h' = hv_sshPort h"
    using runProbe_cases [where now = now and dial = dial and d = d and h = h] unfolding r by simp_all
  then show ?case using 3(1) [OF r [symmetric]] r by (simp add: split_beta)
qed simp_all

lemma probe_ticks_state:
  "due_probes evs \<noteq> [] \<Longrightarrow> pr_fromSession (hv_probe (snd (probe_ticks evs h))) = (liveSessionStats (last (due_probes evs)) \<noteq> None)
   \<and> (pr_fromSession (hv_probe (snd (probe_ticks evs h))) \<longrightarrow> pr_reachable (hv_probe (snd (probe_ticks evs h))))"
proof (induction evs h rule: probe_ticks.induct)
  case (3 now dial d evs h)
  obtain ds h' where r: "runProbe now dial d h = (ds, h')" by force
  show ?case
  proof (cases "due_probes evs")
    case Nil
    then have "snd (probe_ticks evs h') = h'" by (cases evs rule: due_probes.cases) simp_all
    then show ?thesis using runProbe_cases(4,5) [where now = now and dial = dial and d = d and h = h] Nil r by (simp add: split_beta)
  next
    case (Cons a list)
    then show ?thesis using 3(1) [OF r [symmetric]] r by (simp add: split_beta)
  qed
qed simp_all

text \<open>
  The probe leaves a live session alone. Over the life of the probe loop the SSH port is dialed, over IPv4 and at the configured
  address, once for every due probe that finds no live session with kernel counters, and never otherwise; the
  reported result is the one of the last probe, marked as taken from the session exactly when that one found it live, and then
  reachable.
\<close>

theorem probe_spares_live_session:
  "let (dials, h') = probeLoop now dial d evs h; due = d # due_probes evs in
    dials = replicate (length (filter (\<lambda>d. liveSessionStats d = None) due)) (''tcp4'', JoinHostPort (hv_sshHost h) (Itoa (hv_sshPort h)))
    \<and> pr_fromSession (hv_probe h') = (liveSessionStats (last due) \<noteq> None)
    \<and> (if liveSessionStats (last due) \<noteq> None then pr_reachable (hv_probe h') else True)"
proof -
  have "probeLoop now dial d evs h = probe_ticks (ProbeTick now dial d # evs) h" by (simp add: probeLoop_def)
  then show ?thesis
    using probe_ticks_dials [of "ProbeTick now dial d # evs" h] probe_ticks_state [of "ProbeTick now dial d # evs" h]
    by (simp add: split_beta Let_def del: probe_ticks.simps)
qed

section \<open>The connection list\<close>

lemma overflow_query:
  "query_int (query_Get (wr_Query (overflow_request host)) ''page'') 1 None = Some max_int64"
  "query_int (query_Get (wr_Query (overflow_request host)) ''page_size'') 50 (Some 200) = Some 200"
  "query_Get (wr_Query (overflow_request host)) ''tab'' = ''history''"
  by (simp only: overflow_request_def web_request.simps, code_simp)+

lemma List_overflow: "fst (ct_List clk rng ''history'' q proto max_int64 200 t) = Inl (Panic ''slice bounds out of range'')"
proof -
  have "(max_int64 < 1) = False" by (simp add: max_int64_def)
  then show ?thesis by (simp add: ct_List_def ct_Now_def Let_def ct_page_overflow)
qed

text \<open>
  C38: A page number can crash a handler. The request for page 9223372036854775807 of the history with 200 records per page passes every check of the handler, and
  the first index overflows: the handler panics and the connection is aborted, whatever the tracker holds.
\<close>

theorem connections_overflow_aborts:
  "fst (handleConnections clk rng (Some t) (overflow_request host)) = None"
proof -
  obtain r u where l: "ct_List clk rng ''history'' (query_Get (wr_Query (overflow_request host)) ''q'') (query_Get (wr_Query (overflow_request host)) ''proto'') max_int64 200 t = (r, u)"
    by force
  then have "r = Inl (Panic ''slice bounds out of range'')" using List_overflow by (metis fst_conv)
  moreover have "wr_Method (overflow_request host) = ''GET''" by (simp add: overflow_request_def)
  ultimately show ?thesis using l by (simp add: handleConnections_def overflow_query Let_def)
qed

end
