(* ===== verification/Listener.thy ===== *)
theory Listener
  imports Errors
begin

text \<open>
  \<open>listener.go\<close>: the wrappers around the proxies' TCP listeners. An \<open>Accept\<close> is a function of the
  state of the world (\<open>'s\<close>: the kernel's queue, the clock, what other goroutines did) that gives an
  error or a connection and the next state of the world, or \<open>None\<close> when it never returns. The three wrappers
  compose in the order the proxies compose them: \<open>keepAliveListener\<close> in \<open>resilientListener\<close> in \<open>limitListener\<close>.

  The connection limiter is shared by all listeners and by the connections they handed out, so its
  state (\<open>limiter_state\<close>) holds the slots in use and, per accepted connection, whether its \<open>sync.Once\<close> has run.
  Log lines are not modelled.
\<close>

section \<open>Model\<close>

record lconn =
  lc_id :: nat
  lc_tcp :: bool
  lc_keepalive :: "duration option"

type_synonym ('s, 'c) accept = "'s \<Rightarrow> ((goerr + 'c) \<times> 's) option"

definition keepAlive_Accept :: "('s, lconn) accept \<Rightarrow> ('s, lconn) accept" where
  "keepAlive_Accept acc s =
     (case acc s of
        None \<Rightarrow> None
      | Some (Inl err, s') \<Rightarrow> Some (Inl err, s')
      | Some (Inr c, s') \<Rightarrow>
          (if lc_tcp c then Some (Inr (c\<lparr>lc_keepalive := Some (30 * time_Second)\<rparr>), s') else Some (Inr c, s')))"

subsection \<open>resilientListener\<close>

text \<open>
  \<open>Close\<close>: the flag before the call, the error of closing the wrapped listener if it is reached;
  the result, the new flag and whether the wrapped listener was closed.
\<close>

definition resilient_Close :: "bool \<Rightarrow> goerr option \<Rightarrow> goerr option \<times> bool \<times> bool" where
  "resilient_Close closed base = (if closed then (None, True, False) else (base, True, True))"

definition next_delay :: "duration \<Rightarrow> duration" where
  "next_delay delay = (let delay = delay * 2 in if delay > time_Second then time_Second else delay)"

text \<open>
  \<open>closed s\<close> is the flag as the loop reads it in state \<open>s\<close>; \<open>sleep d s\<close> is the world after \<open>time.Sleep\<close>.
\<close>

partial_function (option) resilient_loop ::
    "('s \<Rightarrow> bool) \<Rightarrow> (duration \<Rightarrow> 's \<Rightarrow> 's) \<Rightarrow> ('s, 'c) accept \<Rightarrow> duration \<Rightarrow> ('s, 'c) accept" where
  "resilient_loop closed sleep acc delay s =
     (if closed s then Some (Inl ErrClosed, s)
      else case acc s of
             None \<Rightarrow> None
           | Some (Inr c, s') \<Rightarrow> Some (Inr c, s')
           | Some (Inl err, s') \<Rightarrow>
               (if errors_Is err ErrClosed then Some (Inl err, s')
                else resilient_loop closed sleep acc (next_delay delay) (sleep delay s')))"

definition resilient_Accept ::
    "('s \<Rightarrow> bool) \<Rightarrow> (duration \<Rightarrow> 's \<Rightarrow> 's) \<Rightarrow> ('s, 'c) accept \<Rightarrow> ('s, 'c) accept" where
  "resilient_Accept closed sleep acc = resilient_loop closed sleep acc (5 * time_Millisecond)"

subsection \<open>connLimiter\<close>

record limiter_state =
  slots_cap :: int
  slots_used :: int
  refused :: bool
  once_done :: "bool list"
  refused_conns :: "lconn list"

definition newConnLimiter :: "int \<Rightarrow> limiter_state option" where
  "newConnLimiter n =
     (if n \<le> 0 then None
      else Some \<lparr>slots_cap = n, slots_used = 0, refused = False, once_done = [], refused_conns = []\<rparr>)"

definition tryAcquire :: "limiter_state \<Rightarrow> bool \<times> limiter_state" where
  "tryAcquire l =
     (if slots_used l < slots_cap l then (True, l\<lparr>slots_used := slots_used l + 1\<rparr>) else (False, l))"

text \<open>Receiving from the empty channel would block for ever: \<open>None\<close>.\<close>

definition release :: "limiter_state \<Rightarrow> limiter_state option" where
  "release l = (if slots_used l = 0 then None else Some (l\<lparr>slots_used := slots_used l - 1\<rparr>))"

subsection \<open>limitListener and limitedConn\<close>

text \<open>
  One iteration of the loop in \<open>limitListener.Accept\<close>, after the wrapped listener gave connection \<open>c\<close>.
  An admitted connection is a \<open>limitedConn\<close>; its identity is its index in \<open>once_done\<close>. A
  refused connection is closed at once and kept in \<open>refused_conns\<close>.
\<close>

definition limit_admit :: "lconn \<Rightarrow> limiter_state \<Rightarrow> nat option \<times> limiter_state" where
  "limit_admit c l =
     (case tryAcquire l of
        (True, l) \<Rightarrow> (Some (length (once_done l)), l\<lparr>refused := False, once_done := once_done l @ [False]\<rparr>)
      | (False, l) \<Rightarrow> (None, l\<lparr>refused := True, refused_conns := refused_conns l @ [c]\<rparr>))"

partial_function (option) limit_Accept ::
    "('s, lconn) accept \<Rightarrow> ('s \<times> limiter_state, lconn \<times> nat) accept" where
  "limit_Accept acc w =
     (case acc (fst w) of
        None \<Rightarrow> None
      | Some (Inl err, s') \<Rightarrow> Some (Inl err, (s', snd w))
      | Some (Inr c, s') \<Rightarrow>
          (case fst (limit_admit c (snd w)) of
             Some i \<Rightarrow> Some (Inr (c, i), (s', snd (limit_admit c (snd w))))
           | None \<Rightarrow> limit_Accept acc (s', snd (limit_admit c (snd w)))))"

definition limited_Close :: "nat \<Rightarrow> limiter_state \<Rightarrow> limiter_state option" where
  "limited_Close i l =
     (if once_done l ! i then Some l
      else map_option (\<lambda>l. l\<lparr>once_done := (once_done l)[i := True]\<rparr>) (release l))"

text \<open>\<open>CloseWrite\<close> and \<open>CloseRead\<close> forward to the wrapped connection when it has the method, and hold no slot.\<close>

definition limited_CloseHalf :: "goerr option option \<Rightarrow> goerr option" where
  "limited_CloseHalf base = (case base of Some r \<Rightarrow> r | None \<Rightarrow> None)"

definition limitConns ::
    "('s, lconn) accept \<Rightarrow> limiter_state option \<Rightarrow> 's \<Rightarrow> ((goerr + lconn \<times> nat option) \<times> 's \<times> limiter_state option) option" where
  "limitConns ln limit s =
     (case limit of
        None \<Rightarrow> map_option (\<lambda>(r, s'). (map_sum id (\<lambda>c. (c, None)) r, s', None)) (ln s)
      | Some l \<Rightarrow> map_option (\<lambda>(r, s', l'). (map_sum id (\<lambda>(c, i). (c, Some i)) r, s', Some l')) (limit_Accept ln (s, l)))"

section \<open>Specification\<close>

text \<open>The world in which the base listener answers from a list of answers; then it waits for ever.\<close>

record lworld =
  lw_answers :: "(goerr + lconn) list"
  lw_slept :: "duration list"
  lw_closed :: bool

definition world_Accept :: "(lworld, lconn) accept" where
  "world_Accept w =
     (case lw_answers w of [] \<Rightarrow> None | r # rs \<Rightarrow> Some (r, w\<lparr>lw_answers := rs\<rparr>))"

definition world_sleep :: "duration \<Rightarrow> lworld \<Rightarrow> lworld" where
  "world_sleep d w = w\<lparr>lw_slept := lw_slept w @ [d]\<rparr>"

definition transient :: "goerr + 'c \<Rightarrow> bool" where
  "transient r \<longleftrightarrow> (case r of Inl e \<Rightarrow> \<not> errors_Is e ErrClosed | Inr c \<Rightarrow> False)"

definition backoff :: "nat \<Rightarrow> duration" where
  "backoff k = min time_Second (5 * time_Millisecond * 2 ^ k)"

text \<open>Connections accepted through the limiter and not closed yet.\<close>

definition open_conns :: "limiter_state \<Rightarrow> nat set" where
  "open_conns l = {i. i < length (once_done l) \<and> \<not> once_done l ! i}"

definition limiter_inv :: "limiter_state \<Rightarrow> bool" where
  "limiter_inv l \<longleftrightarrow> slots_used l = int (card (open_conns l)) \<and> slots_used l \<le> slots_cap l \<and> 0 < slots_cap l"

text \<open>
  The listeners and connections that share one limiter, interleaved: any listener may run an
  iteration of its accept loop, any connection may be closed, any number of times, by any goroutine.
\<close>

inductive limiter_step :: "limiter_state \<Rightarrow> limiter_state \<Rightarrow> bool" where
  step_admit: "limit_admit c l = (r, l') \<Longrightarrow> limiter_step l l'"
| step_close: "i < length (once_done l) \<Longrightarrow> limited_Close i l = Some l' \<Longrightarrow> limiter_step l l'"

inductive limiter_reachable :: "int \<Rightarrow> limiter_state \<Rightarrow> bool" for n where
  reach_new: "newConnLimiter n = Some l \<Longrightarrow> limiter_reachable n l"
| reach_step: "limiter_reachable n l \<Longrightarrow> limiter_step l l' \<Longrightarrow> limiter_reachable n l'"

inductive_cases limiter_stepE: "limiter_step l l'"

text \<open>Concrete worlds for the examples.\<close>

definition sample_conn :: "nat \<Rightarrow> lconn" where
  "sample_conn i = \<lparr>lc_id = i, lc_tcp = True, lc_keepalive = None\<rparr>"

definition emfile_world :: lworld where
  "emfile_world = \<lparr>lw_answers = [Inl (ErrText ''too many open files''), Inl (ErrText ''too many open files''), Inr (sample_conn 7)],
                   lw_slept = [], lw_closed = False\<rparr>"

definition busy_world :: lworld where
  "busy_world = \<lparr>lw_answers = [Inr (sample_conn 0), Inr (sample_conn 1), Inr (sample_conn 2)], lw_slept = [], lw_closed = False\<rparr>"

definition one_slot :: limiter_state where
  "one_slot = \<lparr>slots_cap = 1, slots_used = 0, refused = False, once_done = [], refused_conns = []\<rparr>"

section \<open>resilientListener\<close>

lemma next_delay_backoff: "next_delay (backoff k) = backoff (Suc k)"
  by (simp add: next_delay_def backoff_def Let_def min_def time_units)

lemma backoff_bounds: "5 * time_Millisecond \<le> backoff k \<and> backoff k \<le> time_Second"
proof -
  have "(1 :: int) \<le> 2 ^ k" by simp
  then show ?thesis by (simp add: backoff_def time_units)
qed

lemma resilient_loop_waits:
  assumes "list_all transient es" and "\<not> lw_closed w" and "lw_answers w = es"
  shows "resilient_loop lw_closed world_sleep world_Accept (backoff k) w = None"
  using assms
proof (induction es arbitrary: k w)
  case Nil
  then show ?case by (subst resilient_loop.simps) (simp add: world_Accept_def)
next
  case (Cons e es)
  then obtain err where e: "e = Inl err" "\<not> errors_Is err ErrClosed"
    by (cases e) (auto simp: transient_def)
  have "resilient_loop lw_closed world_sleep world_Accept (backoff (Suc k)) (world_sleep (backoff k) (w\<lparr>lw_answers := es\<rparr>)) = None"
    using Cons by (intro Cons.IH) (simp_all add: world_sleep_def)
  then show ?case
    using Cons e by (subst resilient_loop.simps) (simp add: world_Accept_def next_delay_backoff)
qed

lemma resilient_loop_transient:
  assumes "list_all transient es" and "\<not> transient r" and "\<not> lw_closed w" and "lw_answers w = es @ r # rest"
  shows "resilient_loop lw_closed world_sleep world_Accept (backoff k) w
    = Some (r, w\<lparr>lw_answers := rest, lw_slept := lw_slept w @ map backoff [k..<k + length es]\<rparr>)"
  using assms
proof (induction es arbitrary: k w)
  case Nil
  then show ?case
    by (subst resilient_loop.simps) (auto simp: world_Accept_def transient_def split: sum.splits)
next
  case (Cons e es)
  then obtain err where e: "e = Inl err" "\<not> errors_Is err ErrClosed"
    by (cases e) (auto simp: transient_def)
  define w' where "w' = world_sleep (backoff k) (w\<lparr>lw_answers := es @ r # rest\<rparr>)"
  have "resilient_loop lw_closed world_sleep world_Accept (backoff k) w
      = resilient_loop lw_closed world_sleep world_Accept (backoff (Suc k)) w'"
    using Cons.prems e by (subst resilient_loop.simps) (simp add: world_Accept_def next_delay_backoff w'_def)
  also have "\<dots> = Some (r, w'\<lparr>lw_answers := rest, lw_slept := lw_slept w' @ map backoff [Suc k..<Suc k + length es]\<rparr>)"
    using Cons.prems by (intro Cons.IH) (simp_all add: w'_def world_sleep_def)
  also have "\<dots> = Some (r, w\<lparr>lw_answers := rest, lw_slept := lw_slept w @ map backoff [k..<k + length (e # es)]\<rparr>)"
    by (simp add: w'_def world_sleep_def upt_conv_Cons [of k] del: upt_Suc)
  finally show ?case .
qed

text \<open>
  C24: \<open>resilientListener.Accept\<close> survives every burst of transient errors. With the listener open, after any
  number of errors other than \<open>net.ErrClosed\<close> it returns the first answer that is a connection or a
  closed listener, nothing behind that answer consumed, having slept 5 ms, 10 ms, 20 ms and so on up to one second
  between the tries; while only transient errors come it does not return at all, and a closed
  listener gives \<open>net.ErrClosed\<close> without another try.
\<close>

theorem resilient_Accept_retries:
  assumes "list_all transient es"
  shows "(\<not> transient r \<longrightarrow>
      resilient_Accept lw_closed world_sleep world_Accept \<lparr>lw_answers = es @ r # rest, lw_slept = sl, lw_closed = False\<rparr>
      = Some (r, \<lparr>lw_answers = rest, lw_slept = sl @ map (\<lambda>k. min time_Second (5 * time_Millisecond * 2 ^ k)) [0..<length es], lw_closed = False\<rparr>))
    \<and> resilient_Accept lw_closed world_sleep world_Accept \<lparr>lw_answers = es, lw_slept = sl, lw_closed = False\<rparr> = None
    \<and> resilient_Accept lw_closed world_sleep world_Accept \<lparr>lw_answers = rest, lw_slept = sl, lw_closed = True\<rparr>
      = Some (Inl ErrClosed, \<lparr>lw_answers = rest, lw_slept = sl, lw_closed = True\<rparr>)"
proof (intro conjI impI)
  have 0: "resilient_Accept lw_closed world_sleep world_Accept = resilient_loop lw_closed world_sleep world_Accept (backoff 0)"
    by (simp add: resilient_Accept_def backoff_def time_units)
  have b: "(\<lambda>k. min time_Second (5 * time_Millisecond * 2 ^ k)) = backoff" by (simp add: fun_eq_iff backoff_def)
  show "resilient_Accept lw_closed world_sleep world_Accept \<lparr>lw_answers = es @ r # rest, lw_slept = sl, lw_closed = False\<rparr>
      = Some (r, \<lparr>lw_answers = rest, lw_slept = sl @ map (\<lambda>k. min time_Second (5 * time_Millisecond * 2 ^ k)) [0..<length es], lw_closed = False\<rparr>)"
    if "\<not> transient r"
    unfolding 0 b by (subst resilient_loop_transient [OF assms that]) simp_all
  show "resilient_Accept lw_closed world_sleep world_Accept \<lparr>lw_answers = es, lw_slept = sl, lw_closed = False\<rparr> = None"
    unfolding 0 by (rule resilient_loop_waits [OF assms]) simp_all
  show "resilient_Accept lw_closed world_sleep world_Accept \<lparr>lw_answers = rest, lw_slept = sl, lw_closed = True\<rparr>
      = Some (Inl ErrClosed, \<lparr>lw_answers = rest, lw_slept = sl, lw_closed = True\<rparr>)"
    unfolding 0 by (subst resilient_loop.simps) simp
qed

theorem resilient_Accept_retries_witness:
  "resilient_Accept lw_closed world_sleep world_Accept emfile_world
     = Some (Inr (sample_conn 7), \<lparr>lw_answers = [], lw_slept = [5000000, 10000000], lw_closed = False\<rparr>)"
  using resilient_Accept_retries [of "[Inl (ErrText ''too many open files''), Inl (ErrText ''too many open files'')]"
      "Inr (sample_conn 7)" "[]" "[]"]
  by (simp add: emfile_world_def transient_def errors_Is_def time_units upt_rec)

section \<open>limitListener returns\<close>

text \<open>On a listener that answers, \<open>limitListener.Accept\<close> returns: at once with a free slot, and otherwise at the latest at the first error.\<close>

lemma limit_Accept_returns:
  "lw_answers s \<noteq> [] \<Longrightarrow> slots_used l < slots_cap l \<or> list_ex isl (lw_answers s) \<Longrightarrow> \<exists>y. limit_Accept world_Accept (s, l) = Some y"
proof (induction "lw_answers s" arbitrary: s l)
  case (Cons r rs)
  let ?s = "s\<lparr>lw_answers := rs\<rparr>"
  have a: "world_Accept s = Some (r, ?s)" using Cons.hyps(2) [symmetric] by (simp add: world_Accept_def)
  show ?case
  proof (cases r)
    case (Inl err)
    then show ?thesis by (subst limit_Accept.simps) (simp add: a)
  next
    case (Inr c)
    show ?thesis
    proof (cases "fst (limit_admit c l)")
      case None
      then have "\<not> slots_used l < slots_cap l" by (auto simp: limit_admit_def tryAcquire_def split: if_splits)
      then have ex: "list_ex isl rs" using Cons.prems Cons.hyps(2) [symmetric] Inr by simp
      then have "rs \<noteq> []" by auto
      then obtain y where "limit_Accept world_Accept (?s, snd (limit_admit c l)) = Some y"
        using Cons.hyps(1) [of ?s "snd (limit_admit c l)"] ex by auto
      then show ?thesis using None Inr by (subst limit_Accept.simps) (cases y, simp add: a)
    next
      case (Some i)
      then show ?thesis using Inr by (subst limit_Accept.simps) (simp add: a)
    qed
  qed
qed simp

section \<open>What the servers rely on\<close>

text \<open>
  The contract of the listeners the proxy servers run on: the SOCKS5 library and the HTTP accept loop
  end on any error of \<open>Accept\<close>, so an error must mean that the listener is closed.
\<close>

locale persistent_listener =
  fixes acc :: "('s, lconn) accept"
  assumes only_closed: "acc s = Some (Inl err, s') \<Longrightarrow> errors_Is err ErrClosed"
begin

lemma limited_only_closed: "limit_Accept acc w = Some (Inl err, w') \<Longrightarrow> errors_Is err ErrClosed"
proof -
  define P where "P a w y \<longleftrightarrow> (a = acc \<longrightarrow> (\<forall>err. fst y = Inl err \<longrightarrow> errors_Is err ErrClosed))"
    for a :: "('s, lconn) accept" and w :: "'s \<times> limiter_state" and y :: "(goerr + lconn \<times> nat) \<times> 's \<times> limiter_state"
  assume "limit_Accept acc w = Some (Inl err, w')"
  then have "P acc w (Inl err, w')"
  proof (rule limit_Accept.raw_induct [rotated])
    fix f and a :: "('s, lconn) accept" and w y
    assume IH: "\<And>a w y. f a w = Some y \<Longrightarrow> P a w y"
      and b: "(case a (fst w) of None \<Rightarrow> None | Some (Inl err, s') \<Rightarrow> Some (Inl err, s', snd w)
        | Some (Inr c, s') \<Rightarrow> (case fst (limit_admit c (snd w)) of None \<Rightarrow> f a (s', snd (limit_admit c (snd w)))
            | Some i \<Rightarrow> Some (Inr (c, i), s', snd (limit_admit c (snd w))))) = Some y"
    show "P a w y"
      using b IH only_closed unfolding P_def by (auto split: option.splits sum.splits prod.splits)
  qed
  then show "errors_Is err ErrClosed" by (simp add: P_def)
qed

end

lemma resilient_only_closed:
  fixes closed :: "'s \<Rightarrow> bool" and acc :: "('s, 'c) accept"
  assumes a: "resilient_Accept closed sleep acc s = Some (Inl err, s')"
  shows "errors_Is err ErrClosed"
proof -
  define P where "P (cl :: 's \<Rightarrow> bool) (sl :: duration \<Rightarrow> 's \<Rightarrow> 's) (a :: ('s, 'c) accept) (d :: duration) (s :: 's) y
      \<longleftrightarrow> (\<forall>err. fst y = Inl err \<longrightarrow> errors_Is err ErrClosed)"
    for cl sl a d s and y :: "(goerr + 'c) \<times> 's"
  from a have "resilient_loop closed sleep acc (5 * time_Millisecond) s = Some (Inl err, s')"
    by (simp add: resilient_Accept_def)
  then have "P closed sleep acc (5 * time_Millisecond) s (Inl err, s')"
  proof (rule resilient_loop.raw_induct [rotated])
    fix f cl sl a d s y
    assume IH: "\<And>cl sl a d s y. f cl sl a d s = Some y \<Longrightarrow> P cl sl a d s y"
      and b: "(if cl s then Some (Inl ErrClosed, s) else case a s of None \<Rightarrow> None
        | Some (Inl err, s') \<Rightarrow> if errors_Is err ErrClosed then Some (Inl err, s') else f cl sl a (next_delay d) (sl d s')
        | Some (Inr c, s') \<Rightarrow> Some (Inr c, s')) = Some y"
    show "P cl sl a d s y"
      using b IH unfolding P_def by (auto split: option.splits sum.splits prod.splits if_splits)
  qed
  then show "errors_Is err ErrClosed" by (simp add: P_def)
qed

interpretation resilient: persistent_listener "resilient_Accept closed sleep acc"
  for closed :: "'s \<Rightarrow> bool" and sleep :: "duration \<Rightarrow> 's \<Rightarrow> 's" and acc :: "('s, lconn) accept"
  by unfold_locales (rule resilient_only_closed)

lemma map_sum_eq_Inl: "map_sum f g x = Inl y \<longleftrightarrow> (\<exists>z. x = Inl z \<and> f z = y)"
  by (cases x) auto

text \<open>
  The listener a proxy serves on, \<open>resilientListener\<close> over \<open>keepAliveListener\<close> and, when a limit
  is set, under \<open>limitListener\<close>, reports an error only when the listener is closed, whatever the
  kernel answers and whatever the limiter holds: the accept loops of the servers, which end at the first
  error, end only at shutdown.
\<close>

theorem proxy_listener_persistent:
  assumes "limitConns (resilient_Accept closed sleep (keepAlive_Accept acc)) limit s = Some (Inl err, s', limit')"
  shows "errors_Is err ErrClosed"
proof (cases limit)
  case None
  then have "resilient_Accept closed sleep (keepAlive_Accept acc) s = Some (Inl err, s')"
    using assms by (auto simp: limitConns_def map_sum_eq_Inl)
  then show ?thesis by (rule resilient_only_closed)
next
  case (Some l)
  then obtain w where "limit_Accept (resilient_Accept closed sleep (keepAlive_Accept acc)) (s, l) = Some (Inl err, w)"
    using assms by (auto simp: limitConns_def map_sum_eq_Inl)
  then show ?thesis by (rule resilient.limited_only_closed)
qed

theorem proxy_listener_persistent_witness:
  "limitConns (resilient_Accept lw_closed world_sleep (keepAlive_Accept world_Accept)) (newConnLimiter 1)
     \<lparr>lw_answers = [Inr (sample_conn 3)], lw_slept = [], lw_closed = True\<rparr>
     = Some (Inl ErrClosed, \<lparr>lw_answers = [Inr (sample_conn 3)], lw_slept = [], lw_closed = True\<rparr>, newConnLimiter 1)
   \<and> errors_Is ErrClosed ErrClosed"
proof -
  have e: "limitConns (resilient_Accept lw_closed world_sleep (keepAlive_Accept world_Accept)) (newConnLimiter 1)
     \<lparr>lw_answers = [Inr (sample_conn 3)], lw_slept = [], lw_closed = True\<rparr>
     = Some (Inl ErrClosed, \<lparr>lw_answers = [Inr (sample_conn 3)], lw_slept = [], lw_closed = True\<rparr>, newConnLimiter 1)"
    by (simp add: limitConns_def newConnLimiter_def limit_Accept.simps resilient_Accept_def resilient_loop.simps)
  show ?thesis using e proxy_listener_persistent [OF e] by blast
qed

section \<open>The connection limit\<close>

lemma open_conns_finite [simp]: "finite (open_conns l)"
  by (simp add: open_conns_def)

lemma limiter_inv_admit:
  assumes "limiter_inv l" and "limit_admit c l = (r, l')"
  shows "limiter_inv l'"
proof (cases "slots_used l < slots_cap l")
  case True
  then have l': "l' = l\<lparr>slots_used := slots_used l + 1, refused := False, once_done := once_done l @ [False]\<rparr>"
    using assms(2) by (auto simp: limit_admit_def tryAcquire_def)
  have "open_conns l' = insert (length (once_done l)) (open_conns l)"
    by (auto simp: l' open_conns_def nth_append)
  moreover have "length (once_done l) \<notin> open_conns l" by (simp add: open_conns_def)
  ultimately have "card (open_conns l') = Suc (card (open_conns l))" by simp
  then show ?thesis using assms(1) True by (simp add: limiter_inv_def l')
next
  case False
  then show ?thesis
    using assms by (auto simp: limit_admit_def tryAcquire_def limiter_inv_def open_conns_def)
qed

lemma limited_Close_open:
  assumes "limiter_inv l" and "i \<in> open_conns l"
  shows "limited_Close i l = Some (l\<lparr>slots_used := slots_used l - 1, once_done := (once_done l)[i := True]\<rparr>)"
    and "open_conns (l\<lparr>slots_used := slots_used l - 1, once_done := (once_done l)[i := True]\<rparr>) = open_conns l - {i}"
proof -
  have "card (open_conns l) \<noteq> 0" using assms(2) by auto
  then show "limited_Close i l = Some (l\<lparr>slots_used := slots_used l - 1, once_done := (once_done l)[i := True]\<rparr>)"
    using assms by (auto simp: limited_Close_def release_def limiter_inv_def open_conns_def)
  show "open_conns (l\<lparr>slots_used := slots_used l - 1, once_done := (once_done l)[i := True]\<rparr>) = open_conns l - {i}"
    using assms(2) by (auto simp: open_conns_def nth_list_update split: if_splits)
qed

lemma limiter_inv_close:
  assumes "limiter_inv l" and "i < length (once_done l)" and "limited_Close i l = Some l'"
  shows "limiter_inv l'"
proof (cases "i \<in> open_conns l")
  case True
  then have "int (card (open_conns l')) = int (card (open_conns l)) - 1"
    using limited_Close_open [OF assms(1) True] assms(3) by (simp add: of_nat_diff Suc_leI card_gt_0_iff)
      (metis One_nat_def Suc_leI card_gt_0_iff empty_iff of_nat_1 of_nat_diff open_conns_finite)
  then show ?thesis
    using limited_Close_open(1) [OF assms(1) True] assms(1,3) by (auto simp: limiter_inv_def)
next
  case False
  then show ?thesis using assms by (simp add: limited_Close_def open_conns_def)
qed

lemma limiter_cap_step: "limiter_step l l' \<Longrightarrow> slots_cap l' = slots_cap l"
  by (auto elim!: limiter_stepE simp: limit_admit_def tryAcquire_def limited_Close_def release_def split: if_splits)

lemma limiter_reachable_inv: "limiter_reachable n l \<Longrightarrow> limiter_inv l \<and> slots_cap l = n"
proof (induction rule: limiter_reachable.induct)
  case (reach_new l)
  then show ?case by (auto simp: newConnLimiter_def limiter_inv_def open_conns_def split: if_splits)
next
  case (reach_step l l')
  then show ?case
    using limiter_cap_step by (auto elim!: limiter_stepE intro: limiter_inv_admit limiter_inv_close)
qed

text \<open>
  C23: The connection limit. In every state that the listeners and connections sharing one limiter of
  size \<open>n\<close> reach, at most \<open>n\<close> admitted connections are open and the slots in use are exactly
  those; a new connection is admitted precisely when fewer than \<open>n\<close> are open; the first \<open>Close\<close> of
  an open connection never blocks on the slot channel and gives back exactly its own slot, and a repeated
  \<open>Close\<close> changes nothing.
\<close>

theorem limiter_slots:
  assumes "limiter_reachable n l"
  shows "int (card (open_conns l)) \<le> n \<and> slots_used l = int (card (open_conns l))
    \<and> (fst (limit_admit c l) \<noteq> None \<longleftrightarrow> int (card (open_conns l)) < n)
    \<and> (i \<in> open_conns l \<longrightarrow> (\<exists>l'. limited_Close i l = Some l' \<and> open_conns l' = open_conns l - {i} \<and> limited_Close i l' = Some l'))"
proof -
  have inv: "limiter_inv l" "slots_cap l = n" using limiter_reachable_inv [OF assms] by blast+
  have "\<exists>l'. limited_Close i l = Some l' \<and> open_conns l' = open_conns l - {i} \<and> limited_Close i l' = Some l'"
    if i: "i \<in> open_conns l"
  proof (intro exI conjI)
    show "limited_Close i l = Some (l\<lparr>slots_used := slots_used l - 1, once_done := (once_done l)[i := True]\<rparr>)"
      by (rule limited_Close_open(1) [OF inv(1) i])
  qed (use limited_Close_open(2) [OF inv(1) i] i in \<open>simp_all add: limited_Close_def open_conns_def\<close>)
  then show ?thesis
    using inv by (auto simp: limiter_inv_def limit_admit_def tryAcquire_def)
qed

theorem limiter_slots_witness:
  "int (card (open_conns (snd (limit_admit (sample_conn 0) one_slot)))) \<le> 1
   \<and> fst (limit_admit (sample_conn 1) (snd (limit_admit (sample_conn 0) one_slot))) = None
   \<and> limited_Close 0 (snd (limit_admit (sample_conn 0) one_slot)) \<noteq> None"
proof -
  have 0: "limiter_reachable 1 one_slot" by (rule reach_new) (simp add: newConnLimiter_def one_slot_def)
  have 1: "limiter_reachable 1 (snd (limit_admit (sample_conn 0) one_slot))"
    by (rule reach_step [OF 0], rule step_admit [of "sample_conn 0" _ "fst (limit_admit (sample_conn 0) one_slot)"]) simp
  have o: "open_conns (snd (limit_admit (sample_conn 0) one_slot)) = {0}"
    by (auto simp: limit_admit_def tryAcquire_def one_slot_def open_conns_def)
  show ?thesis
    using limiter_slots [OF 1, of "sample_conn 1" 0] o by auto
qed

end
