(* ===== verification/Opener.thy ===== *)
theory Opener
  imports Rules
begin

text \<open>
  \<open>opener.go\<close>: the one place where a connection is routed, resolved and dialed. \<open>candidates\<close> gives
  the addresses in dial order with the route and its reason; \<open>Open\<close> dials down that list. A direct
  dial is the environment's TCP dial, a tunnel dial the environment's SSH dial; both leave an event in
  the trace, the tunnel dial with the metadata it carries.
\<close>

section \<open>Candidates\<close>

record Opener =
  o_rules :: RuleEngine
  o_family :: IPFamily

type_synonym 'a routed = "(goerr + 'a) \<times> Route \<times> string"

text \<open>The last part of \<open>candidates\<close>: keep the addresses of the configured family.\<close>

definition family_filter :: "Opener \<Rightarrow> string \<Rightarrow> addr list \<Rightarrow> Route \<Rightarrow> string \<Rightarrow> addr list routed" where
  "family_filter o' host ips route reason =
     (let out = filter (\<lambda>a. familyMatches (o_family o') (AsSlice a)) ips in
      if out = [] then (Inl (ErrText (''resolve '' @ host @ '': no '' @ family_String (o_family o') @ '' addresses'')), route, reason)
      else (Inr out, route, reason))"

text \<open>The part of \<open>candidates\<close> for a tunnel route, on the addresses it resolved to.\<close>

definition tunnel_candidates :: "Opener \<Rightarrow> string \<Rightarrow> addr list \<Rightarrow> bool \<Rightarrow> Route \<Rightarrow> string \<Rightarrow> addr list routed" where
  "tunnel_candidates o' host ips locDirect route reason =
     (let public = filter (\<lambda>a. \<not> isPrivate (o_rules o') a) ips in
      if public \<noteq> [] then
        (case pickTunnelAddr public of
           Inl e \<Rightarrow> (Inl e, route, reason)
         | Inr head \<Rightarrow> (Inr (head # filter (\<lambda>a. a \<noteq> head) public), route, reason))
      else
        (let reachable = dropHostLocal ips in
         if \<not> locDirect \<or> reachable = [] then
           (case ips of
              [] \<Rightarrow> (Inl (Panic ''index out of range''), route, reason)
            | a # _ \<Rightarrow>
                (Inl (ErrText (''resolve '' @ host @ '': only private addresses ('' @ addr_String a @
                  ''), refused through the tunnel; add a direct rule to reach it directly'')), route, reason))
         else family_filter o' host reachable RouteDirect ''local-private''))"

definition candidates :: "env \<Rightarrow> Opener \<Rightarrow> string \<Rightarrow> int \<Rightarrow> dnsCache \<Rightarrow> addr list routed \<times> dnsCache" where
  "candidates env o' host port c =
     (case Decide env (o_rules o') host port c of
        ((RouteDirect, reason), c) \<Rightarrow>
          (case localResolveAll env host c of
             (Inl e, c) \<Rightarrow> ((Inl e, RouteDirect, reason), c)
           | (Inr ips, c) \<Rightarrow> (family_filter o' host ips RouteDirect reason, c))
      | ((RouteTunnel, reason), c) \<Rightarrow>
          (case resolveTunnel env host c of
             (Inl e, c) \<Rightarrow> ((Inl e, RouteTunnel, reason), c)
           | (Inr (ips, locDirect), c) \<Rightarrow>
               (tunnel_candidates o' host ips locDirect RouteTunnel reason, c)))"

definition resolveAddr :: "env \<Rightarrow> Opener \<Rightarrow> string \<Rightarrow> int \<Rightarrow> dnsCache \<Rightarrow> addr routed \<times> dnsCache" where
  "resolveAddr env o' host port c =
     (case candidates env o' host port c of
        ((Inl e, route, reason), c) \<Rightarrow> ((Inl e, route, reason), c)
      | ((Inr [], route, reason), c) \<Rightarrow> ((Inl (Panic ''index out of range''), route, reason), c)
      | ((Inr (a # as), route, reason), c) \<Rightarrow> ((Inr a, route, reason), c))"

definition Resolve :: "env \<Rightarrow> Opener \<Rightarrow> string \<Rightarrow> int \<Rightarrow> dnsCache \<Rightarrow> net_IP routed \<times> dnsCache" where
  "Resolve env o' host port c =
     (case resolveAddr env o' host port c of
        ((Inl e, route, reason), c) \<Rightarrow> ((Inl e, route, reason), c)
      | ((Inr ip, route, reason), c) \<Rightarrow> ((Inr (AsSlice ip), route, reason), c))"

section \<open>Dialing\<close>

definition withAttempts :: "goerr \<Rightarrow> nat \<Rightarrow> goerr" where
  "withAttempts err attempts =
     (if attempts > 1 then ErrWrap [] err ('' ('' @ Itoa (int attempts) @ '' addresses tried)'') else err)"

text \<open>One direct dial: the TCP dial is attempted only when the family check of \<open>dialDirectIP\<close> passes.\<close>

definition dial_direct :: "env \<Rightarrow> IPFamily \<Rightarrow> int \<Rightarrow> addr \<Rightarrow> dnsCache \<Rightarrow> (goerr + conn) \<times> dnsCache" where
  "dial_direct env family port ip c =
     (dialDirectIP (e_tcp env (tick c)) ip port family,
      if familyMatches family (AsSlice ip)
      then (note_event (DialDirect (if Is4 ip then ''tcp4'' else ''tcp6'') (JoinHostPort (addr_String ip) (Itoa port))) c)\<lparr>tick := Suc (tick c)\<rparr>
      else c)"

definition dial_tunnel :: "env \<Rightarrow> string \<Rightarrow> string \<Rightarrow> string \<Rightarrow> int \<Rightarrow> addr \<Rightarrow> dnsCache \<Rightarrow> (goerr + conn) \<times> dnsCache" where
  "dial_tunnel env proto src host port ip c =
     (let addr = JoinHostPort (addr_String ip) (Itoa port) in
      (e_dial env (tick c) addr, (note_event (DialTunnel proto src host addr) c)\<lparr>tick := Suc (tick c)\<rparr>))"

text \<open>The dial loops: the error kept is the first one, with the address it came from.\<close>

fun dial_loop :: "(addr \<Rightarrow> dnsCache \<Rightarrow> (goerr + conn) \<times> dnsCache) \<Rightarrow> addr list \<Rightarrow> (goerr \<times> addr) option \<Rightarrow> dnsCache
    \<Rightarrow> ((goerr \<times> addr) option + conn \<times> addr) \<times> dnsCache" where
  "dial_loop dial [] firstErr c = (Inl firstErr, c)"
| "dial_loop dial (ip # rest) firstErr c =
     (case dial ip c of
        (Inr conn, c) \<Rightarrow> (Inr (conn, ip), c)
      | (Inl derr, c) \<Rightarrow> dial_loop dial rest (if firstErr = None then Some (derr, ip) else firstErr) c)"

definition Open :: "env \<Rightarrow> Opener \<Rightarrow> string \<Rightarrow> string \<Rightarrow> string \<Rightarrow> int \<Rightarrow> dnsCache \<Rightarrow> (conn \<times> string) routed \<times> dnsCache" where
  "Open env o' src proto host port c =
     (case candidates env o' host port c of
        ((Inl e, route, reason), c) \<Rightarrow> ((Inl e, route, reason), c)
      | ((Inr ips, RouteDirect, reason), c) \<Rightarrow>
          (case dial_loop (dial_direct env (o_family o') port) ips None c of
             (Inr (conn, ip), c) \<Rightarrow> ((Inr (conn, addr_String ip), RouteDirect, reason), c)
           | (Inl firstErr, c) \<Rightarrow>
               ((Inl (withAttempts (ErrWrap (''direct dial to '' @ host @ '':'' @ Itoa port @ '' failed: '')
                   (fst (the firstErr)) []) (length ips)), RouteDirect, reason), c))
      | ((Inr ips, RouteTunnel, reason), c) \<Rightarrow>
          (case dial_loop (dial_tunnel env proto src host port) ips None c of
             (Inr (conn, ip), c) \<Rightarrow> ((Inr (conn, addr_String ip), RouteTunnel, reason), c)
           | (Inl firstErr, c) \<Rightarrow>
               ((Inl (withAttempts (NewNetworkError ''SSH dial''
                   (JoinHostPort (addr_String (snd (the firstErr))) (Itoa port)) (Some (fst (the firstErr)))) (length ips)),
                 RouteTunnel, reason), c)))"

section \<open>Specification vocabulary\<close>

text \<open>The names and addresses an event shows, and to which network.\<close>

definition dials :: "event \<Rightarrow> bool" where
  "dials ev = (case ev of DialDirect _ _ \<Rightarrow> True | DialTunnel _ _ _ _ \<Rightarrow> True | _ \<Rightarrow> False)"

section \<open>Concrete openers\<close>

definition sample_opener_ipless :: Opener where
  "sample_opener_ipless = \<lparr>o_rules = sample_engine\<lparr>rules := []\<rparr>, o_family = FamilyBoth\<rparr>"

definition intranet_cache :: dnsCache where
  "intranet_cache = (sample_cache [''8.8.8.8:53''])\<lparr>localOnNXDomain := True\<rparr>"

definition two_addr_env :: env where
  "two_addr_env = sample_env\<lparr>e_resolver := \<lambda>_ _ _ _. (True, RAddrs [[93, 184, 216, 34], [93, 184, 216, 35]]),
     e_dial := \<lambda>_ _. Inl (ErrText ''refused'')\<rparr>"

section \<open>Choosing addresses\<close>

lemma pickTunnelAddr_spec:
  assumes "xs \<noteq> []"
  obtains h where "pickTunnelAddr xs = Inr h" and "h \<in> set xs" and "(\<exists>a\<in>set xs. Is4 a) \<Longrightarrow> Is4 h"
proof (cases "filter Is4 xs")
  case Nil
  obtain a r where xs: "xs = a # r" using assms by (cases xs) auto
  have "\<not> Is4 x" if "x \<in> set xs" for x using Nil that by (metis filter_empty_conv)
  then show ?thesis using that[of a] Nil xs by (auto simp: pickTunnelAddr_def)
next
  case (Cons a as)
  then have "a \<in> set xs" "Is4 a" by (auto simp: filter_eq_Cons_iff)
  with Cons that show ?thesis by (auto simp: pickTunnelAddr_def)
qed

lemma tunnel_candidates_tunnel:
  assumes "tunnel_candidates o' host ips ld RouteTunnel reason = (Inr out, RouteTunnel, reason')"
  shows "reason' = reason \<and> out \<noteq> [] \<and> set out = {a \<in> set ips. \<not> isPrivate (o_rules o') a} \<and>
    ((\<exists>a\<in>set out. Is4 a) \<longrightarrow> Is4 (hd out))"
proof -
  let ?pub = "filter (\<lambda>a. \<not> isPrivate (o_rules o') a) ips"
  have ne: "?pub \<noteq> []"
    using assms by (auto simp: tunnel_candidates_def family_filter_def Let_def split: if_splits list.splits)
  obtain h where h: "pickTunnelAddr ?pub = Inr h" "h \<in> set ?pub" "(\<exists>a\<in>set ?pub. Is4 a) \<Longrightarrow> Is4 h"
    using pickTunnelAddr_spec[OF ne] by blast
  have "out = h # filter (\<lambda>a. a \<noteq> h) ?pub" "reason' = reason"
    using assms ne h(1) by (simp_all add: tunnel_candidates_def Let_def)
  with h show ?thesis by auto
qed

lemma isPrivate_canonical [simp]: "isPrivate e (WithZone (Unmap a) z) = isPrivate e a"
  by (auto simp: isPrivate_def Unmap_def WithZone_def split: addr.split)

lemma tunnel_candidates_direct:
  assumes "tunnel_candidates o' host ips ld RouteTunnel reason = (Inr out, RouteDirect, reason')"
  shows "reason' = ''local-private'' \<and> ld \<and> out \<noteq> [] \<and>
    (\<forall>a\<in>set out. isPrivate (o_rules o') a \<and> \<not> host_local a \<and> familyMatches (o_family o') (AsSlice a))"
proof -
  let ?pub = "filter (\<lambda>a. \<not> isPrivate (o_rules o') a) ips"
  have e: "?pub = []" using assms
    by (auto simp: tunnel_candidates_def Let_def split: if_splits sum.splits list.splits)
  then have p: "\<forall>a\<in>set ips. isPrivate (o_rules o') a" by (simp add: filter_empty_conv)
  have "ld" "family_filter o' host (dropHostLocal ips) RouteDirect ''local-private'' = (Inr out, RouteDirect, reason')"
    using assms e by (auto simp: tunnel_candidates_def Let_def simp del: filter_empty_conv split: if_splits list.splits)
  then show ?thesis using p by (auto simp: family_filter_def Let_def dropHostLocal_def split: if_splits)
qed

section \<open>Dialing down the list\<close>

locale dialing =
  fixes dial :: "addr \<Rightarrow> dnsCache \<Rightarrow> (goerr + conn) \<times> dnsCache"
    and ev :: "addr \<Rightarrow> event list"
  assumes dial_trace: "trace (snd (dial ip c)) = trace c @ ev ip"
    and dial_frame: "cache (snd (dial ip c)) = cache c" "fallbacks (snd (dial ip c)) = fallbacks c"
      "same_config c (snd (dial ip c))"
begin

lemma loop_frame:
  "cache (snd (dial_loop dial ips fe c)) = cache c \<and> fallbacks (snd (dial_loop dial ips fe c)) = fallbacks c \<and>
   same_config c (snd (dial_loop dial ips fe c))"
proof (induction ips arbitrary: fe c)
  case Nil
  then show ?case by simp
next
  case (Cons ip ips)
  obtain r d where rd: "dial ip c = (r, d)" by force
  have "cache d = cache c" "fallbacks d = fallbacks c" "same_config c d"
    using dial_frame[where ip = ip and c = c] by (simp_all add: rd)
  with Cons.IH rd same_config_trans show ?case by (cases r) auto
qed

lemma loop_success:
  "fst (dial_loop dial ips fe c) = Inr (conn, ip) \<Longrightarrow>
   \<exists>pre post d. ips = pre @ ip # post \<and> fst (dial ip d) = Inr conn \<and>
     trace (snd (dial_loop dial ips fe c)) = trace c @ concat (map ev (pre @ [ip]))"
proof (induction ips arbitrary: fe c)
  case Nil
  then show ?case by simp
next
  case (Cons ip' ips)
  obtain r d where rd: "dial ip' c = (r, d)" by force
  have t: "trace d = trace c @ ev ip'" using dial_trace[of ip' c] rd by simp
  show ?case
  proof (cases r)
    case (Inr conn')
    then have "ip' = ip" "conn' = conn" using Cons.prems rd by auto
    then show ?thesis using rd t Inr
      by (intro exI[of _ "[]"] exI[of _ ips] exI[of _ c]) simp
  next
    case (Inl e)
    then have "fst (dial_loop dial ips (if fe = None then Some (e, ip') else fe) d) = Inr (conn, ip)"
      using Cons.prems rd by simp
    from Cons.IH[OF this] obtain pre post d' where "ips = pre @ ip # post" "fst (dial ip d') = Inr conn"
      "trace (snd (dial_loop dial ips (if fe = None then Some (e, ip') else fe) d)) = trace d @ concat (map ev (pre @ [ip]))"
      by blast
    then show ?thesis using rd t Inl
      by (intro exI[of _ "ip' # pre"] exI[of _ post] exI[of _ d']) simp
  qed
qed

lemma loop_failure:
  "fst (dial_loop dial ips fe c) = Inl fe' \<Longrightarrow>
   trace (snd (dial_loop dial ips fe c)) = trace c @ concat (map ev ips) \<and>
   fe' = (if fe = None \<and> ips \<noteq> [] then Some (projl (fst (dial (hd ips) c)), hd ips) else fe) \<and>
   (ips \<noteq> [] \<longrightarrow> isl (fst (dial (hd ips) c)))"
proof (induction ips arbitrary: fe c)
  case Nil
  then show ?case by auto
next
  case (Cons ip ips)
  obtain r d where rd: "dial ip c = (r, d)" by force
  have t: "trace d = trace c @ ev ip" using dial_trace[of ip c] rd by simp
  obtain e where r: "r = Inl e" using Cons.prems rd by (cases r) auto
  show ?case using Cons.IH[of "if fe = None then Some (e, ip) else fe" d] Cons.prems rd r t by auto
qed

text \<open>Whatever happens, the events are those of the addresses tried.\<close>

lemma loop_events:
  "\<exists>tried. prefix tried ips \<and> trace (snd (dial_loop dial ips fe c)) = trace c @ concat (map ev tried)"
proof (cases "fst (dial_loop dial ips fe c)")
  case (Inl fe')
  then show ?thesis using loop_failure by blast
next
  case (Inr p)
  obtain conn ip where p: "p = (conn, ip)" by force
  from Inr loop_success[of ips fe c conn ip] obtain pre post where "ips = (pre @ [ip]) @ post"
    "trace (snd (dial_loop dial ips fe c)) = trace c @ concat (map ev (pre @ [ip]))" by (auto simp: p)
  then show ?thesis unfolding prefix_def by blast
qed

end

interpretation direct_dial: dialing "dial_direct env family port"
  "\<lambda>ip. if familyMatches family (AsSlice ip)
    then [DialDirect (if Is4 ip then ''tcp4'' else ''tcp6'') (JoinHostPort (addr_String ip) (Itoa port))] else []"
  for env family port
  by unfold_locales (auto simp: dial_direct_def note_event_def same_config_def)

interpretation tunnel_dial: dialing "dial_tunnel env proto src host port"
  "\<lambda>ip. [DialTunnel proto src host (JoinHostPort (addr_String ip) (Itoa port))]"
  for env proto src host port
  by unfold_locales (auto simp: dial_tunnel_def note_event_def same_config_def Let_def)

section \<open>Properties\<close>

lemma candidates_cases:
  "candidates env o' host port c =
    (let d = snd (Decide env (o_rules o') host port c); reason = snd (fst (Decide env (o_rules o') host port c)) in
     if fst (fst (Decide env (o_rules o') host port c)) = RouteDirect then
       (case fst (localResolveAll env host d) of
          Inl e \<Rightarrow> (Inl e, RouteDirect, reason) | Inr ips \<Rightarrow> family_filter o' host ips RouteDirect reason,
        snd (localResolveAll env host d))
     else
       (case fst (resolveTunnel env host d) of
          Inl e \<Rightarrow> (Inl e, RouteTunnel, reason)
        | Inr p \<Rightarrow> tunnel_candidates o' host (fst p) (snd p) RouteTunnel reason,
        snd (resolveTunnel env host d)))"
  by (auto simp: candidates_def Let_def split: prod.split sum.split Route.split)

lemma family_filter_route: "snd (family_filter o' host ips route reason) = (route, reason)"
  by (simp add: family_filter_def Let_def)

lemma candidates_tunnel:
  assumes "candidates env o' host port c = ((Inr ips, RouteTunnel, reason), c')"
  obtains as ld where "fst (fst (Decide env (o_rules o') host port c)) = RouteTunnel"
    and "resolveTunnel env host (snd (Decide env (o_rules o') host port c)) = (Inr (as, ld), c')"
    and "tunnel_candidates o' host as ld RouteTunnel (snd (fst (Decide env (o_rules o') host port c))) = (Inr ips, RouteTunnel, reason)"
proof (cases "fst (fst (Decide env (o_rules o') host port c))")
  case RouteDirect
  then have "fst (snd (fst (candidates env o' host port c))) = RouteDirect"
    by (simp add: candidates_cases Let_def family_filter_route split: sum.split)
  then show ?thesis using assms by simp
next
  case RouteTunnel
  let ?d = "snd (Decide env (o_rules o') host port c)"
  obtain as ld where r: "fst (resolveTunnel env host ?d) = Inr (as, ld)"
    using assms RouteTunnel by (cases "fst (resolveTunnel env host ?d)") (auto simp: candidates_cases Let_def)
  moreover have "c' = snd (resolveTunnel env host ?d)"
    using assms RouteTunnel by (simp add: candidates_cases Let_def)
  ultimately show ?thesis using that[of as ld] assms RouteTunnel
    by (simp add: candidates_cases Let_def prod_eq_iff)
qed

text \<open>
  C14: The addresses of a tunnel route: every public address the name resolved to, no private one, at
  least one, and an IPv4 address first if there is any.
\<close>

theorem tunnel_candidates_public:
  assumes "candidates env o' host port c = ((Inr ips, RouteTunnel, reason), c')"
  shows "\<exists>as ld. resolveTunnel env host (snd (Decide env (o_rules o') host port c)) = (Inr (as, ld), c') \<and>
    ips \<noteq> [] \<and> set ips = {a \<in> set as. \<not> isPrivate (o_rules o') a} \<and> ((\<exists>a\<in>set ips. Is4 a) \<longrightarrow> Is4 (hd ips))"
proof -
  obtain as ld where "resolveTunnel env host (snd (Decide env (o_rules o') host port c)) = (Inr (as, ld), c')"
    and "tunnel_candidates o' host as ld RouteTunnel (snd (fst (Decide env (o_rules o') host port c))) = (Inr ips, RouteTunnel, reason)"
    using candidates_tunnel[OF assms] .
  with tunnel_candidates_tunnel show ?thesis by blast
qed

theorem tunnel_candidates_public_witness:
  "Is4 (hd (projr (fst (fst (candidates sample_env sample_opener_ipless ''a.example'' 443 (sample_cache [''9.9.9.9:53'']))))))"
proof -
  let ?q = "candidates sample_env sample_opener_ipless ''a.example'' 443 (sample_cache [''9.9.9.9:53''])"
  have f: "fst (fst ?q) = Inr [Addr4 0x5DB8D822]" "fst (snd (fst ?q)) = RouteTunnel" by code_simp+
  have eq: "?q = ((Inr [Addr4 0x5DB8D822], RouteTunnel, snd (snd (fst ?q))), snd ?q)"
    using f by (metis prod.collapse)
  show ?thesis using tunnel_candidates_public[OF eq] by (auto simp: f Is4_def)
qed

lemma candidates_direct_family:
  assumes "candidates env o' host port c = ((Inr ips, RouteDirect, reason), c')"
  shows "ips \<noteq> [] \<and> (\<forall>a\<in>set ips. familyMatches (o_family o') (AsSlice a))"
proof (cases "fst (fst (Decide env (o_rules o') host port c))")
  case RouteDirect
  then show ?thesis using assms
    by (auto simp: candidates_cases family_filter_def Let_def split: sum.splits if_splits)
next
  case RouteTunnel
  let ?d = "snd (Decide env (o_rules o') host port c)"
  obtain p where "fst (resolveTunnel env host ?d) = Inr p"
    using assms RouteTunnel by (cases "fst (resolveTunnel env host ?d)") (auto simp: candidates_cases Let_def)
  then have "tunnel_candidates o' host (fst p) (snd p) RouteTunnel (snd (fst (Decide env (o_rules o') host port c))) = (Inr ips, RouteDirect, reason)"
    using assms RouteTunnel by (simp add: candidates_cases Let_def)
  then show ?thesis using tunnel_candidates_direct by blast
qed

text \<open>
  C2: A name that no rule sends direct is reached directly only with \<open>localOnNXDomain\<close>, only on private
  addresses of the configured family, and never on a loopback, link-local or unspecified one, even if
  every resolver says so.
\<close>

theorem local_private_only_when_enabled:
  assumes "range_order (e_range env)" and "dns_inv c" and "normalizeHost (normalizeHost host) \<noteq> []"
    and "fst (fst (Decide env (o_rules o') host port c)) = RouteTunnel"
    and "candidates env o' host port c = ((Inr ips, RouteDirect, reason), c')"
  shows "localOnNXDomain c \<and> reason = ''local-private'' \<and> ips \<noteq> [] \<and>
    (\<forall>a\<in>set ips. isPrivate (o_rules o') a \<and> \<not> host_local a \<and> familyMatches (o_family o') (AsSlice a))"
proof -
  let ?D = "Decide env (o_rules o') host port c"
  obtain p where p: "fst (resolveTunnel env host (snd ?D)) = Inr p"
    using assms(4,5) by (cases "fst (resolveTunnel env host (snd ?D))") (auto simp: candidates_cases Let_def)
  then have "tunnel_candidates o' host (fst p) (snd p) RouteTunnel (snd (fst ?D)) = (Inr ips, RouteDirect, reason)"
    using assms(4,5) by (simp add: candidates_cases Let_def)
  note t = tunnel_candidates_direct[OF this]
  have "localOnNXDomain (snd ?D)"
    by (rule resolveTunnel_direct[OF Decide_inv[OF assms(1,3,2)], where as = "fst p"]) (use p t in \<open>cases p, auto\<close>)
  moreover have "localOnNXDomain (snd ?D) = localOnNXDomain c"
    by (rule Decide_nx)
  ultimately show ?thesis using t by simp
qed

theorem local_private_only_when_enabled_witness:
  "fst (candidates sample_env sample_opener_ipless ''intra'' 443 intranet_cache) =
    (Inr [Addr4 0x0A000005], RouteDirect, ''local-private'') \<and> \<not> host_local (Addr4 0x0A000005)"
proof -
  let ?q = "candidates sample_env sample_opener_ipless ''intra'' 443 intranet_cache"
  have f: "fst ?q = (Inr [Addr4 0x0A000005], RouteDirect, ''local-private'')" by code_simp
  then have eq: "?q = ((Inr [Addr4 0x0A000005], RouteDirect, ''local-private''), snd ?q)" by (metis prod.collapse)
  have a: "range_order (e_range sample_env)" by (simp add: sample_env_def)
  have b: "dns_inv intranet_cache" by (simp add: intranet_cache_def sample_cache_def SetTunnelDNS_def dns_inv_def new_dnsCache_def)
  have n: "normalizeHost (normalizeHost ''intra'') \<noteq> []" by code_simp
  have d: "fst (fst (Decide sample_env (o_rules sample_opener_ipless) ''intra'' 443 intranet_cache)) = RouteTunnel" by code_simp
  show ?thesis using local_private_only_when_enabled[OF a b n d eq] f by simp
qed



end
