(* ===== verification/Relay.thy ===== *)
theory Relay
  imports Opener
begin

text \<open>
  The relayed connections of \<open>socks5.go\<close>: the access log record \<open>connInfo\<close>, the wrapper \<open>logConn\<close> that counts bytes and writes
  the access line, and the servers' drain of in-flight relays at shutdown, which the HTTP proxy shares.

  A log line is the logger it goes to and its fields. A \<open>sync.WaitGroup\<close> is its counter; \<open>Done\<close> on zero would panic. The
  clock gives the \<open>n\<close>-th answer of \<open>time.Now\<close>.
\<close>

section \<open>Model\<close>

subsection \<open>Access log records\<close>

datatype log_value = LStr string | LInt int

datatype logger = AccessLog | ServiceLog

type_synonym log_line = "logger \<times> (string \<times> log_value) list"

record connInfo =
  ci_id :: "64 word"
  ci_proto :: string
  ci_src :: string
  ci_host :: string
  ci_dst :: string
  ci_reason :: string
  ci_port :: int
  ci_route :: Route
  ci_family :: IPFamily
  ci_dialMS :: int

definition nextConnID :: "64 word \<Rightarrow> 64 word" where
  "nextConnID connIDs = connIDs + 1"

definition connInfo_fields :: "connInfo \<Rightarrow> (string \<times> log_value) list" where
  "connInfo_fields c =
     [(''conn_id'', LInt (uint (ci_id c))), (''proto'', LStr (ci_proto c)), (''src'', LStr (ci_src c)), (''host'', LStr (ci_host c)),
      (''port'', LInt (ci_port c)), (''route'', LStr (route_String (ci_route c))), (''reason'', LStr (ci_reason c)),
      (''family'', LStr (family_String (ci_family c))), (''dst'', LStr (ci_dst c)), (''dial_ms'', LInt (ci_dialMS c))]"

definition logFailure :: "connInfo \<Rightarrow> string \<Rightarrow> goerr \<Rightarrow> log_line list" where
  "logFailure c result err =
     [(AccessLog, connInfo_fields c @ [(''result'', LStr result)]),
      (ServiceLog, connInfo_fields c @ [(''result'', LStr result), (''error'', LStr (err_Error err))])]"

subsection \<open>logConn\<close>

definition relayErr :: "goerr option \<Rightarrow> bool" where
  "relayErr err = (case err of None \<Rightarrow> False | Some e \<Rightarrow> e \<noteq> ErrEOF \<and> \<not> errors_Is e ErrClosed)"

record logConn =
  lg_up :: int
  lg_down :: int
  lg_firstErr :: "goerr option"
  lg_t0 :: time
  lg_closed :: bool
  lg_onClose :: bool
  lg_info :: connInfo

definition note_relay_err :: "goerr option \<Rightarrow> logConn \<Rightarrow> logConn" where
  "note_relay_err err l = (if relayErr err \<and> lg_firstErr l = None then l\<lparr>lg_firstErr := err\<rparr> else l)"

text \<open>\<open>Read\<close> and \<open>Write\<close> of \<open>n\<close> bytes that the wrapped connection answered with \<open>err\<close>.\<close>

definition lg_Read :: "int \<Rightarrow> goerr option \<Rightarrow> logConn \<Rightarrow> logConn" where
  "lg_Read n err l = note_relay_err err (l\<lparr>lg_down := wrap64 (lg_down l + n)\<rparr>)"

definition lg_Write :: "int \<Rightarrow> goerr option \<Rightarrow> logConn \<Rightarrow> logConn" where
  "lg_Write n err l = note_relay_err err (l\<lparr>lg_up := wrap64 (lg_up l + n)\<rparr>)"

definition lg_CloseWrite :: "goerr option option \<Rightarrow> goerr option" where
  "lg_CloseWrite base = (case base of Some r \<Rightarrow> r | None \<Rightarrow> None)"

text \<open>
  \<open>Close\<close> at time \<open>now\<close>, when closing the wrapped connection gives \<open>berr\<close>: the result, whether \<open>onClose\<close> ran, the log lines
  and the new state.
\<close>

definition close_line :: "logger \<Rightarrow> logConn \<Rightarrow> time \<Rightarrow> log_line" where
  "close_line lg l now =
     (lg, connInfo_fields (lg_info l) @
        [(''result'', LStr (if lg_firstErr l = None then ''ok'' else ''relay_error'')),
         (''ms'', LInt (Milliseconds (time_Sub now (lg_t0 l)))), (''bytes_up'', LInt (lg_up l)), (''bytes_down'', LInt (lg_down l))]
        @ (case lg of ServiceLog \<Rightarrow> [(''error'', LStr (err_Error (the (lg_firstErr l))))] | AccessLog \<Rightarrow> []))"

definition lg_Close :: "time \<Rightarrow> goerr option \<Rightarrow> logConn \<Rightarrow> goerr option \<times> bool \<times> log_line list \<times> logConn" where
  "lg_Close now berr l =
     (if lg_closed l then (berr, False, [], l)
      else let l' = l\<lparr>lg_closed := True\<rparr>
           in (berr, lg_onClose l,
               close_line AccessLog l' now # (if lg_firstErr l' \<noteq> None then [close_line ServiceLog l' now] else []), l'))"

subsection \<open>Draining the relays\<close>

text \<open>The counter of in-flight relays, the relays handed out, the lines written so far and the number of
  dials that failed. \<open>None\<close> is a panic.\<close>

record relay_state =
  rs_conns :: int
  rs_relays :: "logConn list"
  rs_log :: "log_line list"
  rs_failed :: nat

definition wg_Done :: "int \<Rightarrow> int option" where
  "wg_Done n = (if n = 0 then None else Some (n - 1))"

text \<open>The dial callback hands out a relay: \<open>conns.Add(1)\<close> and a \<open>logConn\<close> whose \<open>onClose\<close> is \<open>conns.Done\<close>.\<close>

definition new_relay :: "connInfo \<Rightarrow> time \<Rightarrow> logConn" where
  "new_relay info now = \<lparr>lg_up = 0, lg_down = 0, lg_firstErr = None, lg_t0 = now, lg_closed = False, lg_onClose = True, lg_info = info\<rparr>"

definition relay_open :: "connInfo \<Rightarrow> time \<Rightarrow> relay_state \<Rightarrow> relay_state" where
  "relay_open info now s = s\<lparr>rs_conns := rs_conns s + 1, rs_relays := rs_relays s @ [new_relay info now]\<rparr>"

definition relay_failed :: "connInfo \<Rightarrow> string \<Rightarrow> goerr \<Rightarrow> relay_state \<Rightarrow> relay_state" where
  "relay_failed info result err s = s\<lparr>rs_log := rs_log s @ logFailure info result err, rs_failed := Suc (rs_failed s)\<rparr>"

definition relay_io :: "(logConn \<Rightarrow> logConn) \<Rightarrow> nat \<Rightarrow> relay_state \<Rightarrow> relay_state" where
  "relay_io f i s = s\<lparr>rs_relays := (rs_relays s)[i := f (rs_relays s ! i)]\<rparr>"

definition relay_close :: "time \<Rightarrow> goerr option \<Rightarrow> nat \<Rightarrow> relay_state \<Rightarrow> relay_state option" where
  "relay_close now berr i s =
     (case lg_Close now berr (rs_relays s ! i) of
        (r, hook, ls, l') \<Rightarrow>
          let s' = s\<lparr>rs_relays := (rs_relays s)[i := l'], rs_log := rs_log s @ ls\<rparr>
          in if hook then map_option (\<lambda>n. s'\<lparr>rs_conns := n\<rparr>) (wg_Done (rs_conns s')) else Some s')"

text \<open>
  \<open>Shutdown\<close> of both proxy servers: \<open>first\<close> tells whether this call runs the \<open>closeOnce\<close>; \<open>drain\<close> is what the
  select saw: the drain finished, or the context ended, with the drain finished or not at the second look.
\<close>

datatype drain_result = DrainDone | CtxEnded bool

definition server_Shutdown :: "bool \<Rightarrow> goerr option \<Rightarrow> drain_result \<Rightarrow> goerr \<Rightarrow> goerr option" where
  "server_Shutdown first closeErr drain ctxErr =
     (if first \<and> closeErr \<noteq> None then closeErr
      else case drain of DrainDone \<Rightarrow> None | CtxEnded finished \<Rightarrow> if finished then None else Some ctxErr)"

section \<open>Specification\<close>

definition in_flight :: "relay_state \<Rightarrow> nat set" where
  "in_flight s = {i. i < length (rs_relays s) \<and> \<not> lg_closed (rs_relays s ! i)}"

definition access_lines :: "log_line list \<Rightarrow> nat" where
  "access_lines ls = length (filter (\<lambda>l. fst l = AccessLog) ls)"

text \<open>Steps of the goroutines of one server: dials that succeed or fail, transfers, and closes, in any order.\<close>

inductive relay_step :: "relay_state \<Rightarrow> relay_state \<Rightarrow> bool" where
  r_open: "relay_step s (relay_open info now s)"
| r_failed: "relay_step s (relay_failed info result err s)"
| r_read: "i < length (rs_relays s) \<Longrightarrow> relay_step s (relay_io (lg_Read n err) i s)"
| r_write: "i < length (rs_relays s) \<Longrightarrow> relay_step s (relay_io (lg_Write n err) i s)"
| r_close: "i < length (rs_relays s) \<Longrightarrow> relay_close now berr i s = Some s' \<Longrightarrow> relay_step s s'"

inductive relay_reachable :: "relay_state \<Rightarrow> bool" where
  r_start: "relay_reachable \<lparr>rs_conns = 0, rs_relays = [], rs_log = [], rs_failed = 0\<rparr>"
| r_reach: "relay_reachable s \<Longrightarrow> relay_step s s' \<Longrightarrow> relay_reachable s'"

text \<open>Transfers and closes of one connection.\<close>

datatype lg_op = LRead int "goerr option" | LWrite int "goerr option" | LClose time "goerr option"

fun lg_run :: "lg_op list \<Rightarrow> logConn \<Rightarrow> log_line list \<times> nat \<times> logConn" where
  "lg_run [] l = ([], 0, l)"
| "lg_run (LRead n err # ops) l = lg_run ops (lg_Read n err l)"
| "lg_run (LWrite n err # ops) l = lg_run ops (lg_Write n err l)"
| "lg_run (LClose now berr # ops) l =
     (case lg_Close now berr l of (r, hook, ls, l') \<Rightarrow>
        case lg_run ops l' of (ls', hooks, l'') \<Rightarrow> (ls @ ls', (if hook then Suc hooks else hooks), l''))"

fun ops_up :: "lg_op list \<Rightarrow> int" where
  "ops_up [] = 0"
| "ops_up (LWrite n err # ops) = n + ops_up ops"
| "ops_up (op # ops) = ops_up ops"

fun ops_down :: "lg_op list \<Rightarrow> int" where
  "ops_down [] = 0"
| "ops_down (LRead n err # ops) = n + ops_down ops"
| "ops_down (op # ops) = ops_down ops"

fun ops_err :: "lg_op list \<Rightarrow> goerr option" where
  "ops_err [] = None"
| "ops_err (LRead n err # ops) = (if relayErr err then err else ops_err ops)"
| "ops_err (LWrite n err # ops) = (if relayErr err then err else ops_err ops)"
| "ops_err (op # ops) = ops_err ops"

definition is_close :: "lg_op \<Rightarrow> bool" where
  "is_close op = (case op of LClose _ _ \<Rightarrow> True | _ \<Rightarrow> False)"

definition relay_inv :: "relay_state \<Rightarrow> bool" where
  "relay_inv s \<longleftrightarrow> rs_conns s = int (length (filter (\<lambda>l. \<not> lg_closed l) (rs_relays s)))
     \<and> list_all lg_onClose (rs_relays s)
     \<and> access_lines (rs_log s) = rs_failed s + length (filter lg_closed (rs_relays s))"

definition sample_info :: connInfo where
  "sample_info = \<lparr>ci_id = 1, ci_proto = ''socks5'', ci_src = ''127.0.0.1:5000'', ci_host = ''a.example'', ci_dst = ''93.184.216.34'',
     ci_reason = ''default'', ci_port = 443, ci_route = RouteTunnel, ci_family = FamilyBoth, ci_dialMS = 12\<rparr>"

section \<open>Draining\<close>

lemma length_filter_update:
  "i < length xs \<Longrightarrow> length (filter P (xs[i := y])) + (if P (xs ! i) then 1 else 0) = length (filter P xs) + (if P y then 1 else 0)"
proof (induction xs arbitrary: i)
  case (Cons x xs)
  then show ?case
  proof (cases i)
    case (Suc j)
    then have "j < length xs" using Cons.prems by simp
    from Cons.IH [OF this] show ?thesis by (simp add: Suc)
  qed simp
qed simp

lemma in_flight_card: "card (in_flight s) = length (filter (\<lambda>l. \<not> lg_closed l) (rs_relays s))"
  by (simp add: in_flight_def length_filter_conv_card)

lemma access_lines_append [simp]: "access_lines (ls @ ls') = access_lines ls + access_lines ls'"
  by (simp add: access_lines_def)

lemma lg_io_fields [simp]:
  "lg_closed (lg_Read n err l) = lg_closed l" "lg_onClose (lg_Read n err l) = lg_onClose l"
  "lg_closed (lg_Write n err l) = lg_closed l" "lg_onClose (lg_Write n err l) = lg_onClose l"
  "lg_info (lg_Read n err l) = lg_info l" "lg_t0 (lg_Read n err l) = lg_t0 l"
  "lg_info (lg_Write n err l) = lg_info l" "lg_t0 (lg_Write n err l) = lg_t0 l"
  by (simp_all add: lg_Read_def lg_Write_def note_relay_err_def)

lemma lg_io_counts [simp]:
  "lg_up (lg_Read n err l) = lg_up l" "lg_down (lg_Read n err l) = wrap64 (lg_down l + n)"
  "lg_up (lg_Write n err l) = wrap64 (lg_up l + n)" "lg_down (lg_Write n err l) = lg_down l"
  "lg_firstErr (lg_Read n err l) = (if relayErr err \<and> lg_firstErr l = None then err else lg_firstErr l)"
  "lg_firstErr (lg_Write n err l) = (if relayErr err \<and> lg_firstErr l = None then err else lg_firstErr l)"
  by (simp_all add: lg_Read_def lg_Write_def note_relay_err_def)

lemma relayErr_not_None: "relayErr err \<Longrightarrow> err \<noteq> None"
  by (cases err) (simp_all add: relayErr_def)

lemma access_lines_close [simp]: "access_lines (close_line AccessLog l now # (if e then [close_line ServiceLog l' now'] else [])) = 1"
  by (simp add: access_lines_def close_line_def)

lemma lg_Close_open:
  "\<not> lg_closed l \<Longrightarrow> lg_Close now berr l =
     (berr, lg_onClose l, close_line AccessLog (l\<lparr>lg_closed := True\<rparr>) now #
        (if lg_firstErr l \<noteq> None then [close_line ServiceLog (l\<lparr>lg_closed := True\<rparr>) now] else []), l\<lparr>lg_closed := True\<rparr>)"
  by (simp add: lg_Close_def Let_def)

lemma lg_Close_again [simp]: "lg_closed l \<Longrightarrow> lg_Close now berr l = (berr, False, [], l)"
  by (simp add: lg_Close_def)

lemma relay_inv_io:
  assumes "relay_inv s" and "i < length (rs_relays s)" and "lg_closed (f (rs_relays s ! i)) = lg_closed (rs_relays s ! i)"
    and "lg_onClose (f (rs_relays s ! i)) = lg_onClose (rs_relays s ! i)"
  shows "relay_inv (relay_io f i s)"
  using assms length_filter_update [of i "rs_relays s" lg_closed "f (rs_relays s ! i)"]
    length_filter_update [of i "rs_relays s" "\<lambda>l. \<not> lg_closed l" "f (rs_relays s ! i)"]
  by (auto simp: relay_inv_def relay_io_def list_all_length nth_list_update split: if_splits)

lemma relay_close_ok:
  assumes "relay_inv s" and "i < length (rs_relays s)"
  shows "\<exists>s'. relay_close now berr i s = Some s' \<and> relay_inv s'"
proof (cases "lg_closed (rs_relays s ! i)")
  case True
  then show ?thesis using assms by (simp add: relay_close_def Let_def)
next
  case False
  let ?l = "(rs_relays s ! i)\<lparr>lg_closed := True\<rparr>"
  have on: "lg_onClose (rs_relays s ! i)" using assms by (simp add: relay_inv_def list_all_length)
  have n: "length (filter (\<lambda>l. \<not> lg_closed l) ((rs_relays s)[i := ?l])) + 1 = length (filter (\<lambda>l. \<not> lg_closed l) (rs_relays s))"
    and c: "length (filter lg_closed ((rs_relays s)[i := ?l])) = length (filter lg_closed (rs_relays s)) + 1"
    using length_filter_update [OF assms(2), of "\<lambda>l. \<not> lg_closed l" ?l] length_filter_update [OF assms(2), of lg_closed ?l] False
    by simp_all
  have pos: "rs_conns s \<noteq> 0" using assms(1) n unfolding relay_inv_def by linarith
  have "list_all lg_onClose ((rs_relays s)[i := ?l])"
    using assms on by (simp add: relay_inv_def list_all_length nth_list_update)
  moreover define ls where "ls = close_line AccessLog ?l now # (if lg_firstErr (rs_relays s ! i) \<noteq> None then [close_line ServiceLog ?l now] else [])"
  moreover have "access_lines ls = 1" unfolding ls_def by (rule access_lines_close)
  moreover have "relay_close now berr i s = Some (s\<lparr>rs_relays := (rs_relays s)[i := ?l], rs_log := rs_log s @ ls, rs_conns := rs_conns s - 1\<rparr>)"
    using pos on by (simp add: relay_close_def lg_Close_open [OF False] wg_Done_def Let_def ls_def)
  ultimately show ?thesis using assms(1) n c by (simp add: relay_inv_def)
qed

lemma relay_step_inv: "relay_step s s' \<Longrightarrow> relay_inv s \<Longrightarrow> relay_inv s'"
proof (induction rule: relay_step.induct)
  case (r_close i s now berr s')
  then show ?case using relay_close_ok [of s i now berr] by auto
next
  case (r_failed s info result err)
  then show ?case by (simp add: relay_inv_def relay_failed_def logFailure_def access_lines_def)
next
  case (r_open s info now)
  then show ?case by (simp add: relay_inv_def relay_open_def new_relay_def)
qed (simp_all add: relay_inv_io)

lemma relay_reachable_inv: "relay_reachable s \<Longrightarrow> relay_inv s"
proof (induction rule: relay_reachable.induct)
  case r_start
  show ?case by (simp add: relay_inv_def access_lines_def)
qed (rule relay_step_inv)


lemma sample_relay_reachable:
  "relay_reachable (relay_open sample_info 0 \<lparr>rs_conns = 0, rs_relays = [], rs_log = [], rs_failed = 0\<rparr>)"
  by (rule r_reach [OF r_start r_open])


section \<open>One access line per connection\<close>

lemma lg_run_closed: "lg_closed l \<Longrightarrow> fst (lg_run ops l) = [] \<and> fst (snd (lg_run ops l)) = 0"
proof (induction ops arbitrary: l)
  case (Cons op ops)
  then show ?case by (cases op) (auto split: prod.splits)
qed simp

lemma lg_run_append: "list_all (\<lambda>op. \<not> is_close op) pre \<Longrightarrow> lg_run (pre @ ops) l = lg_run ops (snd (snd (lg_run pre l)))"
proof (induction pre arbitrary: l)
  case (Cons op pre)
  then show ?case by (cases op) (simp_all add: is_close_def)
qed simp

lemma lg_run_fields:
  "list_all (\<lambda>op. \<not> is_close op) pre \<Longrightarrow> lg_info (snd (snd (lg_run pre l))) = lg_info l \<and> lg_t0 (snd (snd (lg_run pre l))) = lg_t0 l
     \<and> lg_closed (snd (snd (lg_run pre l))) = lg_closed l \<and> lg_onClose (snd (snd (lg_run pre l))) = lg_onClose l"
proof (induction pre arbitrary: l)
  case (Cons op pre)
  then show ?case by (cases op) (simp_all add: is_close_def)
qed simp

lemma lg_run_counts:
  "list_all (\<lambda>op. \<not> is_close op) pre \<Longrightarrow> lg_up l = wrap64 (lg_up l) \<Longrightarrow> lg_down l = wrap64 (lg_down l) \<Longrightarrow>
   lg_up (snd (snd (lg_run pre l))) = wrap64 (lg_up l + ops_up pre) \<and> lg_down (snd (snd (lg_run pre l))) = wrap64 (lg_down l + ops_down pre)"
proof (induction pre arbitrary: l)
  case (Cons op pre)
  then show ?case by (cases op) (simp_all add: is_close_def wrap64_add add.assoc)
qed simp

lemma lg_run_err:
  "list_all (\<lambda>op. \<not> is_close op) pre \<Longrightarrow>
   lg_firstErr (snd (snd (lg_run pre l))) = (if lg_firstErr l = None then ops_err pre else lg_firstErr l)"
proof (induction pre arbitrary: l)
  case (Cons op pre)
  then show ?case by (cases op) (simp_all add: is_close_def relayErr_not_None)
qed simp

lemma wrap64_0 [simp]: "wrap64 0 = 0"
  by (simp add: wrap64_def)

text \<open>
  One access line per relay. However its reads, writes and closes are ordered, a relay writes one access line, at its first
  \<open>Close\<close>, with the bytes moved before it in each direction (modulo 2 to the 64th), the time since the dial, and
  \<open>relay_error\<close> exactly when a transfer before it failed for another reason than the end of the stream or our own close;
  it retires from the drain counter once.
\<close>

theorem relay_one_access_line:
  assumes "list_all (\<lambda>op. \<not> is_close op) pre"
  shows "case lg_run (pre @ LClose now berr # post) (new_relay info t0) of (ls, hooks, l) \<Rightarrow>
    access_lines ls = 1 \<and> hooks = 1 \<and>
    hd ls = (AccessLog, connInfo_fields info @ [(''result'', LStr (if ops_err pre = None then ''ok'' else ''relay_error'')),
      (''ms'', LInt (Milliseconds (time_Sub now t0))), (''bytes_up'', LInt (wrap64 (ops_up pre))), (''bytes_down'', LInt (wrap64 (ops_down pre)))])"
proof -
  define l where "l = snd (snd (lg_run pre (new_relay info t0)))"
  have r: "lg_run (pre @ LClose now berr # post) (new_relay info t0) = lg_run (LClose now berr # post) l"
    using lg_run_append [OF assms] by (simp add: l_def)
  have l: "lg_info l = info" "lg_t0 l = t0" "\<not> lg_closed l" "lg_onClose l" "lg_firstErr l = ops_err pre"
    "lg_up l = wrap64 (ops_up pre)" "lg_down l = wrap64 (ops_down pre)"
    using lg_run_fields [OF assms, of "new_relay info t0"] lg_run_counts [OF assms, of "new_relay info t0"]
      lg_run_err [OF assms, of "new_relay info t0"]
    by (simp_all add: l_def new_relay_def)
  let ?l = "l\<lparr>lg_closed := True\<rparr>"
  let ?c = "close_line AccessLog ?l now # (if lg_firstErr l \<noteq> None then [close_line ServiceLog ?l now] else [])"
  have post: "fst (lg_run post ?l) = []" "fst (snd (lg_run post ?l)) = 0" using lg_run_closed [of ?l post] by simp_all
  have run: "lg_run (LClose now berr # post) l = (?c, 1, snd (snd (lg_run post ?l)))"
    using post by (cases "lg_run post ?l") (simp add: lg_Close_open l(3,4))
  have line: "close_line AccessLog ?l now = (AccessLog, connInfo_fields info @ [(''result'', LStr (if ops_err pre = None then ''ok'' else ''relay_error'')),
      (''ms'', LInt (Milliseconds (time_Sub now t0))), (''bytes_up'', LInt (wrap64 (ops_up pre))), (''bytes_down'', LInt (wrap64 (ops_down pre)))])"
    by (simp add: close_line_def l)
  show ?thesis unfolding r run prod.case list.sel line [symmetric] using access_lines_close by simp
qed

theorem relay_one_access_line_witness:
  "access_lines (fst (lg_run [LWrite 10 None, LRead 20 (Some ErrEOF), LClose 5 None, LRead 0 (Some ErrClosed), LClose 6 None] (new_relay sample_info 0))) = 1"
  using relay_one_access_line [where pre = "[LWrite 10 None, LRead 20 (Some ErrEOF)]" and now = 5 and berr = None
    and post = "[LRead 0 (Some ErrClosed), LClose 6 None]" and info = sample_info and ?t0.0 = 0]
  by (simp add: is_close_def split: prod.splits)

end
