(* ===== verification/Socks5.thy ===== *)
theory Socks5
  imports Relay
begin

text \<open>
  \<open>socks5.go\<close>: what the program hands to the SOCKS5 library (the dial callback, the resolver, the associate handler) and its own
  accept loop and handshake deadlines. The library itself is outside: that it passes the context the resolver returned on to the dial
  callback is in the properties as the context argument. A request context is the failed resolution it carries, if any.
\<close>

section \<open>Model\<close>

definition socks5HandshakeTimeout :: duration where
  "socks5HandshakeTimeout = 30 * time_Second"

record resolveFailure =
  rf_route :: Route
  rf_reason :: string
  rf_err :: goerr

record socks_request =
  sr_FQDN :: string
  sr_RemoteAddr :: string

text \<open>
  Connections in the handshake: the map from client address to connection, and the deadline of each connection. \<open>hs_dialed\<close> are the
  connections whose dial callback has run, for the specification only.
\<close>

record handshake_state =
  hs_map :: "(string, nat) gomap"
  hs_deadline :: "nat \<Rightarrow> time option"
  hs_dialed :: "nat set"

record socks_state =
  sk_relays :: relay_state
  sk_connIDs :: "64 word"
  sk_dns :: dnsCache
  sk_hs :: handshake_state

definition lift_deadline :: "string \<Rightarrow> handshake_state \<Rightarrow> handshake_state" where
  "lift_deadline src hs =
     (case map_of (hs_map hs) src of
        Some c \<Rightarrow> hs\<lparr>hs_deadline := (hs_deadline hs)(c := None), hs_dialed := insert c (hs_dialed hs)\<rparr>
      | None \<Rightarrow> hs)"

text \<open>The text of the \<open>AddrError\<close> of \<open>net.SplitHostPort\<close>.\<close>

definition AddrError :: "string \<Rightarrow> string \<Rightarrow> goerr" where
  "AddrError addr reason = ErrText ((if addr = [] then [] else ''address '' @ addr @ '': '') @ reason)"

text \<open>The dial callback; its connection is given by its index among the relays.\<close>

definition socks_dial ::
    "env \<Rightarrow> Opener \<Rightarrow> resolveFailure option \<Rightarrow> string \<Rightarrow> socks_request \<Rightarrow> socks_state \<Rightarrow> (goerr + nat) \<times> socks_state" where
  "socks_dial env opener ctx addr request s =
     (case SplitHostPort addr of
        Inl e \<Rightarrow> (Inl (ErrWrap (''invalid destination address '' @ Quote addr @ '': '') (AddrError addr e) []), s)
      | Inr (host, port) \<Rightarrow>
          (let portInt = fst (Atoi port);
               host = (if sr_FQDN request \<noteq> [] then sr_FQDN request else host);
               src = sr_RemoteAddr request;
               cid = nextConnID (sk_connIDs s);
               s = s\<lparr>sk_hs := lift_deadline src (sk_hs s), sk_connIDs := cid\<rparr>;
               info = \<lparr>ci_id = cid, ci_proto = ''socks5'', ci_src = src, ci_host = host, ci_dst = [], ci_reason = [],
                       ci_port = portInt, ci_route = RouteDirect, ci_family = o_family opener, ci_dialMS = 0\<rparr>
           in case ctx of
                Some rf \<Rightarrow>
                  (let info = info\<lparr>ci_route := rf_route rf, ci_reason := rf_reason rf\<rparr> in
                   (Inl ErrResolveFailed, s\<lparr>sk_relays := relay_failed info ''resolve_error'' (rf_err rf) (sk_relays s)\<rparr>))
              | None \<Rightarrow>
                  (let (start, c) = time_Now env (sk_dns s) in
                   case Open env opener src ''socks5'' host portInt c of
                     ((res, route, reason), c) \<Rightarrow>
                       (let (end', c) = time_Now env c;
                            info = info\<lparr>ci_dst := (case res of Inr (conn, dst) \<Rightarrow> dst | Inl e \<Rightarrow> []), ci_route := route, ci_reason := reason,
                                        ci_dialMS := Milliseconds (time_Sub end' start)\<rparr>
                        in case res of
                             Inl err \<Rightarrow> (Inl err, s\<lparr>sk_dns := c, sk_relays := relay_failed info ''dial_error'' err (sk_relays s)\<rparr>)
                           | Inr (conn, dst) \<Rightarrow>
                               (let (t0, c) = time_Now env c in
                                (Inr (length (rs_relays (sk_relays s))),
                                 s\<lparr>sk_dns := c, sk_relays := relay_open info t0 (sk_relays s)\<rparr>))))))"

text \<open>
  \<open>openerResolver.Resolve\<close>: the context, the address and never an error. \<open>net.IPv4zero\<close> is in its 16-byte form.
\<close>

definition IPv4zero :: net_IP where
  "IPv4zero = replicate 10 0 @ [255, 255] @ replicate 4 0"

definition socks_Resolve ::
    "env \<Rightarrow> Opener \<Rightarrow> resolveFailure option \<Rightarrow> string \<Rightarrow> dnsCache \<Rightarrow> (resolveFailure option \<times> net_IP \<times> goerr option) \<times> dnsCache" where
  "socks_Resolve env opener ctx host c =
     (case Resolve env opener host 0 c of
        ((Inl err, route, reason), c) \<Rightarrow> ((Some \<lparr>rf_route = route, rf_reason = reason, rf_err = err\<rparr>, IPv4zero, None), c)
      | ((Inr ip, route, reason), c) \<Rightarrow> ((ctx, ip, None), c))"

text \<open>UDP ASSOCIATE: the reply is the library's command-not-supported code, sent by the library's \<open>SendReply\<close>.\<close>

definition socks_associate :: "('code \<Rightarrow> goerr option) \<Rightarrow> 'code \<Rightarrow> goerr option" where
  "socks_associate SendReply RepCommandNotSupported = SendReply RepCommandNotSupported"

subsection \<open>Serving connections\<close>

text \<open>\<open>serveConn\<close>: before and after the library's \<open>ServeConn\<close>.\<close>

definition serve_begin :: "string \<Rightarrow> nat \<Rightarrow> time \<Rightarrow> handshake_state \<Rightarrow> handshake_state" where
  "serve_begin src conn now hs =
     hs\<lparr>hs_deadline := (hs_deadline hs)(conn := Some (now + socks5HandshakeTimeout)), hs_map := AList.update src conn (hs_map hs)\<rparr>"

definition serve_end :: "string \<Rightarrow> handshake_state \<Rightarrow> handshake_state" where
  "serve_end src hs = hs\<lparr>hs_map := AList.delete src (hs_map hs)\<rparr>"

record SOCKS5Server =
  so_opener :: Opener
  so_handshakeTimeout :: duration
  so_closed :: bool

definition NewSOCKS5Server :: "goerr option \<Rightarrow> Opener \<Rightarrow> goerr + SOCKS5Server" where
  "NewSOCKS5Server listenErr opener =
     (case listenErr of
        Some err \<Rightarrow> Inl err
      | None \<Rightarrow> Inr \<lparr>so_opener = opener, so_handshakeTimeout = socks5HandshakeTimeout, so_closed = False\<rparr>)"

text \<open>The accept loop: the connections served, and whether the error that ended it was logged.\<close>

fun socks_accept_loop :: "bool \<Rightarrow> (goerr + 'c) list \<Rightarrow> 'c list \<times> bool" where
  "socks_accept_loop shut [] = ([], False)"
| "socks_accept_loop shut (Inl err # rs) = ([], \<not> shut)"
| "socks_accept_loop shut (Inr c # rs) = (case socks_accept_loop shut rs of (cs, lg) \<Rightarrow> (c # cs, lg))"

definition socks_Shutdown :: "goerr option \<Rightarrow> drain_result \<Rightarrow> goerr \<Rightarrow> SOCKS5Server \<Rightarrow> goerr option \<times> SOCKS5Server" where
  "socks_Shutdown closeErr drain ctxErr s =
     (server_Shutdown (\<not> so_closed s) closeErr drain ctxErr, s\<lparr>so_closed := True\<rparr>)"

section \<open>Specification\<close>

text \<open>
  The handshakes of one server: a connection \<open>conn\<close> that was never served before begins, under a client address that no
  connection being served has; a callback runs; a connection ends.
\<close>

inductive handshakes :: "handshake_state \<Rightarrow> bool" where
  h_start: "handshakes \<lparr>hs_map = [], hs_deadline = \<lambda>_. None, hs_dialed = {}\<rparr>"
| h_begin: "handshakes hs \<Longrightarrow> map_of (hs_map hs) src = None \<Longrightarrow> conn \<notin> ran (map_of (hs_map hs)) \<Longrightarrow> conn \<notin> hs_dialed hs
    \<Longrightarrow> handshakes (serve_begin src conn now hs)"
| h_dial: "handshakes hs \<Longrightarrow> handshakes (lift_deadline src hs)"
| h_end: "handshakes hs \<Longrightarrow> handshakes (serve_end src hs)"

definition sample_socks_state :: socks_state where
  "sample_socks_state = \<lparr>sk_relays = \<lparr>rs_conns = 0, rs_relays = [], rs_log = [], rs_failed = 0\<rparr>, sk_connIDs = 0,
     sk_dns = sample_cache [''8.8.8.8:53''], sk_hs = \<lparr>hs_map = [], hs_deadline = \<lambda>_. None, hs_dialed = {}\<rparr>\<rparr>"

definition sample_socks_request :: socks_request where
  "sample_socks_request = \<lparr>sr_FQDN = ''nx.example'', sr_RemoteAddr = ''127.0.0.1:4000''\<rparr>"

section \<open>Properties\<close>

lemma socks_dial_failed_ctx:
  assumes "SplitHostPort addr = Inr (host, port)"
  shows "\<exists>info. socks_dial env opener (Some rf) addr request s =
      (Inl ErrResolveFailed, s\<lparr>sk_hs := lift_deadline (sr_RemoteAddr request) (sk_hs s), sk_connIDs := nextConnID (sk_connIDs s),
         sk_relays := relay_failed info ''resolve_error'' (rf_err rf) (sk_relays s)\<rparr>)
    \<and> ci_host info = (if sr_FQDN request \<noteq> [] then sr_FQDN request else host) \<and> ci_src info = sr_RemoteAddr request
    \<and> ci_route info = rf_route rf \<and> ci_reason info = rf_reason rf"
  unfolding socks_dial_def assms sum.case prod.case Let_def option.case 
  by (rule exI [of _ "\<lparr>ci_id = nextConnID (sk_connIDs s), ci_proto = ''socks5'', ci_src = sr_RemoteAddr request,
      ci_host = (if sr_FQDN request \<noteq> [] then sr_FQDN request else host), ci_dst = [], ci_reason = rf_reason rf,
      ci_port = fst (Atoi port), ci_route = rf_route rf, ci_family = o_family opener, ci_dialMS = 0\<rparr>"]) simp

text \<open>
  C20: A name that does not resolve is never dialed, and is logged. When the resolution of the requested name fails, the resolver still
  succeeds towards the library; the dial callback that gets its context answers with \<open>errResolveFailed\<close>, asks and
  dials nothing, takes no place in the drain counter and writes one access line with the route and the reason of the
  decision.
\<close>

theorem socks_unresolved_not_dialed:
  assumes "Resolve env opener (sr_FQDN request) 0 c = ((Inl err, route, reason), c')"
    and "socks_Resolve env opener None (sr_FQDN request) c = ((ctx, ip, rerr), c')"
    and "SplitHostPort addr = Inr (host, port)" and "sr_FQDN request \<noteq> []"
  shows "rerr = None \<and> (case socks_dial env opener ctx addr request s of (res, s') \<Rightarrow>
      res = Inl ErrResolveFailed \<and> sk_dns s' = sk_dns s \<and> rs_conns (sk_relays s') = rs_conns (sk_relays s)
      \<and> (\<exists>info. rs_log (sk_relays s') = rs_log (sk_relays s) @ logFailure info ''resolve_error'' err
           \<and> ci_host info = sr_FQDN request \<and> ci_src info = sr_RemoteAddr request \<and> ci_route info = route \<and> ci_reason info = reason))"
proof -
  have ctx: "ctx = Some \<lparr>rf_route = route, rf_reason = reason, rf_err = err\<rparr>" "rerr = None"
    using assms(1,2) by (simp_all add: socks_Resolve_def)
  obtain info where i: "socks_dial env opener ctx addr request s =
      (Inl ErrResolveFailed, s\<lparr>sk_hs := lift_deadline (sr_RemoteAddr request) (sk_hs s), sk_connIDs := nextConnID (sk_connIDs s),
         sk_relays := relay_failed info ''resolve_error'' err (sk_relays s)\<rparr>)"
    "ci_host info = sr_FQDN request" "ci_src info = sr_RemoteAddr request" "ci_route info = route" "ci_reason info = reason"
    using socks_dial_failed_ctx [OF assms(3), of env opener "the ctx" request s] assms(4) unfolding ctx by auto
  then show ?thesis unfolding i(1) prod.case relay_failed_def using ctx(2) by auto
qed

text \<open>
  The name decides, not the address. For a request by name the callback does the same whatever address the library put into the
  destination: the route policy, the dial and the log use the name.
\<close>

theorem socks_name_decides:
  assumes "sr_FQDN request \<noteq> []" and "SplitHostPort addr = Inr (host, port)" and "SplitHostPort addr' = Inr (host', port)"
  shows "socks_dial env opener ctx addr request s = socks_dial env opener ctx addr' request s"
  unfolding socks_dial_def assms(2,3) sum.case prod.case using assms(1) by (simp only: if_True simp_thms)

lemma socks_dial_relays:
  "sk_relays (snd (socks_dial env opener ctx addr request s)) = sk_relays s
   \<or> relay_step (sk_relays s) (sk_relays (snd (socks_dial env opener ctx addr request s)))"
  by (auto simp: socks_dial_def Let_def intro: relay_step.intros split: sum.split prod.split option.split)

text \<open>
  The callback keeps the drain counter. Its effect on the relays is a step of the relay model, a successful dial or a failed one, or nothing when the
  destination is malformed; so in a server whose relays were reachable they stay so and the drain stays exact.
\<close>

theorem socks_dial_refines_relay:
  assumes "relay_reachable (sk_relays s)"
  shows "relay_reachable (sk_relays (snd (socks_dial env opener ctx addr request s)))"
  using assms socks_dial_relays [of env opener ctx addr request s] r_reach by metis

theorem socks_dial_refines_relay_witness:
  "relay_reachable (sk_relays (snd (socks_dial sample_env sample_opener_ipless None ''0.0.0.0:443'' sample_socks_request sample_socks_state)))"
  by (rule socks_dial_refines_relay) (simp add: sample_socks_state_def r_start)

theorem socks_name_decides_witness:
  "socks_dial sample_env sample_opener_ipless None ''10.0.0.1:443'' sample_socks_request sample_socks_state =
   socks_dial sample_env sample_opener_ipless None ''93.184.216.34:443'' sample_socks_request sample_socks_state"
proof (rule socks_name_decides)
  show "SplitHostPort ''10.0.0.1:443'' = Inr (''10.0.0.1'', ''443'')" "SplitHostPort ''93.184.216.34:443'' = Inr (''93.184.216.34'', ''443'')"
    by code_simp+
qed (simp add: sample_socks_request_def)

theorem socks_unresolved_not_dialed_witness:
  "fst (socks_dial sample_env sample_opener_ipless (fst (fst (socks_Resolve sample_env sample_opener_ipless None ''nx.example'' (sk_dns sample_socks_state))))
     ''0.0.0.0:443'' sample_socks_request sample_socks_state) = Inl ErrResolveFailed"
proof -
  let ?r = "Resolve sample_env sample_opener_ipless (sr_FQDN sample_socks_request) 0 (sk_dns sample_socks_state)"
  let ?s = "socks_Resolve sample_env sample_opener_ipless None (sr_FQDN sample_socks_request) (sk_dns sample_socks_state)"
  have n: "sr_FQDN sample_socks_request = ''nx.example''" by (simp add: sample_socks_request_def)
  have a: "SplitHostPort ''0.0.0.0:443'' = Inr (''0.0.0.0'', ''443'')" by code_simp
  have "isl (fst (fst ?r))" by code_simp
  then obtain e where r: "?r = ((Inl e, fst (snd (fst ?r)), snd (snd (fst ?r))), snd ?r)" by (metis prod.collapse sum.collapse(1))
  have "snd ?s = snd ?r" by (simp add: socks_Resolve_def split: prod.split sum.split)
  then have s: "?s = ((fst (fst ?s), fst (snd (fst ?s)), snd (snd (fst ?s))), snd ?r)" by (metis prod.collapse)
  show ?thesis
    using socks_unresolved_not_dialed [OF r s a, of sample_socks_state] n by (simp split: prod.splits)
qed

section \<open>Handshake deadlines\<close>

lemma map_of_update: "map_of (AList.update k v m) = (map_of m)(k \<mapsto> v)"
  by (rule update_conv')

lemma map_of_delete: "map_of (AList.delete k m) = (map_of m)(k := None)"
  by (rule delete_conv')

lemma serve_begin_fields:
  "hs_map (serve_begin src conn now hs) = AList.update src conn (hs_map hs)"
  "hs_deadline (serve_begin src conn now hs) = (hs_deadline hs)(conn := Some (now + socks5HandshakeTimeout))"
  "hs_dialed (serve_begin src conn now hs) = hs_dialed hs"
  by (simp_all add: serve_begin_def)

lemma handshakes_inv:
  "handshakes hs \<Longrightarrow> (\<forall>src c. map_of (hs_map hs) src = Some c \<longrightarrow> (hs_deadline hs c = None \<longleftrightarrow> c \<in> hs_dialed hs))
     \<and> inj_on (map_of (hs_map hs)) (dom (map_of (hs_map hs)))"
proof (induction rule: handshakes.induct)
  case (h_begin hs src conn now)
  have "inj_on ((map_of (hs_map hs))(src \<mapsto> conn)) (dom ((map_of (hs_map hs))(src \<mapsto> conn)))"
    using h_begin by (auto simp: inj_on_def ran_def dom_def)
  moreover have "\<forall>s c. ((map_of (hs_map hs))(src \<mapsto> conn)) s = Some c \<longrightarrow>
      (((hs_deadline hs)(conn := Some (now + socks5HandshakeTimeout))) c = None \<longleftrightarrow> c \<in> hs_dialed hs)"
    using h_begin by (auto simp: ran_def)
  ultimately show ?case unfolding serve_begin_fields map_of_update by blast
next
  case (h_dial hs src)
  then show ?case by (auto simp: lift_deadline_def split: option.splits)
next
  case (h_end hs src)
  then show ?case by (auto simp: serve_end_def map_of_delete inj_on_def dom_def)
qed simp

text \<open>
  A silent client keeps its deadline. While a connection is served its handshake deadline is gone exactly when its own dial callback has run, so
  the relay is unbounded and a client that does not finish the handshake is cut off; the callback of a client at another
  address does not change that.
\<close>

theorem handshake_deadline_own_dial:
  assumes "handshakes hs" and "map_of (hs_map hs) src = Some conn"
  shows "(hs_deadline hs conn = None \<longleftrightarrow> conn \<in> hs_dialed hs) \<and> hs_deadline (lift_deadline src hs) conn = None
    \<and> (src' \<noteq> src \<longrightarrow> hs_deadline (lift_deadline src' hs) conn = hs_deadline hs conn)"
proof -
  have inv: "hs_deadline hs conn = None \<longleftrightarrow> conn \<in> hs_dialed hs" and inj: "inj_on (map_of (hs_map hs)) (dom (map_of (hs_map hs)))"
    using handshakes_inv [OF assms(1)] assms(2) by blast+
  have "map_of (hs_map hs) src' \<noteq> Some conn" if "src' \<noteq> src"
    using inj assms(2) that by (metis domI inj_onD)
  then show ?thesis using inv assms(2) by (auto simp: lift_deadline_def split: option.split)
qed

theorem handshake_deadline_own_dial_witness:
  "hs_deadline (lift_deadline ''b'' (serve_begin ''a'' 1 0 \<lparr>hs_map = [], hs_deadline = \<lambda>_. None, hs_dialed = {}\<rparr>)) 1 = Some socks5HandshakeTimeout"
proof -
  let ?h = "serve_begin ''a'' 1 0 \<lparr>hs_map = [], hs_deadline = \<lambda>_. None, hs_dialed = {}\<rparr>"
  have "handshakes ?h" by (rule h_begin [OF h_start]) simp_all
  moreover have "map_of (hs_map ?h) ''a'' = Some 1" by (simp add: serve_begin_def)
  ultimately have "hs_deadline (lift_deadline ''b'' ?h) 1 = hs_deadline ?h 1"
    using handshake_deadline_own_dial [of ?h "''a''" 1 "''b''"] by simp
  then show ?thesis by (simp add: serve_begin_def)
qed

end
