(* ===== verification/HttpProxy.thy ===== *)
theory HttpProxy
  imports Relay Utils
begin

text \<open>
  \<open>httpproxy.go\<close>: the HTTP forward proxy. A handler takes what \<open>http.ReadRequest\<close> gave and the environment of the connection
  (\<open>http_env\<close>: what the opener sees, what the upstream accepts and answers, the client's bytes behind the headers) and yields the bytes
  handed to the client and accepted by the upstream, the log lines and the DNS cache. Several writes or reads of one \<open>io.Copy\<close>
  in one direction are taken together where their order does not matter. A header map is ranged over in an unspecified order,
  a parameter. The idle guard is modelled on its own here; theory \<open>HttpGuard\<close> interleaves it with the request it guards.
\<close>

section \<open>Model\<close>

definition httpIdleTimeout :: duration where
  "httpIdleTimeout = 5 * time_Minute"

definition headerReadTimeout :: duration where
  "headerReadTimeout = 30 * time_Second"

definition maxReframedBody :: int where
  "maxReframedBody = 33554432"

definition CRLF :: string where
  "CRLF = [CHR 0x0D, CHR 0x0A]"

text \<open>\<open>http.StatusText\<close> of the codes the proxy sends.\<close>

definition StatusText :: "int \<Rightarrow> string" where
  "StatusText code =
     (if code = 400 then ''Bad Request'' else if code = 413 then ''Request Entity Too Large''
      else if code = 431 then ''Request Header Fields Too Large'' else if code = 502 then ''Bad Gateway''
      else if code = 504 then ''Gateway Timeout'' else [])"

definition writeHTTPErr :: "int \<Rightarrow> string \<Rightarrow> string" where
  "writeHTTPErr code msg =
     (let body = msg @ CRLF in
      ''HTTP/1.1 '' @ Itoa code @ '' '' @ StatusText code @ CRLF @ ''Content-Length: '' @ Itoa (int (length body)) @ CRLF
      @ ''Connection: close'' @ CRLF @ CRLF @ body)"

text \<open>
  \<open>errors.As(err, &nerr)\<close> for \<open>net.Error\<close> finds the first error of the chain with a \<open>Timeout\<close> method; an \<open>OpError\<close> answers for its
  cause, \<open>net.ErrClosed\<close> with false.
\<close>

fun err_Timeout :: "goerr \<Rightarrow> bool" where
  "err_Timeout (ErrTimeout s) = True"
| "err_Timeout (OpError s (Some e)) = err_Timeout e"
| "err_Timeout e = False"

definition is_netError :: "goerr \<Rightarrow> bool" where
  "is_netError e = (case e of ErrTimeout s \<Rightarrow> True | OpError s c \<Rightarrow> True | ErrClosed \<Rightarrow> True | _ \<Rightarrow> False)"

definition as_netError :: "goerr \<Rightarrow> goerr option" where
  "as_netError err = List.find is_netError (err_chain err)"

definition statusForDialErr :: "goerr \<Rightarrow> int" where
  "statusForDialErr err = (case as_netError err of Some nerr \<Rightarrow> if err_Timeout nerr then 504 else 502 | None \<Rightarrow> 502)"

subsection \<open>Requests\<close>

type_synonym header = "(string \<times> string list) list"

text \<open>A request: \<open>rq_abs\<close> is \<open>req.URL != nil && req.URL.IsAbs()\<close>, \<open>rq_body\<close> the bytes of the body and the error after them.\<close>

record request =
  rq_Method :: string
  rq_abs :: bool
  rq_scheme :: string
  rq_urlHost :: string
  rq_requestURI :: string
  rq_Host :: string
  rq_Header :: header
  rq_TransferEncoding :: "string list"
  rq_ContentLength :: int
  rq_body :: "string \<times> goerr option"

text \<open>\<open>url.Hostname\<close> and \<open>url.Port\<close>.\<close>

definition validOptionalPort :: "string \<Rightarrow> bool" where
  "validOptionalPort p \<longleftrightarrow> p = [] \<or> (hd p = CHR '':'' \<and> list_all is_digit (tl p))"

definition url_splitHostPort :: "string \<Rightarrow> string \<times> string" where
  "url_splitHostPort hostPort =
     (let (host, port) = (case LastIndexByte hostPort CHR '':'' of
            Some i \<Rightarrow> if validOptionalPort (drop i hostPort) then (take i hostPort, drop (Suc i) hostPort) else (hostPort, [])
          | None \<Rightarrow> (hostPort, []))
      in (if HasPrefix host ''['' \<and> HasSuffix host '']'' then take (length host - 2) (drop 1 host) else host, port))"

subsection \<open>The connection\<close>

text \<open>
  \<open>he_write i data\<close> answers the \<open>i\<close>-th write to the upstream: the number of bytes accepted and the error; without an error it is all of
  them. \<open>he_answer\<close> is what the response copy reads from the upstream and the error that ended it. \<open>he_rest\<close> is what the client
  sends behind the request headers, the part that is already buffered included, and \<open>he_copy\<close> the
  transfers of the two copies of a CONNECT tunnel in the order in which they happen: the next \<open>n\<close> bytes of the client are written
  upstream, or some bytes are read from the upstream.
\<close>

datatype copy_ev = CopyUp nat "goerr option" | CopyDown string "goerr option"

record http_env =
  he_env :: env
  he_range :: "header \<Rightarrow> header"
  he_write :: "nat \<Rightarrow> string \<Rightarrow> nat \<times> goerr option"
  he_answer :: "string \<times> goerr option"
  he_rest :: string
  he_copy :: "copy_ev list"
  he_closeErr :: "goerr option"

record http_out =
  ho_client :: string
  ho_upstream :: string
  ho_log :: "log_line list"
  ho_cache :: dnsCache

record HTTPProxyServer =
  hp_opener :: Opener
  hp_idleTimeout :: duration
  hp_closed :: bool
  hp_wg :: int

definition reject :: "int \<Rightarrow> string \<Rightarrow> log_line list \<Rightarrow> dnsCache \<Rightarrow> http_out" where
  "reject code msg ls c = \<lparr>ho_client = writeHTTPErr code msg, ho_upstream = [], ho_log = ls, ho_cache = c\<rparr>"

definition openUpstream ::
    "env \<Rightarrow> Opener \<Rightarrow> 64 word \<Rightarrow> string \<Rightarrow> string \<Rightarrow> int \<Rightarrow> dnsCache \<Rightarrow> (goerr + logConn) \<times> log_line list \<times> dnsCache" where
  "openUpstream env o' cid src host port c =
     (let (start, c) = time_Now env c in
      case Open env o' src ''http'' host port c of
        ((res, route, reason), c) \<Rightarrow>
          (let (end', c) = time_Now env c;
               info = \<lparr>ci_id = cid, ci_proto = ''http'', ci_src = src, ci_host = host,
                       ci_dst = (case res of Inr (conn, dst) \<Rightarrow> dst | Inl e \<Rightarrow> []), ci_reason = reason, ci_port = port,
                       ci_route = route, ci_family = o_family o', ci_dialMS = Milliseconds (time_Sub end' start)\<rparr>
           in case res of
                Inl err \<Rightarrow> (Inl err, logFailure info ''dial_error'' err, c)
              | Inr (conn, dst) \<Rightarrow>
                  (let (t0, c) = time_Now env c in (Inr ((new_relay info t0)\<lparr>lg_onClose := False\<rparr>), [], c))))"

text \<open>The end of a request: the upstream connection is closed and its access line written.\<close>

definition close_upstream :: "http_env \<Rightarrow> logConn \<Rightarrow> string \<Rightarrow> string \<Rightarrow> dnsCache \<Rightarrow> http_out" where
  "close_upstream h lc client sent c =
     (let (now, c) = time_Now (he_env h) c in
      case lg_Close now (he_closeErr h) lc of
        (r, hook, ls, lc) \<Rightarrow> \<lparr>ho_client = client, ho_upstream = sent, ho_log = ls, ho_cache = c\<rparr>)"

definition up_write :: "http_env \<Rightarrow> nat \<Rightarrow> string \<Rightarrow> logConn \<Rightarrow> (string \<times> goerr option) \<times> logConn" where
  "up_write h i data lc =
     (case he_write h i data of
        (n, None) \<Rightarrow> ((data, None), lg_Write (int (length data)) None lc)
      | (n, Some e) \<Rightarrow> ((take n data, Some e), lg_Write (int (length (take n data))) (Some e) lc))"

subsection \<open>Forwarding an absolute-form request\<close>

definition dropped_header :: "string \<Rightarrow> bool" where
  "dropped_header k \<longleftrightarrow>
     ToLower k \<in> set [''host'', ''connection'', ''proxy-connection'', ''proxy-authorization'', ''transfer-encoding'']"

definition forward_headers :: "(header \<Rightarrow> header) \<Rightarrow> request \<Rightarrow> string option \<Rightarrow> (string \<times> string) list" where
  "forward_headers rng req body =
     [(''Host'', if rq_Host req = [] then rq_urlHost req else rq_Host req)]
     @ (case body of Some b \<Rightarrow> [(''Content-Length'', Itoa (int (length b)))] | None \<Rightarrow> [])
     @ concat (map (\<lambda>(k, vs). if dropped_header k then [] else map (\<lambda>v. (k, v)) vs) (rng (rq_Header req)))
     @ [(''Connection'', ''close'')]"

definition header_line :: "string \<times> string \<Rightarrow> string" where
  "header_line kv = fst kv @ '': '' @ snd kv @ CRLF"

definition forward_head :: "(header \<Rightarrow> header) \<Rightarrow> request \<Rightarrow> string option \<Rightarrow> string" where
  "forward_head rng req body =
     rq_Method req @ '' '' @ rq_requestURI req @ '' HTTP/1.1'' @ CRLF
     @ concat (map header_line (forward_headers rng req body)) @ CRLF"

text \<open>\<open>io.ReadAll\<close> of a limited reader: at most \<open>n\<close> bytes; the error, which comes in a read of its own, only before the limit.\<close>

definition read_limited :: "int \<Rightarrow> string \<times> goerr option \<Rightarrow> string \<times> goerr option" where
  "read_limited n body = (if n \<le> int (length (fst body)) then (take (nat n) (fst body), None) else body)"

text \<open>
  The body to send with a \<open>Content-Length\<close> of its own, \<open>None\<close> for a body that is copied or absent; or the
  status and text of the error reply.
\<close>

definition reframe_body :: "request \<Rightarrow> (int \<times> string) + string option" where
  "reframe_body req =
     (let chunked = rq_TransferEncoding req \<noteq> [];
          closeDelimited = rq_ContentLength req < 0;
          hasBody = rq_ContentLength req \<noteq> 0
      in if hasBody \<and> (chunked \<or> closeDelimited) then
           (case read_limited (maxReframedBody + 1) (rq_body req) of
              (b, Some err) \<Rightarrow> Inl (413, ''Body read failed'')
            | (b, None) \<Rightarrow> if int (length b) > maxReframedBody then Inl (413, ''Body too large'') else Inr (Some b))
         else Inr None)"

definition target_port :: "request \<Rightarrow> int option" where
  "target_port req =
     (let p = snd (url_splitHostPort (rq_urlHost req)) in
      if p = [] then Some 80
      else case Atoi p of (n, None) \<Rightarrow> if validatePort n = None then Some n else None | (n, Some e) \<Rightarrow> None)"

definition unsupported_encoding :: "request \<Rightarrow> bool" where
  "unsupported_encoding req \<longleftrightarrow>
     length (rq_TransferEncoding req) > 0 \<and> \<not> (length (rq_TransferEncoding req) = 1 \<and> rq_TransferEncoding req ! 0 = ''chunked'')"

text \<open>Sending the body: the re-framed one in one write, another one copied up to its end or an error.\<close>

definition send_body :: "http_env \<Rightarrow> request \<Rightarrow> string option \<Rightarrow> logConn \<Rightarrow> (string \<times> goerr option) \<times> logConn" where
  "send_body h req body lc =
     (case body of
        Some b \<Rightarrow> up_write h 1 b lc
      | None \<Rightarrow>
          if rq_ContentLength req \<noteq> 0 then
            (case (if fst (rq_body req) = [] then (([], None), lc) else up_write h 1 (fst (rq_body req)) lc) of
               ((sent, Some e), lc) \<Rightarrow> ((sent, Some e), lc)
             | ((sent, None), lc) \<Rightarrow> ((sent, snd (rq_body req)), lc))
          else (([], None), lc))"

definition forward_request :: "http_env \<Rightarrow> request \<Rightarrow> logConn \<Rightarrow> dnsCache \<Rightarrow> http_out" where
  "forward_request h req lc c =
     (case reframe_body req of
        Inl (code, msg) \<Rightarrow> close_upstream h lc (writeHTTPErr code msg) [] c
      | Inr body \<Rightarrow>
          (case up_write h 0 (forward_head (he_range h) req body) lc of
             ((sent_head, _), lc) \<Rightarrow>
               (case send_body h req body lc of
                  ((sent, Some e), lc) \<Rightarrow> close_upstream h lc (writeHTTPErr 502 ''Body transfer failed'') (sent_head @ sent) c
                | ((sent, None), lc) \<Rightarrow>
                    close_upstream h (lg_Read (int (length (fst (he_answer h)))) (snd (he_answer h)) lc)
                      (fst (he_answer h)) (sent_head @ sent) c)))"

definition handleHTTP :: "http_env \<Rightarrow> Opener \<Rightarrow> 64 word \<Rightarrow> string \<Rightarrow> request \<Rightarrow> dnsCache \<Rightarrow> http_out" where
  "handleHTTP h o' cid src req c =
     (let host = fst (url_splitHostPort (rq_urlHost req)) in
      case target_port req of
        None \<Rightarrow> reject 400 ''Bad target port'' [] c
      | Some port \<Rightarrow>
          if unsupported_encoding req then reject 400 ''Unsupported Transfer-Encoding'' [] c
          else case openUpstream (he_env h) o' cid src host port c of
                 (Inl err, ls, c) \<Rightarrow> reject (statusForDialErr err) ''Connect failed'' ls c
               | (Inr lc, ls, c) \<Rightarrow> forward_request h req lc c)"

subsection \<open>CONNECT\<close>

text \<open>The two copies: the bytes for the client, the bytes accepted by the upstream, and the connection after them.\<close>

fun connect_relay :: "copy_ev list \<Rightarrow> string \<Rightarrow> logConn \<Rightarrow> string \<times> string \<times> logConn" where
  "connect_relay [] rest lc = ([], [], lc)"
| "connect_relay (CopyUp n err # evs) rest lc =
     (case connect_relay evs (drop n rest) (lg_Write (int (length (take n rest))) err lc) of
        (down, up, lc) \<Rightarrow> (down, take n rest @ up, lc))"
| "connect_relay (CopyDown s err # evs) rest lc =
     (case connect_relay evs rest (lg_Read (int (length s)) err lc) of (down, up, lc) \<Rightarrow> (s @ down, up, lc))"

definition established :: string where
  "established = ''HTTP/1.1 200 Connection Established'' @ CRLF @ CRLF"

definition handleConnect :: "http_env \<Rightarrow> Opener \<Rightarrow> 64 word \<Rightarrow> string \<Rightarrow> request \<Rightarrow> dnsCache \<Rightarrow> http_out" where
  "handleConnect h o' cid src req c =
     (case SplitHostPort (rq_urlHost req) of
        Inl err \<Rightarrow> reject 400 ''Bad CONNECT target'' [] c
      | Inr (host, port) \<Rightarrow>
          (case Atoi port of
             (portInt, err) \<Rightarrow>
               if err \<noteq> None \<or> validatePort portInt \<noteq> None then reject 400 ''Bad CONNECT target port'' [] c
               else case openUpstream (he_env h) o' cid src host portInt c of
                      (Inl err, ls, c) \<Rightarrow> reject (statusForDialErr err) ''Connect failed'' ls c
                    | (Inr lc, ls, c) \<Rightarrow>
                        (case connect_relay (he_copy h) (he_rest h) lc of
                           (down, up, lc) \<Rightarrow> close_upstream h lc (established @ down) up c)))"

subsection \<open>The server\<close>

text \<open>What \<open>http.ReadRequest\<close> gave: a request, or an error with the header limit used up or not.\<close>

datatype parsed = ReqOk request | ReqBad bool

definition handleConn :: "http_env \<Rightarrow> Opener \<Rightarrow> 64 word \<Rightarrow> string \<Rightarrow> parsed \<Rightarrow> dnsCache \<Rightarrow> http_out" where
  "handleConn h o' cid src p c =
     (case p of
        ReqBad exhausted \<Rightarrow>
          if exhausted then reject 431 ''Request Header Fields Too Large'' [] c else reject 400 ''Bad Request'' [] c
      | ReqOk req \<Rightarrow>
          if rq_Method req = ''CONNECT'' then handleConnect h o' cid src req c
          else if rq_abs req \<and> rq_scheme req = ''http'' then handleHTTP h o' cid src req c
          else reject 400 ''HTTP absolute-form or CONNECT requests only'' [] c)"

definition NewHTTPProxyServer :: "goerr option \<Rightarrow> Opener \<Rightarrow> goerr + HTTPProxyServer" where
  "NewHTTPProxyServer listenErr opener =
     (case listenErr of
        Some err \<Rightarrow> Inl err
      | None \<Rightarrow> Inr \<lparr>hp_opener = opener, hp_idleTimeout = httpIdleTimeout, hp_closed = False, hp_wg = 0\<rparr>)"

text \<open>
  The accept loop on the answers of the listener: the number of connections handed to a handler, and whether the error that ended the loop was logged; \<open>shut\<close> tells
  whether \<open>shutCh\<close> is closed when the error is seen.
\<close>

fun http_accept_loop :: "bool \<Rightarrow> (goerr + 'c) list \<Rightarrow> HTTPProxyServer \<Rightarrow> 'c list \<times> bool \<times> HTTPProxyServer" where
  "http_accept_loop shut [] s = ([], False, s)"
| "http_accept_loop shut (Inl err # rs) s = ([], \<not> shut, s)"
| "http_accept_loop shut (Inr c # rs) s =
     (case http_accept_loop shut rs (s\<lparr>hp_wg := hp_wg s + 1\<rparr>) of (cs, lg, s) \<Rightarrow> (c # cs, lg, s))"

text \<open>
  \<open>Shutdown\<close>: \<open>closeErr\<close> is the error of closing the listener, \<open>drain\<close> what the select saw and \<open>ctxErr\<close> the error of the context.
\<close>

definition http_Shutdown :: "goerr option \<Rightarrow> drain_result \<Rightarrow> goerr \<Rightarrow> HTTPProxyServer \<Rightarrow> goerr option \<times> HTTPProxyServer" where
  "http_Shutdown closeErr drain ctxErr s =
     (let first = \<not> hp_closed s; s = s\<lparr>hp_closed := True\<rparr> in
      if first \<and> closeErr \<noteq> None then (closeErr, s)
      else case drain of
             DrainDone \<Rightarrow> (None, s)
           | CtxEnded finished \<Rightarrow> (if finished then None else Some ctxErr, s))"

subsection \<open>The idle guard\<close>

definition idle_check :: "duration \<Rightarrow> duration" where
  "idle_check timeout = (let check = quot timeout 10 in if check > time_Second then time_Second else check)"

text \<open>
  The guard's goroutine on a sequence of events in the order of their times: a touch (a byte moved), a tick of the check timer or
  \<open>stop\<close>. The result is the time at which \<open>onIdle\<close> ran, if it did.
\<close>

datatype guard_event = Touch time | Tick time | Stop

fun idle_guard :: "duration \<Rightarrow> time \<Rightarrow> guard_event list \<Rightarrow> time option" where
  "idle_guard timeout prev [] = None"
| "idle_guard timeout prev (Touch t # evs) = idle_guard timeout t evs"
| "idle_guard timeout prev (Tick t # evs) =
     (if time_Sub t prev \<ge> timeout then Some t else idle_guard timeout prev evs)"
| "idle_guard timeout prev (Stop # evs) = None"

section \<open>Specification\<close>

text \<open>The requests for which the proxy opens a connection.\<close>

definition connect_target :: "request \<Rightarrow> (string \<times> int) option" where
  "connect_target req =
     (case SplitHostPort (rq_urlHost req) of
        Inl e \<Rightarrow> None
      | Inr (host, port) \<Rightarrow>
          if snd (Atoi port) = None \<and> 1 \<le> fst (Atoi port) \<and> fst (Atoi port) \<le> 65535 then Some (host, fst (Atoi port)) else None)"

definition http_target :: "request \<Rightarrow> (string \<times> int) option" where
  "http_target req =
     (if rq_abs req \<and> rq_scheme req = ''http'' \<and> \<not> unsupported_encoding req
      then map_option (Pair (fst (url_splitHostPort (rq_urlHost req)))) (target_port req) else None)"

definition proxied_target :: "parsed \<Rightarrow> (string \<times> int) option" where
  "proxied_target p =
     (case p of ReqBad b \<Rightarrow> None | ReqOk req \<Rightarrow> if rq_Method req = ''CONNECT'' then connect_target req else http_target req)"

definition named :: "string \<Rightarrow> (string \<times> string) list \<Rightarrow> (string \<times> string) list" where
  "named n hs = filter (\<lambda>kv. ToLower (fst kv) = n) hs"

definition copied_headers :: "header \<Rightarrow> (string \<times> string) list" where
  "copied_headers kvs = concat (map (\<lambda>(k, vs). if dropped_header k then [] else map (\<lambda>v. (k, v)) vs) kvs)"

text \<open>The access line of a relay that moved \<open>up\<close> and \<open>down\<close> bytes.\<close>

definition counted_line :: "int \<Rightarrow> int \<Rightarrow> log_line \<Rightarrow> bool" where
  "counted_line up down l \<longleftrightarrow> fst l = AccessLog \<and> set [(''bytes_up'', LInt (wrap64 up)), (''bytes_down'', LInt (wrap64 down))] \<subseteq> set (snd l)"

fun last_touch :: "time \<Rightarrow> guard_event list \<Rightarrow> time" where
  "last_touch start [] = start"
| "last_touch start (Touch t # evs) = last_touch t evs"
| "last_touch start (e # evs) = last_touch start evs"

fun guard_times :: "guard_event list \<Rightarrow> time list" where
  "guard_times [] = []"
| "guard_times (Touch t # evs) = t # guard_times evs"
| "guard_times (Tick t # evs) = t # guard_times evs"
| "guard_times (Stop # evs) = guard_times evs"

section \<open>Concrete requests\<close>

definition sample_post :: request where
  "sample_post = \<lparr>rq_Method = ''POST'', rq_abs = True, rq_scheme = ''http'', rq_urlHost = ''93.184.216.34:8080'', rq_requestURI = ''/p'',
     rq_Host = ''a.example:8080'', rq_Header = [(''Accept'', [''text/html'', ''*/*'']), (''Proxy-Connection'', [''keep-alive''])],
     rq_TransferEncoding = [''chunked''], rq_ContentLength = -1, rq_body = (''abc'', None)\<rparr>"

definition sample_connect :: request where
  "sample_connect = sample_post\<lparr>rq_Method := ''CONNECT'', rq_abs := False, rq_scheme := [], rq_urlHost := ''93.184.216.34:443'',
     rq_TransferEncoding := [], rq_ContentLength := 0, rq_body := ([], None)\<rparr>"

definition sample_http_env :: http_env where
  "sample_http_env = \<lparr>he_env = sample_env, he_range = id, he_write = \<lambda>i d. (length d, None), he_answer = (''HTTP/1.1 204'', Some ErrEOF),
     he_rest = ''hello'', he_copy = [CopyUp 3 None, CopyDown ''hi'' None, CopyUp 2 None, CopyDown [] (Some ErrEOF)], he_closeErr = None\<rparr>"

section \<open>Lemmas\<close>

lemma openUpstream_Inl: "openUpstream env o' cid src host port c = (Inl e, ls, c') \<Longrightarrow> access_lines ls = 1"
  by (auto simp: openUpstream_def Let_def logFailure_def access_lines_def split: prod.splits sum.splits)

lemma openUpstream_Inr:
  "openUpstream env o' cid src host port c = (Inr lc, ls, c') \<Longrightarrow>
   \<not> lg_closed lc \<and> lg_up lc = 0 \<and> lg_down lc = 0 \<and> lg_firstErr lc = None \<and> ls = []"
  by (auto simp: openUpstream_def Let_def new_relay_def split: prod.splits sum.splits)

lemma close_upstream_eq:
  assumes "\<not> lg_closed lc"
  shows "close_upstream h lc client sent c =
    \<lparr>ho_client = client, ho_upstream = sent,
     ho_log = close_line AccessLog (lc\<lparr>lg_closed := True\<rparr>) (e_now (he_env h) (tick c)) #
       (if lg_firstErr lc \<noteq> None then [close_line ServiceLog (lc\<lparr>lg_closed := True\<rparr>) (e_now (he_env h) (tick c))] else []),
     ho_cache = c\<lparr>tick := Suc (tick c)\<rparr>\<rparr>"
  by (simp add: close_upstream_def time_Now_def lg_Close_open [OF assms])

lemma close_upstream_line:
  assumes "\<not> lg_closed lc"
  shows "access_lines (ho_log (close_upstream h lc client sent c)) = 1"
  unfolding close_upstream_eq [OF assms] http_out.simps by (rule access_lines_close)

lemma close_upstream_counted:
  assumes "\<not> lg_closed lc" and "lg_up lc = wrap64 up" and "lg_down lc = wrap64 down"
  shows "counted_line up down (hd (ho_log (close_upstream h lc client sent c)))"
  unfolding close_upstream_eq [OF assms(1)] http_out.simps list.sel close_line_def counted_line_def using assms(2,3) by simp

lemma up_write_closed: "up_write h i d lc = (r, lc') \<Longrightarrow> lg_closed lc' = lg_closed lc"
  by (auto simp: up_write_def split: prod.splits option.splits)

lemma up_write_counts:
  "up_write h i d lc = ((sent, e), lc') \<Longrightarrow>
   prefix sent d \<and> lg_up lc' = wrap64 (lg_up lc + int (length sent)) \<and> lg_down lc' = lg_down lc \<and> (e = None \<longrightarrow> sent = d)"
  by (auto simp: up_write_def take_is_prefix split: prod.splits option.splits)

lemma send_body_closed: "send_body h req body lc = (r, lc') \<Longrightarrow> lg_closed lc' = lg_closed lc"
  by (auto simp: send_body_def split: prod.splits option.splits if_splits dest: up_write_closed)

lemma forward_request_line:
  assumes "\<not> lg_closed lc"
  shows "access_lines (ho_log (forward_request h req lc c)) = 1"
  unfolding forward_request_def using assms
  by (auto simp: close_upstream_line send_body_closed up_write_closed split: sum.split prod.split option.split)

lemma reject_simps [simp]:
  "ho_log (reject code msg ls c) = ls" "ho_cache (reject code msg ls c) = c" "ho_upstream (reject code msg ls c) = []"
  "ho_client (reject code msg ls c) = writeHTTPErr code msg"
  by (simp_all add: reject_def)

lemma connect_relay_closed: "lg_closed (snd (snd (connect_relay evs rest lc))) = lg_closed lc"
  by (induction evs rest lc rule: connect_relay.induct) (simp_all add: split_beta)

lemma connect_relay_up: "prefix (fst (snd (connect_relay evs rest lc))) rest"
proof (induction evs rest lc rule: connect_relay.induct)
  case (2 n err evs rest lc)
  then have "prefix (take n rest @ fst (snd (connect_relay evs (drop n rest) (lg_Write (int (length (take n rest))) err lc)))) (take n rest @ drop n rest)"
    by (simp only: same_prefix_prefix)
  then show ?case by (simp add: split_beta)
qed (simp_all add: split_beta)

lemma connect_relay_counts:
  "lg_up lc = wrap64 (lg_up lc) \<Longrightarrow> lg_down lc = wrap64 (lg_down lc) \<Longrightarrow>
   lg_up (snd (snd (connect_relay evs rest lc))) = wrap64 (lg_up lc + int (length (fst (snd (connect_relay evs rest lc)))))
   \<and> lg_down (snd (snd (connect_relay evs rest lc))) = wrap64 (lg_down lc + int (length (fst (connect_relay evs rest lc))))"
proof (induction evs rest lc rule: connect_relay.induct)
  case (2 n err evs rest lc)
  then show ?case by (simp add: wrap64_add add.assoc split_beta)
next
  case (3 s err evs rest lc)
  then show ?case by (simp add: wrap64_add add.assoc split_beta)
qed simp

lemma handleConnect_target:
  "handleConnect h o' cid src req c =
    (case connect_target req of
       None \<Rightarrow> reject 400 (if isl (SplitHostPort (rq_urlHost req)) then ''Bad CONNECT target'' else ''Bad CONNECT target port'') [] c
     | Some (host, port) \<Rightarrow>
         (case openUpstream (he_env h) o' cid src host port c of
            (Inl err, ls, c) \<Rightarrow> reject (statusForDialErr err) ''Connect failed'' ls c
          | (Inr lc, ls, c) \<Rightarrow>
              (case connect_relay (he_copy h) (he_rest h) lc of
                 (down, up, lc) \<Rightarrow> close_upstream h lc (established @ down) up c)))"
proof (cases "SplitHostPort (rq_urlHost req)")
  case (Inl e)
  then show ?thesis by (simp add: handleConnect_def connect_target_def)
next
  case (Inr hp)
  obtain host port where hp: "hp = (host, port)" by force
  obtain n e where n: "Atoi port = (n, e)" by force
  have v: "validatePort n \<noteq> None \<longleftrightarrow> \<not> (1 \<le> n \<and> n \<le> 65535)" by (simp only: validatePort_None)
  show ?thesis
    by (cases "e = None \<and> 1 \<le> n \<and> n \<le> 65535")
      (simp_all only: handleConnect_def connect_target_def Inr hp n v sum.case prod.case fst_conv snd_conv option.case if_True if_False
        sum.disc simp_thms de_Morgan_conj not_not split: if_splits, blast)
qed

lemma handleHTTP_target:
  assumes "rq_abs req" and "rq_scheme req = ''http''"
  shows "handleHTTP h o' cid src req c =
    (case http_target req of
       None \<Rightarrow> reject 400 (if target_port req = None then ''Bad target port'' else ''Unsupported Transfer-Encoding'') [] c
     | Some (host, port) \<Rightarrow>
         (case openUpstream (he_env h) o' cid src host port c of
            (Inl err, ls, c) \<Rightarrow> reject (statusForDialErr err) ''Connect failed'' ls c
          | (Inr lc, ls, c) \<Rightarrow> forward_request h req lc c))"
  using assms by (cases "target_port req") (simp_all add: handleHTTP_def http_target_def Let_def)

section \<open>Properties\<close>

lemma handleConnect_lines:
  "if connect_target req = None then ho_log (handleConnect h o' cid src req c) = [] \<and> ho_cache (handleConnect h o' cid src req c) = c
     \<and> ho_upstream (handleConnect h o' cid src req c) = []
   else access_lines (ho_log (handleConnect h o' cid src req c)) = 1"
proof (cases "connect_target req")
  case (Some hp)
  obtain host port where hp: "hp = (host, port)" by force
  obtain r ls c' where o: "openUpstream (he_env h) o' cid src host port c = (r, ls, c')" by (metis prod.collapse)
  obtain down up lc' where cr: "connect_relay (he_copy h) (he_rest h) (projr r) = (down, up, lc')" by (metis prod.collapse)
  show ?thesis
  proof (cases r)
    case (Inl e)
    then show ?thesis using Some hp o openUpstream_Inl by (simp add: handleConnect_target)
  next
    case (Inr lc)
    then have "\<not> lg_closed lc'"
      using openUpstream_Inr o connect_relay_closed [of "he_copy h" "he_rest h" lc] cr by auto
    then show ?thesis using Some hp o Inr cr by (simp add: handleConnect_target close_upstream_line)
  qed
qed (simp add: handleConnect_target)

lemma handleHTTP_lines:
  assumes "rq_abs req" and "rq_scheme req = ''http''"
  shows "if http_target req = None then ho_log (handleHTTP h o' cid src req c) = [] \<and> ho_cache (handleHTTP h o' cid src req c) = c
     \<and> ho_upstream (handleHTTP h o' cid src req c) = []
   else access_lines (ho_log (handleHTTP h o' cid src req c)) = 1"
proof (cases "http_target req")
  case (Some hp)
  obtain host port where hp: "hp = (host, port)" by force
  obtain r ls c' where o: "openUpstream (he_env h) o' cid src host port c = (r, ls, c')" by (metis prod.collapse)
  show ?thesis
    using Some hp o openUpstream_Inl openUpstream_Inr
    by (cases r) (simp_all add: handleHTTP_target [OF assms] forward_request_line)
qed (simp add: handleHTTP_target [OF assms])



lemma named_Nil: "named n [] = []"
  by (simp add: named_def)

lemma named_single: "named n [kv] = (if ToLower (fst kv) = n then [kv] else [])"
  by (simp add: named_def)

lemma named_append: "named n (hs @ hs') = named n hs @ named n hs'"
  by (simp add: named_def)

lemma copied_headers_iff: "(k, v) \<in> set (copied_headers kvs) \<longleftrightarrow> \<not> dropped_header k \<and> (\<exists>vs. (k, vs) \<in> set kvs \<and> v \<in> set vs)"
  by (force simp: copied_headers_def split: if_splits)

lemma named_copied:
  assumes "\<And>k vs. (k, vs) \<in> set kvs \<Longrightarrow> ToLower k = n \<Longrightarrow> dropped_header k"
  shows "named n (copied_headers kvs) = []"
  using assms by (fastforce simp: named_def filter_empty_conv copied_headers_iff)

lemma lower_names:
  "ToLower ''Host'' = ''host''" "ToLower ''Connection'' = ''connection''" "ToLower ''Content-Length'' = ''content-length''"
  by code_simp+

lemma reframed:
  assumes "reframe_body req = Inr (Some b)"
  shows "b = fst (rq_body req) \<and> int (length b) \<le> maxReframedBody"
proof -
  obtain e where "read_limited (maxReframedBody + 1) (rq_body req) = (b, e)" and "int (length b) \<le> maxReframedBody"
    using assms by (auto simp: reframe_body_def Let_def split: if_splits prod.splits option.splits)
  moreover have "\<not> maxReframedBody + 1 \<le> int (length (fst (rq_body req)))"
  proof
    assume "maxReframedBody + 1 \<le> int (length (fst (rq_body req)))"
    moreover from this have "b = take (nat (maxReframedBody + 1)) (fst (rq_body req))"
      using \<open>read_limited _ _ = _\<close> by (simp add: read_limited_def)
    ultimately have "int (length b) = maxReframedBody + 1" by (simp add: maxReframedBody_def)
    then show False using \<open>int (length b) \<le> maxReframedBody\<close> by simp
  qed
  ultimately show ?thesis by (simp add: read_limited_def)
qed

lemma forward_headers_eq:
  "forward_headers rng req body =
     [(''Host'', if rq_Host req = [] then rq_urlHost req else rq_Host req)]
     @ (case body of Some b \<Rightarrow> [(''Content-Length'', Itoa (int (length b)))] | None \<Rightarrow> [])
     @ copied_headers (rng (rq_Header req)) @ [(''Connection'', ''close'')]"
  by (simp add: forward_headers_def copied_headers_def)

lemma named_forward:
  "named n (forward_headers rng req body) =
     (if ''host'' = n then [(''Host'', if rq_Host req = [] then rq_urlHost req else rq_Host req)] else [])
     @ (if ''content-length'' = n then (case body of Some b \<Rightarrow> [(''Content-Length'', Itoa (int (length b)))] | None \<Rightarrow> []) else [])
     @ named n (copied_headers (rng (rq_Header req)))
     @ (if ''connection'' = n then [(''Connection'', ''close'')] else [])"
proof -
  have body: "named n (case body of Some b \<Rightarrow> [(''Content-Length'', Itoa (int (length b)))] | None \<Rightarrow> []) =
    (if ''content-length'' = n then (case body of Some b \<Rightarrow> [(''Content-Length'', Itoa (int (length b)))] | None \<Rightarrow> []) else [])"
    by (cases body) (simp_all only: option.case named_single fst_conv lower_names named_Nil if_cancel)
  show ?thesis unfolding forward_headers_eq named_append body by (simp only: named_single fst_conv lower_names)
qed

lemma named_dropped:
  assumes "n \<in> {''host'', ''connection'', ''proxy-connection'', ''proxy-authorization'', ''transfer-encoding''}"
  shows "named n (copied_headers kvs) = []"
proof (rule named_copied)
  fix k vs
  assume "ToLower k = n"
  then show "dropped_header k" using assms by (simp only: dropped_header_def list.set)
qed

lemma names_distinct:
  "''host'' \<noteq> ''connection''" "''host'' \<noteq> ''content-length''" "''content-length'' \<noteq> ''connection''"
  "''connection'' \<noteq> ''host''" "''content-length'' \<noteq> ''host''" "''connection'' \<noteq> ''content-length''"
  "''host'' \<noteq> ''proxy-connection''" "''content-length'' \<noteq> ''proxy-connection''" "''connection'' \<noteq> ''proxy-connection''"
  "''host'' \<noteq> ''proxy-authorization''" "''content-length'' \<noteq> ''proxy-authorization''" "''connection'' \<noteq> ''proxy-authorization''"
  "''host'' \<noteq> ''transfer-encoding''" "''content-length'' \<noteq> ''transfer-encoding''" "''connection'' \<noteq> ''transfer-encoding''"
  by simp_all

text \<open>
  C18: The forwarded head. Whatever the client sent and in whatever order the header map is visited, the request that goes upstream has one
  Host, one Connection (close), none of Proxy-Connection, Proxy-Authorization and Transfer-Encoding in any spelling, and every value of every
  other field. A body that came chunked or without a length is sent whole, at most 32 MiB of it, under the only
  Content-Length, its own, when the parser removed the client's.
\<close>

theorem forwarded_head_clean:
  assumes "set (rng (rq_Header req)) = set (rq_Header req)"
    and "reframe_body req = Inr body"
    and "\<And>k vs. body \<noteq> None \<Longrightarrow> (k, vs) \<in> set (rq_Header req) \<Longrightarrow> ToLower k \<noteq> ''content-length''"
  shows "let hs = forward_headers rng req body in
    named ''host'' hs = [(''Host'', if rq_Host req = [] then rq_urlHost req else rq_Host req)]
    \<and> named ''connection'' hs = [(''Connection'', ''close'')]
    \<and> named ''proxy-connection'' hs = [] \<and> named ''proxy-authorization'' hs = [] \<and> named ''transfer-encoding'' hs = []
    \<and> (\<not> dropped_header k \<longrightarrow> (k, vs) \<in> set (rq_Header req) \<longrightarrow> v \<in> set vs \<longrightarrow> (k, v) \<in> set hs)
    \<and> (body = Some b \<longrightarrow> b = fst (rq_body req) \<and> int (length b) \<le> maxReframedBody
         \<and> named ''content-length'' hs = [(''Content-Length'', Itoa (int (length b)))])"
proof -
  let ?cp = "copied_headers (rng (rq_Header req))"
  have dropped: "named ''host'' ?cp = []" "named ''connection'' ?cp = []" "named ''proxy-connection'' ?cp = []"
    "named ''proxy-authorization'' ?cp = []" "named ''transfer-encoding'' ?cp = []"
    by (rule named_dropped, simp only: insert_iff simp_thms)+
  have cl: "named ''content-length'' ?cp = []" if "body = Some b"
    using assms(1,3) that by (intro named_copied) blast
  have kept: "(k, v) \<in> set (forward_headers rng req body)" if "\<not> dropped_header k" "(k, vs) \<in> set (rq_Header req)" "v \<in> set vs"
    using that assms(1) unfolding forward_headers_eq set_append set_simps Un_iff insert_iff copied_headers_iff by blast
  have re: "b = fst (rq_body req) \<and> int (length b) \<le> maxReframedBody" if "body = Some b"
    using assms(2) that by (intro reframed) simp
  have len: "named ''content-length'' (forward_headers rng req body) = [(''Content-Length'', Itoa (int (length b)))]" if "body = Some b"
    by (simp only: named_forward names_distinct cl [OF that] that option.case simp_thms if_False if_True append_Nil append_Nil2)
  have "named ''host'' (forward_headers rng req body) = [(''Host'', if rq_Host req = [] then rq_urlHost req else rq_Host req)]"
    "named ''connection'' (forward_headers rng req body) = [(''Connection'', ''close'')]"
    "named ''proxy-connection'' (forward_headers rng req body) = []"
    "named ''proxy-authorization'' (forward_headers rng req body) = []" "named ''transfer-encoding'' (forward_headers rng req body) = []"
    by (simp_all only: named_forward names_distinct dropped simp_thms if_False if_True append_Nil append_Nil2)
  then show ?thesis unfolding Let_def using kept re len by blast
qed

theorem forwarded_head_clean_witness:
  "named ''content-length'' (forward_headers id sample_post (Some ''abc'')) = [(''Content-Length'', Itoa 3)]"
proof -
  have "\<And>k vs. (k, vs) \<in> set (rq_Header sample_post) \<Longrightarrow> ToLower k \<noteq> ''content-length''"
    by (auto simp: sample_post_def) code_simp+
  moreover have "reframe_body sample_post = Inr (Some ''abc'')" by code_simp
  ultimately have "named ''content-length'' (forward_headers id sample_post (Some ''abc'')) = [(''Content-Length'', Itoa (int (length ''abc'')))]"
    using forwarded_head_clean [of id sample_post "Some ''abc''" "[]" "[]" "[]" "''abc''"] unfolding Let_def id_apply by blast
  then show ?thesis by simp
qed

lemma up_write_ok: "(\<And>i d. snd (he_write h i d) = None) \<Longrightarrow> up_write h i d lc = ((d, None), lg_Write (int (length d)) None lc)"
proof -
  assume "\<And>i d. snd (he_write h i d) = None"
  then have "snd (he_write h i d) = None" .
  then show ?thesis by (simp add: up_write_def split_beta)
qed

lemma send_body_counts:
  assumes "send_body h req body lc = ((sent, e), lc')" and "lg_up lc = wrap64 (lg_up lc)"
  shows "lg_up lc' = wrap64 (lg_up lc + int (length sent)) \<and> lg_down lc' = lg_down lc"
proof (cases body)
  case (Some b)
  then show ?thesis using assms up_write_counts by (simp add: send_body_def)
next
  case None
  obtain s1 e1 l1 where w: "up_write h 1 (fst (rq_body req)) lc = ((s1, e1), l1)" by (metis prod.collapse)
  then show ?thesis using assms None up_write_counts [OF w]
    by (cases e1) (auto simp: send_body_def split: if_splits)
qed

lemma forward_request_counted:
  assumes "\<not> lg_closed lc" and "lg_up lc = 0" and "lg_down lc = 0"
  shows "\<exists>down. counted_line (int (length (ho_upstream (forward_request h req lc c)))) down (hd (ho_log (forward_request h req lc c)))"
proof (cases "reframe_body req")
  case (Inl cm)
  obtain code msg where cm: "cm = (code, msg)" by force
  have "counted_line 0 0 (hd (ho_log (close_upstream h lc (writeHTTPErr code msg) [] c)))"
    using assms by (intro close_upstream_counted) simp_all
  then show ?thesis using Inl cm assms(1) by (auto simp: forward_request_def close_upstream_eq)
next
  case (Inr body)
  let ?head = "forward_head (he_range h) req body"
  obtain s1 e1 l1 where w: "up_write h 0 ?head lc = ((s1, e1), l1)" by (metis prod.collapse)
  obtain s2 e2 l2 where b: "send_body h req body l1 = ((s2, e2), l2)" by (metis prod.collapse)
  have l1: "lg_up l1 = wrap64 (int (length s1))" "lg_down l1 = 0" "\<not> lg_closed l1"
    using up_write_counts [OF w] up_write_closed [OF w] assms by simp_all
  have l2: "lg_up l2 = wrap64 (int (length (s1 @ s2)))" "lg_down l2 = 0" "\<not> lg_closed l2"
    using send_body_counts [OF b] send_body_closed [OF b] l1 by (simp_all add: wrap64_add)
  show ?thesis
  proof (cases e2)
    case (Some e)
    have "counted_line (int (length (s1 @ s2))) 0 (hd (ho_log (close_upstream h l2 (writeHTTPErr 502 ''Body transfer failed'') (s1 @ s2) c)))"
      using l2 by (intro close_upstream_counted) simp_all
    then show ?thesis unfolding forward_request_def Inr sum.case w b Some prod.case option.case close_upstream_eq [OF l2(3)] http_out.simps by blast
  next
    case None
    let ?l = "lg_Read (int (length (fst (he_answer h)))) (snd (he_answer h)) l2"
    have l: "\<not> lg_closed ?l" using l2 by simp
    have "counted_line (int (length (s1 @ s2))) (int (length (fst (he_answer h)))) (hd (ho_log (close_upstream h ?l (fst (he_answer h)) (s1 @ s2) c)))"
      using l2 by (intro close_upstream_counted) simp_all
    then show ?thesis unfolding forward_request_def Inr sum.case w b None prod.case option.case close_upstream_eq [OF l] http_out.simps by blast
  qed
qed

lemma forward_request_complete:
  assumes "\<not> lg_closed lc"
  shows "(\<forall>i d. snd (he_write h i d) = None) \<and> snd (rq_body req) = None \<and> reframe_body req = Inr body \<Longrightarrow>
    ho_upstream (forward_request h req lc c) = forward_head (he_range h) req body @ (if rq_ContentLength req \<noteq> 0 then fst (rq_body req) else [])
    \<and> ho_client (forward_request h req lc c) = fst (he_answer h)"
proof -
  assume a: "(\<forall>i d. snd (he_write h i d) = None) \<and> snd (rq_body req) = None \<and> reframe_body req = Inr body"
  then have w: "up_write h i d l = ((d, None), lg_Write (int (length d)) None l)" for i d l by (intro up_write_ok) blast
  have "body = Some b \<Longrightarrow> b = fst (rq_body req) \<and> rq_ContentLength req \<noteq> 0" for b
    using reframed [of req b] a by (auto simp: reframe_body_def Let_def split: if_splits)
  then have "\<exists>l'. send_body h req body l = ((if rq_ContentLength req \<noteq> 0 then fst (rq_body req) else [], None), l') \<and> lg_closed l' = lg_closed l" for l
    using a by (cases body) (auto simp: send_body_def w)
  then obtain l' where "send_body h req body (lg_Write (int (length (forward_head (he_range h) req body))) None lc)
      = ((if rq_ContentLength req \<noteq> 0 then fst (rq_body req) else [], None), l')" "\<not> lg_closed l'"
    using assms by (metis lg_io_fields(3))
  then show ?thesis using a by (simp add: forward_request_def w close_upstream_eq)
qed

text \<open>
  A forwarded request is counted and complete. Once the upstream is open, the access line counts the bytes the upstream took, on every path. If the
  body can be read, fits and the writes succeed, the upstream gets the head and the whole body, and the client what the upstream answers.
\<close>

theorem http_forward_exact:
  assumes "rq_abs req" and "rq_scheme req = ''http''" and "http_target req = Some (host, port)"
    and "openUpstream (he_env h) o' cid src host port c = (Inr lc, ls, c')"
  shows "let out = handleHTTP h o' cid src req c in
    (\<exists>down. counted_line (int (length (ho_upstream out))) down (hd (ho_log out)))
    \<and> ((\<forall>i d. snd (he_write h i d) = None) \<and> snd (rq_body req) = None \<and> reframe_body req = Inr body \<longrightarrow>
        ho_upstream out = forward_head (he_range h) req body @ (if rq_ContentLength req \<noteq> 0 then fst (rq_body req) else [])
        \<and> ho_client out = fst (he_answer h))"
proof -
  have out: "handleHTTP h o' cid src req c = forward_request h req lc c'"
    using assms(3,4) by (simp add: handleHTTP_target [OF assms(1,2)])
  have lc: "\<not> lg_closed lc" "lg_up lc = 0" "lg_down lc = 0" using openUpstream_Inr [OF assms(4)] by simp_all
  show ?thesis unfolding out Let_def
    using forward_request_counted [OF lc, of h req c'] forward_request_complete [OF lc(1), of h req body c'] by blast
qed

section \<open>The idle guard\<close>

lemma time_Sub_ge_iff: "0 < d \<Longrightarrow> d \<le> max_int64 \<Longrightarrow> d \<le> time_Sub t u \<longleftrightarrow> u + d \<le> t"
  by (auto simp: time_Sub_def min_int64_def max_int64_def)

lemma idle_guard_sound:
  "idle_guard timeout start evs = Some t \<Longrightarrow> 0 < timeout \<Longrightarrow> timeout \<le> max_int64 \<Longrightarrow>
    \<exists>pre post. evs = pre @ Tick t # post \<and> Stop \<notin> set pre \<and> last_touch start pre + timeout \<le> t"
proof (induction timeout start evs rule: idle_guard.induct)
  case (2 timeout prev t' evs)
  then obtain pre post where "evs = pre @ Tick t # post" "Stop \<notin> set pre" "last_touch t' pre + timeout \<le> t" by auto
  then show ?case by (rule_tac x = "Touch t' # pre" in exI, rule_tac x = post in exI) simp
next
  case (3 timeout prev t' evs)
  show ?case
  proof (cases "time_Sub t' prev \<ge> timeout")
    case True
    then show ?thesis using 3 time_Sub_ge_iff [of timeout] by (rule_tac x = "[]" in exI, rule_tac x = evs in exI) simp
  next
    case False
    then obtain pre post where "evs = pre @ Tick t # post" "Stop \<notin> set pre" "last_touch prev pre + timeout \<le> t" using 3 by auto
    then show ?thesis by (rule_tac x = "Tick t' # pre" in exI, rule_tac x = post in exI) simp
  qed
qed simp_all

lemma idle_guard_complete:
  "Stop \<notin> set pre \<Longrightarrow> 0 < timeout \<Longrightarrow> timeout \<le> max_int64 \<Longrightarrow> last_touch start pre + timeout \<le> t \<Longrightarrow>
   sorted (guard_times (pre @ [Tick t])) \<Longrightarrow> \<exists>t' \<le> t. idle_guard timeout start (pre @ Tick t # post) = Some t'"
proof (induction pre arbitrary: start)
  case Nil
  then show ?case by (simp add: time_Sub_ge_iff)
next
  case (Cons e pre)
  have tl: "t \<in> set (guard_times (pre @ [Tick t]))"
    by (induction pre rule: guard_times.induct) simp_all
  show ?case
  proof (cases e)
    case (Touch u)
    then show ?thesis using Cons by simp
  next
    case (Tick u)
    then have "u \<le> t" using Cons.prems tl by simp
    then show ?thesis using Cons Tick by (cases "time_Sub u start \<ge> timeout") auto
  next
    case Stop
    then show ?thesis using Cons.prems by simp
  qed
qed

lemma last_touch_ge: "sorted (start # guard_times evs) \<Longrightarrow> start \<le> last_touch start evs \<and> (Touch u \<in> set evs \<longrightarrow> u \<le> last_touch start evs)"
proof (induction start evs rule: last_touch.induct)
  case (2 start t evs)
  then have "sorted (t # guard_times evs)" by simp
  then show ?case using 2 by auto
qed auto

lemma guard_times_append: "guard_times (xs @ ys) = guard_times xs @ guard_times ys"
  by (induction xs rule: guard_times.induct) simp_all

text \<open>
  The idle guard, on a clock that does not go back. It ends a request only at a tick at which no byte has moved for the whole timeout, so a
  transfer that keeps moving is never cut; and it has ended the request by the first tick that comes the timeout or more after the last byte,
  unless it was stopped before.
\<close>

theorem idle_guard_exact:
  assumes "0 < timeout" and "timeout \<le> max_int64" and "sorted (start # guard_times evs)"
  shows "(idle_guard timeout start evs = Some t \<longrightarrow>
      (\<exists>pre post. evs = pre @ Tick t # post \<and> Stop \<notin> set pre \<and> start + timeout \<le> t \<and> (\<forall>u. Touch u \<in> set pre \<longrightarrow> u + timeout \<le> t)))
    \<and> (evs = before @ Tick t # rest \<and> Stop \<notin> set before \<and> last_touch start before + timeout \<le> t \<longrightarrow>
      (\<exists>t' \<le> t. idle_guard timeout start evs = Some t'))"
proof (intro conjI impI)
  assume "idle_guard timeout start evs = Some t"
  from idle_guard_sound [OF this assms(1,2)] obtain pre post
    where p: "evs = pre @ Tick t # post" "Stop \<notin> set pre" "last_touch start pre + timeout \<le> t" by blast
  then have "sorted (start # guard_times pre)" using assms(3) by (simp add: guard_times_append sorted_append)
  then have "start + timeout \<le> t" "Touch u \<in> set pre \<Longrightarrow> u + timeout \<le> t" for u
    using last_touch_ge [of start pre] p(3) by force+
  then show "\<exists>pre post. evs = pre @ Tick t # post \<and> Stop \<notin> set pre \<and> start + timeout \<le> t \<and> (\<forall>u. Touch u \<in> set pre \<longrightarrow> u + timeout \<le> t)"
    using p by blast
next
  assume b: "evs = before @ Tick t # rest \<and> Stop \<notin> set before \<and> last_touch start before + timeout \<le> t"
  then have "sorted (guard_times (before @ [Tick t]))" using assms(3) by (auto simp: guard_times_append sorted_append)
  then show "\<exists>t' \<le> t. idle_guard timeout start evs = Some t'" using b assms(1,2) idle_guard_complete by blast
qed

theorem idle_guard_exact_witness:
  "idle_guard 10 0 [Tick 5, Touch 8, Tick 15, Tick 25] \<noteq> None"
  using idle_guard_exact [of 10 0 "[Tick 5, Touch 8, Tick 15, Tick 25]" 25 "[Tick 5, Touch 8, Tick 15]" "[]"]
  by (auto simp add: max_int64_def simp del: idle_guard.simps)


theorem http_forward_exact_witness:
  "ho_client (handleHTTP sample_http_env sample_opener_ipless 1 ''127.0.0.1:4000'' sample_post (sample_cache [''9.9.9.9:53''])) = ''HTTP/1.1 204''"
proof -
  let ?o = "openUpstream (he_env sample_http_env) sample_opener_ipless 1 ''127.0.0.1:4000'' ''93.184.216.34'' 8080 (sample_cache [''9.9.9.9:53''])"
  have t: "rq_abs sample_post" "rq_scheme sample_post = ''http''" "http_target sample_post = Some (''93.184.216.34'', 8080)"
    "reframe_body sample_post = Inr (Some ''abc'')" "snd (rq_body sample_post) = None" by code_simp+
  have "\<not> isl (fst ?o)" by code_simp
  then obtain lc where "?o = (Inr lc, fst (snd ?o), snd (snd ?o))" by (metis prod.collapse sum.collapse(2))
  from http_forward_exact [OF t(1-3) this, of "Some ''abc''"] t(4,5) show ?thesis
    unfolding Let_def by (simp add: sample_http_env_def)
qed

end
