(* ===== verification/Startup.thy ===== *)
theory Startup
  imports Config Keys Service Web Listener Socks5 HttpProxy
begin

text \<open>
  \<open>main.go\<close>, the part that wires the components: \<open>main\<close>, \<open>startProxies\<close>, \<open>shutdownServers\<close> and \<open>setupLogging\<close>. A run is the sequence of its
  visible steps (\<open>boot_event\<close>); \<open>log.Fatal\<close> ends it with the exit status of a configuration error. A run that starts waits for the signal and shuts down.
\<close>

section \<open>Model\<close>

definition exitConfig :: int where
  "exitConfig = 78"

subsection \<open>Logging\<close>

datatype log_out = Stderr | Journal string | Nop

definition journalIdent :: string where
  "journalIdent = ''ssh-gate''"

definition journalAccessIdent :: string where
  "journalAccessIdent = ''ssh-gate-access''"

text \<open>The outputs of the service log and the access log.\<close>

definition setupLogging :: "bool \<Rightarrow> goerr option \<Rightarrow> bool \<Rightarrow> log_out \<times> log_out" where
  "setupLogging isJournal dialErr access =
     (let (appOut, accessOut) =
        (if isJournal \<and> dialErr = None then (Journal journalIdent, Journal journalAccessIdent) else (Stderr, Stderr))
      in (appOut, if access then accessOut else Nop))"

subsection \<open>Starting\<close>

datatype boot_event =
    BFatal string
  | BExit int
  | BFirstRun "string list"
  | BListen string
  | BReady
  | BStatus string
  | BStopping string
  | BShutdown string "goerr option"
  | BRulesStart
  | BRulesStop
  | BDialerStop

record boot_env =
  be_getenv :: "string \<Rightarrow> string"
  be_mkdir :: "goerr option"
  be_keys :: key_env
  be_compile :: compile
  be_listen :: "string \<Rightarrow> goerr option"
  be_shutdown :: "string \<Rightarrow> goerr option"

definition fatal :: "string \<Rightarrow> boot_event list" where
  "fatal msg = [BFatal msg, BExit exitConfig]"

text \<open>One server per address; the error message of the first address that cannot be listened on, with the servers started before it.\<close>

fun start_listeners :: "(string \<Rightarrow> goerr option) \<Rightarrow> string \<Rightarrow> string list \<Rightarrow> string list \<times> bool" where
  "start_listeners listen prefix' [] = ([], True)"
| "start_listeners listen prefix' (addr # as) =
     (case listen addr of
        Some err \<Rightarrow> ([], False)
      | None \<Rightarrow> (case start_listeners listen prefix' as of (names, ok) \<Rightarrow> ((prefix' @ addr) # names, ok)))"

record proxies =
  px_dialer :: sshDialerCfg
  px_opener :: Opener
  px_dns :: dnsCache
  px_limit :: "limiter_state option"
  px_servers :: "string list"

definition dialer_config :: "config \<Rightarrow> sshDialerCfg" where
  "dialer_config cfg =
     \<lparr>dc_host = cfg_sshHost cfg, dc_port = cfg_sshPort cfg, dc_user = cfg_sshUser cfg, dc_keyPath = Join_path [cfg_dataDir cfg, sshKeyFile],
      dc_fingerprint = [], dc_keepalivePeriod = cfg_sshKeepalivePeriod cfg, dc_keepaliveInterval = cfg_sshKeepaliveInterval cfg,
      dc_keepaliveProbes = cfg_sshKeepaliveProbes cfg, dc_dialTimeout = cfg_dialTimeout cfg, dc_handshakeTimeout = 0\<rparr>"

text \<open>The dialer reports every change of state to the status line.\<close>

definition onStatus :: "sshDialerCfg \<Rightarrow> tunnelStatus \<Rightarrow> sdStatus \<Rightarrow> sdStatus" where
  "onStatus dcfg st s = sd_set (statusText (dc_user dcfg) (dc_host dcfg) (dc_port dcfg) (dc_keyPath dcfg) st) s"

definition startProxies :: "boot_env \<Rightarrow> config \<Rightarrow> fs \<Rightarrow> boot_event list \<times> proxies option" where
  "startProxies e cfg f =
     (case newSSHDialer (ke_deny (be_keys e)) f (dialer_config cfg) of
        Inl err \<Rightarrow> (fatal ''SSH dialer'', None)
      | Inr (dcfg, st) \<Rightarrow>
          (case NewRuleEngine (be_compile e) (cfg_directRules cfg) of
             Inl err \<Rightarrow> (fatal ''rule engine'', None)
           | Inr (engine, c) \<Rightarrow>
               (let dns = configureDNS cfg c;
                    opener = \<lparr>o_rules = engine, o_family = cfg_directIPFamily cfg\<rparr>;
                    limit = newConnLimiter (cfg_maxConnections cfg);
                    (s5, ok5) = (if contains (cfg_proxyModes cfg) ''socks5'' then start_listeners (be_listen e) ''SOCKS5 '' (cfg_socks5Addrs cfg) else ([], True))
                in if \<not> ok5 then (map BListen s5 @ fatal ''SOCKS5 server'', None)
                   else
                     (let (hp, okh) = (if contains (cfg_proxyModes cfg) ''http'' then start_listeners (be_listen e) ''HTTP '' (cfg_httpAddrs cfg) else ([], True))
                      in if \<not> okh then (map BListen (s5 @ hp) @ fatal ''HTTP proxy'', None)
                         else (map BListen (s5 @ hp),
                               Some \<lparr>px_dialer = dcfg, px_opener = opener, px_dns = dns, px_limit = limit, px_servers = s5 @ hp\<rparr>)))))"

subsection \<open>Stopping\<close>

definition shutdownServers :: "(string \<Rightarrow> goerr option) \<Rightarrow> string list \<Rightarrow> boot_event list" where
  "shutdownServers shutdown servers = map (\<lambda>name. BShutdown name (shutdown name)) servers"

text \<open>The end of \<open>main\<close>, from the signal on.\<close>

definition main_stop :: "boot_env \<Rightarrow> string list \<Rightarrow> bool \<Rightarrow> boot_event list" where
  "main_stop e servers configured =
     [BStopping ''Stopping, draining connections''] @ shutdownServers (be_shutdown e) servers
     @ (if configured then [BRulesStop] else []) @ [BDialerStop]"

text \<open>The middle of \<open>main\<close>, from the health server on; \<open>servers\<close> are the proxies' and \<open>configured\<close> tells whether there is a rule engine.\<close>

definition main_serve :: "boot_env \<Rightarrow> config \<Rightarrow> string list \<Rightarrow> bool \<Rightarrow> boot_event list" where
  "main_serve e cfg servers configured =
     (case NewHealthServer (cfg_healthAddr cfg) (cfg_sshHost cfg) (cfg_sshPort cfg) (be_listen e (cfg_healthAddr cfg)) of
        Inl err \<Rightarrow> fatal ''health server''
      | Inr hs \<Rightarrow>
          [BListen ''health''] @ (if configured then [BRulesStart] else []) @ [BReady] @ main_stop e (servers @ [''health'']) configured)"

text \<open>\<open>main\<close> behind the key pair: not configured, or with proxies.\<close>

definition main_body :: "boot_env \<Rightarrow> config \<Rightarrow> fs \<Rightarrow> boot_event list" where
  "main_body e cfg f =
     (if missing cfg \<noteq> [] then [BStatus (notConfiguredText (missing cfg))] @ main_serve e cfg [] False
      else case startProxies e cfg f of
             (evs, None) \<Rightarrow> evs
           | (evs, Some px) \<Rightarrow> evs @ main_serve e cfg (px_servers px) True)"

definition main :: "boot_env \<Rightarrow> fs \<Rightarrow> boot_event list" where
  "main e f =
     (case parseOnOff (getEnv (be_getenv e) ''ACCESS_LOG'' ''on'') of
        Inl err \<Rightarrow> fatal ''invalid ACCESS_LOG''
      | Inr access \<Rightarrow>
          (case loadConfig (be_getenv e) of
             Inl err \<Rightarrow> fatal ''load config''
           | Inr cfg \<Rightarrow>
               if be_mkdir e \<noteq> None then fatal ''create data dir''
               else
                 (case EnsureSSHKeyPair (be_keys e) (cfg_dataDir cfg) f of
                    (Inl err, states) \<Rightarrow> fatal ''ensure SSH key''
                  | (Inr pubKey, states) \<Rightarrow>
                      (let f = last states;
                           mark = (if f (Join_path [cfg_dataDir cfg, firstRunDoneFile]) = None then [BFirstRun (printFirstRun pubKey cfg)] else [])
                       in mark @ main_body e cfg f))))"

section \<open>Specification\<close>

definition proxy_servers :: "config \<Rightarrow> string list" where
  "proxy_servers cfg =
     (if missing cfg \<noteq> [] then []
      else (if ''socks5'' \<in> set (cfg_proxyModes cfg) then map ((@) ''SOCKS5 '') (cfg_socks5Addrs cfg) else [])
        @ (if ''http'' \<in> set (cfg_proxyModes cfg) then map ((@) ''HTTP '') (cfg_httpAddrs cfg) else []))"

definition listened :: "boot_event list \<Rightarrow> string list" where
  "listened evs = List.map_filter (\<lambda>ev. case ev of BListen n \<Rightarrow> Some n | _ \<Rightarrow> None) evs"

definition is_ready :: "boot_event list \<Rightarrow> bool" where
  "is_ready evs \<longleftrightarrow> BReady \<in> set evs"

text \<open>A run that failed: it never got ready, and ends with the exit status of a configuration error.\<close>

definition failed_run :: "boot_event list \<Rightarrow> bool" where
  "failed_run evs \<longleftrightarrow> (\<exists>pre msg. evs = pre @ [BFatal msg, BExit 78]) \<and> \<not> is_ready evs"

text \<open>A run with configuration \<open>cfg\<close> that served until the signal and stopped.\<close>

definition served_run :: "boot_env \<Rightarrow> config \<Rightarrow> boot_event list \<Rightarrow> bool" where
  "served_run e cfg evs \<longleftrightarrow>
     (\<exists>pre. evs = pre @ [BStopping ''Stopping, draining connections'']
          @ map (\<lambda>name. BShutdown name (be_shutdown e name)) (proxy_servers cfg @ [''health''])
          @ (if missing cfg = [] then [BRulesStop] else []) @ [BDialerStop]
        \<and> is_ready pre
        \<and> listened pre = proxy_servers cfg @ [''health''])"

section \<open>Lemmas\<close>

lemma start_listeners_ok: "start_listeners listen p as = (names, True) \<Longrightarrow> names = map ((@) p) as"
  by (induction as arbitrary: names) (auto split: option.splits prod.splits)

lemma listened_append [simp]: "listened (xs @ ys) = listened xs @ listened ys"
  by (simp add: listened_def map_filter_def)

lemma listened_BListen [simp]: "listened (map BListen ns) = ns"
  by (induction ns) (simp_all add: listened_def map_filter_def)

lemma is_ready_append [simp]: "is_ready (xs @ ys) \<longleftrightarrow> is_ready xs \<or> is_ready ys"
  by (simp add: is_ready_def)

lemma is_ready_simps [simp]: "\<not> is_ready (map BListen ns)" "\<not> is_ready (fatal msg)"
  by (auto simp: is_ready_def fatal_def)

lemma failed_append: "failed_run evs \<Longrightarrow> \<not> is_ready pre \<Longrightarrow> failed_run (pre @ evs)"
proof -
  assume f: "failed_run evs" and r: "\<not> is_ready pre"
  then obtain p msg where "evs = p @ [BFatal msg, BExit 78]" unfolding failed_run_def by blast
  then have "pre @ evs = (pre @ p) @ [BFatal msg, BExit 78]" by simp
  then show ?thesis using f r unfolding failed_run_def is_ready_append by blast
qed

lemma failed_fatal [simp]: "failed_run (fatal msg)"
proof -
  have "fatal msg = [] @ [BFatal msg, BExit 78]" by (simp add: fatal_def exitConfig_def)
  then show ?thesis unfolding failed_run_def using is_ready_simps(2) [of msg] by blast
qed

lemma startProxies_None: "startProxies e cfg f = (evs, None) \<Longrightarrow> failed_run evs"
  by (auto simp: startProxies_def Let_def intro!: failed_append split: sum.splits prod.splits if_splits)

lemma startProxies_Some:
  assumes "startProxies e cfg f = (evs, Some px)" and "missing cfg = []"
  shows "evs = map BListen (proxy_servers cfg) \<and> px_servers px = proxy_servers cfg"
  using assms by (auto simp: startProxies_def Let_def proxy_servers_def dest!: start_listeners_ok split: sum.splits prod.splits if_splits)

lemma main_serve_cases:
  assumes "\<not> is_ready pre" and "listened pre = proxy_servers cfg"
  shows "failed_run (pre @ main_serve e cfg (proxy_servers cfg) (missing cfg = [])) \<or>
    served_run e cfg (pre @ main_serve e cfg (proxy_servers cfg) (missing cfg = []))"
proof (cases "NewHealthServer (cfg_healthAddr cfg) (cfg_sshHost cfg) (cfg_sshPort cfg) (be_listen e (cfg_healthAddr cfg))")
  case (Inl err)
  then show ?thesis using assms(1) by (simp add: main_serve_def failed_append)
next
  case (Inr hs)
  let ?mid = "[BListen ''health''] @ (if missing cfg = [] then [BRulesStart] else []) @ [BReady]"
  have eq: "pre @ main_serve e cfg (proxy_servers cfg) (missing cfg = []) = (pre @ ?mid) @ [BStopping ''Stopping, draining connections'']
      @ map (\<lambda>name. BShutdown name (be_shutdown e name)) (proxy_servers cfg @ [''health''])
      @ (if missing cfg = [] then [BRulesStop] else []) @ [BDialerStop]"
    unfolding main_serve_def Inr sum.case main_stop_def shutdownServers_def by (simp only: append.assoc)
  have l: "listened ?mid = [''health'']" by (simp add: listened_def map_filter_def)
  have r: "is_ready ?mid" by (simp add: is_ready_def)
  have "served_run e cfg (pre @ main_serve e cfg (proxy_servers cfg) (missing cfg = []))"
    unfolding served_run_def
  proof (rule exI, intro conjI)
    show "pre @ main_serve e cfg (proxy_servers cfg) (missing cfg = []) = (pre @ ?mid) @ [BStopping ''Stopping, draining connections'']
      @ map (\<lambda>name. BShutdown name (be_shutdown e name)) (proxy_servers cfg @ [''health''])
      @ (if missing cfg = [] then [BRulesStop] else []) @ [BDialerStop]" by (rule eq)
    show "is_ready (pre @ ?mid)" using r by (simp only: is_ready_append simp_thms)
    show "listened (pre @ ?mid) = proxy_servers cfg @ [''health'']" using l assms(2) by (simp only: listened_append)
  qed
  then show ?thesis ..
qed

lemma not_ready_one [simp]: "\<not> is_ready [BFirstRun ls]" "\<not> is_ready [BStatus t]" "\<not> is_ready []"
  "listened [BFirstRun ls] = []" "listened [BStatus t] = []" "listened [] = []"
  by (simp_all add: is_ready_def listened_def map_filter_def)

lemma main_body_cases:
  assumes "\<not> is_ready mark" and "listened mark = []"
  shows "failed_run (mark @ main_body e cfg f) \<or> served_run e cfg (mark @ main_body e cfg f)"
proof (cases "missing cfg = []")
  case False
  then have "proxy_servers cfg = []" by (simp add: proxy_servers_def)
  then show ?thesis
    using main_serve_cases [of "mark @ [BStatus (notConfiguredText (missing cfg))]" cfg e] assms False by (simp add: main_body_def)
next
  case True
  obtain evs px where p: "startProxies e cfg f = (evs, px)" by force
  show ?thesis
  proof (cases px)
    case None
    then show ?thesis using startProxies_None p True assms(1) failed_append by (simp add: main_body_def)
  next
    case (Some x)
    then have "evs = map BListen (proxy_servers cfg)" "px_servers x = proxy_servers cfg"
      using startProxies_Some p True by blast+
    then show ?thesis
      using main_serve_cases [of "mark @ evs" cfg e] assms p Some True by (simp add: main_body_def)
  qed
qed

text \<open>
  C13: A run fails early or serves and stops in order. Every run of the program either ends, before it reported ready, with the exit status that
  tells systemd not to restart it; or its configuration is valid, it opened exactly one listener for every address of every enabled
  proxy mode (none when the host or the user is not set) and the health server last, and after the signal it reported the stop first, shut
  every server down once in that order, and stopped the dialer last, so that the relays drain over a tunnel that is
  still up.
\<close>

theorem run_fails_or_stops_in_order:
  "failed_run (main e f) \<or> (\<exists>cfg. loadConfig (be_getenv e) = Inr cfg \<and> valid_config cfg \<and> served_run e cfg (main e f))"
proof (cases "loadConfig (be_getenv e)")
  case (Inl err)
  then show ?thesis by (simp add: main_def split: sum.split)
next
  case (Inr cfg)
  have v: "valid_config cfg" using Inr by (rule loadConfig_valid_config)
  obtain r states where k: "EnsureSSHKeyPair (be_keys e) (cfg_dataDir cfg) f = (r, states)" by force
  let ?acc = "parseOnOff (getEnv (be_getenv e) ''ACCESS_LOG'' ''on'')"
  show ?thesis
  proof (cases "isl ?acc \<or> be_mkdir e \<noteq> None \<or> isl r")
    case True
    then have "failed_run (main e f)" using Inr k by (cases ?acc; cases r) (simp_all add: main_def split: if_split)
    then show ?thesis by blast
  next
    case False
    then obtain b pub where 2: "?acc = Inr b" "be_mkdir e = None" "r = Inr pub" by (cases ?acc; cases r) auto
    let ?mark = "if last states (Join_path [cfg_dataDir cfg, firstRunDoneFile]) = None then [BFirstRun (printFirstRun pub cfg)] else []"
    have m: "\<not> is_ready ?mark" "listened ?mark = []" by simp_all
    have main: "main e f = ?mark @ main_body e cfg (last states)"
      using Inr k 2 by (simp add: main_def Let_def)
    show ?thesis unfolding main using main_body_cases [OF m, of e cfg "last states"] Inr v by blast
  qed
qed

end
