(* ===== verification/DialerFacts.thy ===== *)
theory DialerFacts
  imports Dialer ConntrackFacts
begin

text \<open>
  What holds of the dialer: \<open>connectSSH\<close> leaves no connection open on an error path and trusts a key only when it is
  the pinned one or has just been saved; the monitor keeps one pinned key for the life of the
  process, at most one live client, a bounded retry delay and a status that agrees with the client.
\<close>

section \<open>connectSSH\<close>

lemma keepalive_opts_no_close:
  "left_open (keepalive_opts e cfg @ evs) = left_open evs"
  "OpenRaw n \<notin> set (keepalive_opts e cfg)" "CloseRaw n \<notin> set (keepalive_opts e cfg)" "CloseClient n \<notin> set (keepalive_opts e cfg)"
  by (auto simp: keepalive_opts_def setKeepaliveProbeOpts_def Let_def split: option.splits)

lemma pin_host_key_cases:
  assumes "pin_host_key e cfg raw keys f = (r, f', evs)"
  shows "(case r of Inl _ \<Rightarrow> evs = [CloseClient raw] | Inr (c, fp) \<Rightarrow> evs = [] \<and> c = raw)"
  using assms by (auto simp: pin_host_key_def Let_def split: if_splits prod.splits option.splits)

text \<open>
  C29: \<open>connectSSH\<close> never leaks a connection. Whatever the file system, the network, the operating system and
  the SSH library answer, every TCP connection it opened is closed again when it returns an error, and on success the
  one left open is the returned client.
\<close>

theorem connectSSH_no_leak:
  "left_open (snd (snd (connectSSH e cfg f))) = (case fst (connectSSH e cfg f) of Inl err \<Rightarrow> {} | Inr (c, fp) \<Rightarrow> {c})"
  unfolding connectSSH_def Let_def
  by (auto simp: keepalive_opts_no_close dest!: pin_host_key_cases split: read_result.splits option.splits sum.splits prod.splits)

lemma connectSSH_success:
  assumes "connectSSH e cfg f = (Inr (c, fp), f', evs)"
  shows "\<exists>raw keys evs'. se_hs e (hostKeyCallback e cfg) = (None, keys) \<and> pin_host_key e cfg raw keys f = (Inr (c, fp), f', evs')"
  using assms unfolding connectSSH_def Let_def
  by (auto split: read_result.splits option.splits sum.splits prod.splits)

text \<open>The fingerprint of a connection that \<open>connectSSH\<close> returns.\<close>

lemma connectSSH_fingerprint:
  assumes "hs_contract (se_hs e)" and "connectSSH e cfg f = (Inr (c, fp), f', evs)"
  shows "fp \<noteq> [] \<and> (dc_fingerprint cfg \<noteq> [] \<longrightarrow> fp = dc_fingerprint cfg \<and> f' = f)"
proof -
  obtain raw keys evs' where hs: "se_hs e (hostKeyCallback e cfg) = (None, keys)"
    and pin: "pin_host_key e cfg raw keys f = (Inr (c, fp), f', evs')"
    using connectSSH_success [OF assms(2)] by blast
  have k: "keys \<noteq> []" "hostKeyCallback e cfg (last keys) = None"
    using assms(1) hs unfolding hs_contract_def by (metis fst_conv snd_conv last_in_set)+
  then show ?thesis
    using pin by (auto simp: pin_host_key_def hostKeyCallback_def sshFingerprint_def Let_def split: if_splits prod.splits option.splits)
qed

lemma connectSSH_saves:
  assumes "hs_contract (se_hs e)" and "connectSSH e cfg f = (Inr (c, fp), f', evs)" and "dc_fingerprint cfg = []"
    and "\<And>tmp. temp_file (se_fs e) (known_hosts_path (dc_keyPath cfg)) = Inr tmp \<Longrightarrow> f tmp = None \<and> tmp \<noteq> known_hosts_path (dc_keyPath cfg)"
  shows "f' = f(known_hosts_path (dc_keyPath cfg) \<mapsto> (fp, 384)) \<and> (\<exists>key. fp = sshFingerprint e key)"
proof -
  obtain raw keys evs' where hs: "se_hs e (hostKeyCallback e cfg) = (None, keys)"
    and pin: "pin_host_key e cfg raw keys f = (Inr (c, fp), f', evs')"
    using connectSSH_success [OF assms(2)] by blast
  have k: "keys \<noteq> []" using assms(1) hs unfolding hs_contract_def by (metis fst_conv snd_conv)
  then obtain states where w: "writeFileAtomic (se_fs e) (known_hosts_path (dc_keyPath cfg)) fp 384 f = (None, states)" "f' = last states"
    and fp: "fp = sshFingerprint e (last keys)"
    using pin assms(3) by (auto simp: pin_host_key_def Let_def split: prod.splits option.splits)
  show ?thesis using writeFileAtomic_final [OF assms(4) w(1)] w(2) fp by auto
qed

text \<open>
  C7: A pinned host key is binding. With a fingerprint in the configuration and an SSH library that keeps the contract
  of its host key callback, \<open>connectSSH\<close> returns a client only for that very fingerprint and never
  touches \<open>ssh_known_hosts\<close>; without one, it returns a client only after the fingerprint of the key it
  saw is in \<open>ssh_known_hosts\<close>, readable by its owner only.
\<close>

theorem connectSSH_host_key:
  assumes "hs_contract (se_hs e)"
    and "\<And>tmp. temp_file (se_fs e) (known_hosts_path (dc_keyPath cfg)) = Inr tmp \<Longrightarrow> f tmp = None \<and> tmp \<noteq> known_hosts_path (dc_keyPath cfg)"
    and "connectSSH e cfg f = (Inr (c, fp), f', evs)"
  shows "if dc_fingerprint cfg \<noteq> [] then fp = dc_fingerprint cfg \<and> f' = f
    else f' = f(known_hosts_path (dc_keyPath cfg) \<mapsto> (fp, 384)) \<and> (\<exists>key. fp = sshFingerprint e key)"
  using connectSSH_fingerprint [OF assms(1,3)] connectSSH_saves [OF assms(1,3) _ assms(2)] by simp

lemma server_hs_contract: "hs_contract (server_hs key)"
  by (auto simp: hs_contract_def server_hs_def split: option.splits)

lemma sample_ssh_facts:
  "hs_contract (se_hs (sample_ssh_env k))"
  "temp_file (se_fs (sample_ssh_env k)) (known_hosts_path (dc_keyPath sample_ssh_cfg)) = Inr ''/data/.ssh_known_hosts.tmp1''"
  "known_hosts_path (dc_keyPath sample_ssh_cfg) = ''/data/ssh_known_hosts''"
  "dc_fingerprint sample_ssh_cfg = []"
proof -
  show "hs_contract (se_hs (sample_ssh_env k))" by (simp add: sample_ssh_env_def server_hs_contract)
  have "temp_file disk_ok (known_hosts_path (dc_keyPath sample_ssh_cfg)) = Inr ''/data/.ssh_known_hosts.tmp1''" by code_simp
  then show "temp_file (se_fs (sample_ssh_env k)) (known_hosts_path (dc_keyPath sample_ssh_cfg)) = Inr ''/data/.ssh_known_hosts.tmp1''"
    by (simp add: sample_ssh_env_def)
  show "known_hosts_path (dc_keyPath sample_ssh_cfg) = ''/data/ssh_known_hosts''" by code_simp
  show "dc_fingerprint sample_ssh_cfg = []" by (simp add: sample_ssh_cfg_def)
qed

lemma sample_fresh:
  assumes "temp_file (se_fs (sample_ssh_env k)) (known_hosts_path (dc_keyPath sample_ssh_cfg)) = Inr tmp"
  shows "sample_fs tmp = None \<and> tmp \<noteq> known_hosts_path (dc_keyPath sample_ssh_cfg)"
proof -
  have "tmp = ''/data/.ssh_known_hosts.tmp1''" using assms sample_ssh_facts(2) [of k] by (simp only: sum.inject)
  then show ?thesis unfolding sample_ssh_facts(3) by (simp add: sample_fs_def)
qed

lemma sample_connect:
  "fst (connectSSH (sample_ssh_env ''k1'') sample_ssh_cfg sample_fs) = Inr (1, ''SHA256:hash-k1'')"
  by code_simp

theorem connectSSH_host_key_witness:
  "fst (snd (connectSSH (sample_ssh_env ''k1'') sample_ssh_cfg sample_fs)) ''/data/ssh_known_hosts'' = Some (''SHA256:hash-k1'', 384)"
proof -
  obtain f' evs where c: "connectSSH (sample_ssh_env ''k1'') sample_ssh_cfg sample_fs = (Inr (1, ''SHA256:hash-k1''), f', evs)"
    using sample_connect by (metis prod.collapse)
  have "f' = sample_fs(''/data/ssh_known_hosts'' \<mapsto> (''SHA256:hash-k1'', 384))"
    using connectSSH_host_key [OF sample_ssh_facts(1) sample_fresh c] by (simp add: sample_ssh_facts(3,4))
  then show ?thesis by (simp add: c)
qed

text \<open>
  C28: Trust on first use survives a restart. When the first connect saved the fingerprint, the next start of the
  dialer reads exactly it back from \<open>ssh_known_hosts\<close>, and every later connect that succeeds is
  to a server with that fingerprint.
\<close>

theorem tofu_roundtrip:
  assumes "hs_contract (se_hs e)" and "dc_fingerprint cfg = []"
    and "\<And>tmp. temp_file (se_fs e) (known_hosts_path (dc_keyPath cfg)) = Inr tmp \<Longrightarrow> f tmp = None \<and> tmp \<noteq> known_hosts_path (dc_keyPath cfg)"
    and "\<And>k. no_space (se_hash e k)" and "deny (known_hosts_path (dc_keyPath cfg)) = None"
    and "connectSSH e cfg f = (Inr (c, fp), f', evs)"
  shows "newSSHDialer deny f' cfg = Inr (cfg\<lparr>dc_fingerprint := fp\<rparr>, plain_status stateConnecting)
    \<and> (hs_contract (se_hs e2) \<and> fst (connectSSH e2 (cfg\<lparr>dc_fingerprint := fp\<rparr>) f2) = Inr (c2, fp2) \<longrightarrow> fp2 = fp)"
proof -
  have s: "f' = f(known_hosts_path (dc_keyPath cfg) \<mapsto> (fp, 384))" "\<exists>key. fp = sshFingerprint e key"
    using connectSSH_saves [OF assms(1,6,2,3)] by blast+
  have "no_space ''SHA256:''" by code_simp
  then have "no_space fp"
    using s(2) assms(4) unfolding sshFingerprint_def no_space_def by (metis list_all_append)
  then have "TrimSpace fp = fp" by (intro TrimSpace_no_space) (simp add: no_space_def list_all_iff)
  moreover have "fp \<noteq> []" using s(2) by (auto simp: sshFingerprint_def)
  ultimately have "newSSHDialer deny f' cfg = Inr (cfg\<lparr>dc_fingerprint := fp\<rparr>, plain_status stateConnecting)"
    using assms(5) by (simp add: newSSHDialer_def readKnownHostFingerprint_def os_ReadFile_def known_hosts_path_def s(1) Let_def)
  moreover have "fp2 = fp" if "hs_contract (se_hs e2)" "fst (connectSSH e2 (cfg\<lparr>dc_fingerprint := fp\<rparr>) f2) = Inr (c2, fp2)"
    using connectSSH_fingerprint [OF that(1), of "cfg\<lparr>dc_fingerprint := fp\<rparr>" f2 c2 fp2] that(2) \<open>fp \<noteq> []\<close>
    by (cases "connectSSH e2 (cfg\<lparr>dc_fingerprint := fp\<rparr>) f2") auto
  ultimately show ?thesis by blast
qed

theorem tofu_roundtrip_witness:
  "newSSHDialer (\<lambda>_. None) (fst (snd (connectSSH (sample_ssh_env ''k1'') sample_ssh_cfg sample_fs))) sample_ssh_cfg
     = Inr (sample_ssh_cfg\<lparr>dc_fingerprint := ''SHA256:hash-k1''\<rparr>, plain_status stateConnecting)"
proof -
  obtain f' evs where c: "connectSSH (sample_ssh_env ''k1'') sample_ssh_cfg sample_fs = (Inr (1, ''SHA256:hash-k1''), f', evs)"
    using sample_connect by (metis prod.collapse)
  have h: "no_space (se_hash (sample_ssh_env ''k1'') k)" for k
    by (simp add: sample_ssh_env_def no_space_def list_all_iff) (simp add: is_space_def)
  show ?thesis
    using tofu_roundtrip [OF sample_ssh_facts(1,4) sample_fresh h _ c, where deny = "\<lambda>_. None"] by (simp add: c)
qed

section \<open>Destination dials\<close>

text \<open>
  A tracked dial is accounted for. Other goroutines may use the tracker meanwhile, as long as they leave the record
  of this dial in place. A failed dial leaves the active map as the others left it without the record, and is the newest record
  of the history with the error's text; a successful one hands out a tracked connection, and the
  active record points to it. The host is the name the client asked for, not the resolved
  address.
\<close>

theorem trackDial_accounted:
  assumes "\<not> cx_noTrack ctx" and "parseDialAddr addr = (dialHost, port)" and "dial_meta ctx dialHost = (meta, host)"
    and "Begin clk meta host port tr = (i, tr1)" and "ring_inv (during tr1)"
    and "map_of (active (during tr1)) i = map_of (active tr1) i"
  shows "case trackDial chan_open clk during cfg client ctx network addr (Some tr) of
      (Inl err, tr') \<Rightarrow> \<exists>t r. tr' = Some t \<and> map_of (active t) = (map_of (active (during tr1)))(i := None)
        \<and> history t \<noteq> [] \<and> last (history t) = r \<and> c_id r = i \<and> c_status r = StateError \<and> c_reason r = err_Error err \<and> c_host r = host \<and> c_port r = port
    | (Inr cn, tr') \<Rightarrow> \<exists>t r p b. tr' = Some t \<and> cn = Tracked p \<and> ssh_dial chan_open cfg client network addr = Inr b
        \<and> map_of (active t) = (map_of (active (during tr1)))(i \<mapsto> r)
        \<and> c_status r = StateActive \<and> c_live r = Some p \<and> c_host r = host \<and> p < length (tconns t) \<and> tc_Conn (tconns t ! p) = b"
proof -
  obtain r where r: "map_of (active (during tr1)) i = Some r" "c_id r = i" "c_host r = host" "c_port r = port"
    using assms(4,6) by (auto simp: Begin_def Let_def ct_Now_def update_conv split: prod.splits)
  show ?thesis
  proof (cases "ssh_dial chan_open cfg client network addr")
    case (Inl err)
    define r' where "r' = r\<lparr>c_status := StateError, c_reason := err_Error err, closedAt := clk (ct_tick (during tr1))\<rparr>"
    define u where "u = (during tr1)\<lparr>active := AList.delete i (active (during tr1)), ct_tick := Suc (ct_tick (during tr1))\<rparr>"
    have "ring_inv u" using assms(5) by (simp add: u_def ring_inv_def)
    then have "history (pushRing clk r' u) \<noteq> [] \<and> last (history (pushRing clk r' u)) = r'" by (rule ring_log.log_last)
    moreover have "Fail clk i err (during tr1) = pushRing clk r' u"
      by (simp add: Fail_def r ct_Now_def r'_def u_def Let_def)
    moreover have "map_of (active (pushRing clk r' u)) = (map_of (active (during tr1)))(i := None)"
      by (simp add: frame_simps u_def delete_conv')
    ultimately show ?thesis using assms(1-4) Inl r by (simp add: trackDial_def r'_def)
  next
    case (Inr b)
    then show ?thesis using assms(1-4) r 
      by (simp add: trackDial_def Done_def Let_def update_conv')
        (intro exI [of _ "r\<lparr>c_status := StateActive, c_live := Some (length (tconns (during tr1)))\<rparr>"], simp)
  qed
qed

theorem trackDial_accounted_witness:
  "case trackDial (\<lambda>_ _ _. Inl (ErrText ''refused'')) sample_clock (\<lambda>t. t) sample_ssh_cfg (Some 1)
       \<lparr>cx_noTrack = False, cx_meta = Some sample_meta\<rparr> ''tcp'' ''93.184.216.34:443'' (Some (NewConnTracker 2 time_Minute)) of
     (Inl err, Some t) \<Rightarrow> active t = [] \<and> c_status (last (history t)) = StateError
   | _ \<Rightarrow> False"
proof -
  let ?ctx = "\<lparr>cx_noTrack = False, cx_meta = Some sample_meta\<rparr>"
  obtain dh port where a: "parseDialAddr ''93.184.216.34:443'' = (dh, port)" by (metis prod.collapse)
  obtain meta host where m: "dial_meta ?ctx dh = (meta, host)" by (metis prod.collapse)
  obtain i t1 where b: "Begin sample_clock meta host port (NewConnTracker 2 time_Minute) = (i, t1)" by (metis prod.collapse)
  have ri: "ring_inv t1" using b NewConnTracker_inv [of 2 time_Minute] by (auto simp: Begin_def Let_def ct_Now_def tracker_inv_def ring_inv_def)
  have ac: "map_of (active t1) = [i \<mapsto> snd (hd (active t1))]"
    using b by (auto simp: Begin_def Let_def ct_Now_def NewConnTracker_def)
  show ?thesis
    using trackDial_accounted [OF _ a m b, of "\<lambda>t. t" "\<lambda>_ _ _. Inl (ErrText ''refused'')" sample_ssh_cfg "Some 1" "''tcp''"] ri ac
    by (auto simp: trackDial_def a m b ssh_dial_def split: prod.splits sum.splits option.splits)
qed

text \<open>An internal client's dial never touches the tracker, and what it yields is not counted.\<close>

lemma tunnelHTTPClient_untracked:
  "snd (tunnelHTTPClient_DialContext chan_open clk during cfg client ctx network addr tracker) = tracker"
  "fst (tunnelHTTPClient_DialContext chan_open clk during cfg client ctx network addr tracker) \<noteq> Inr (Tracked i)"
  by (cases "ssh_dial chan_open cfg client network addr";
      simp add: tunnelHTTPClient_DialContext_def DialContext_def trackDial_def ctxWithNoTrack_def)+

section \<open>The monitor\<close>

lemma reconnectDelay_closed:
  assumes "0 \<le> n"
  shows "reconnectDelay n = min (60 * time_Second) (2 ^ nat n * time_Second)"
proof (cases "n > 6")
  case True
  then have "(2 :: int) ^ 6 \<le> 2 ^ nat n" by (intro power_increasing) auto
  then show ?thesis using True by (simp add: reconnectDelay_def Let_def time_units wrap64_def)
next
  case False
  then have "n = 0 \<or> n = 1 \<or> n = 2 \<or> n = 3 \<or> n = 4 \<or> n = 5 \<or> n = 6" using assms by presburger
  then show ?thesis
    by (elim disjE) (simp_all add: reconnectDelay_def Let_def time_units wrap64_def)
qed

lemma reconnectDelay_bounds: "1 \<le> n \<Longrightarrow> 2 * time_Second \<le> reconnectDelay n \<and> reconnectDelay n \<le> 60 * time_Second"
proof -
  assume n: "1 \<le> n"
  then have "(2 :: int) ^ 1 \<le> 2 ^ nat n" by (intro power_increasing) auto
  then show ?thesis using n by (simp add: reconnectDelay_closed time_units)
qed

lemmas monitor_defs = monitor_top_def monitor_wait_def monitor_lost_def monitor_sleep_def monitor_failed_def
  monitor_connected_def monitor_check_def monitor_publish_def monitor_announce_def keepalive_tick_def
  stop_store_def stop_read_def stop_close_def close_client_def setStatus_def Let_def

lemma delay_inv_step: "dialer_step cfg connect d d' \<Longrightarrow> delay_inv d \<Longrightarrow> delay_inv d'"
proof (induction rule: dialer_step.cases)
  case (failed d err jitter)
  then show ?case
    using reconnectDelay_bounds [of "ds_attempt d + 1"]
    by (simp add: monitor_defs delay_inv_def) (simp add: time_units)
qed (auto simp: monitor_defs delay_inv_def split: option.splits if_splits)

lemma client_inv_step: "dialer_step cfg connect d d' \<Longrightarrow> client_inv d \<Longrightarrow> client_inv d'"
  by (induction rule: dialer_step.cases)
     (auto simp: monitor_defs client_inv_def split: option.splits if_splits monitor_pc.splits)

text \<open>The contract of the connect function the monitor runs on: it honours the pinned fingerprint it is given.\<close>

locale host_key_pinning =
  fixes connect :: "string \<Rightarrow> goerr + nat \<times> string \<Rightarrow> bool"
  assumes honours: "connect p (Inr (c, fp)) \<Longrightarrow> fp \<noteq> [] \<and> (p \<noteq> [] \<longrightarrow> fp = p)"
begin

lemma key_inv_step: "dialer_step cfg connect d d' \<Longrightarrow> key_inv d \<Longrightarrow> key_inv d'"
proof (induction rule: dialer_step.cases)
  case (connected d c fp)
  then show ?case using honours [of "ds_pinned d" c fp] by (auto simp: monitor_defs key_inv_def)
qed (auto simp: monitor_defs key_inv_def split: option.splits if_splits)

lemma reachable_inv: "dialer_reachable cfg connect d \<Longrightarrow> key_inv d \<and> delay_inv d \<and> client_inv d"
proof (induction rule: dialer_reachable.induct)
  case start
  then show ?case by (simp add: new_dialer_state_def key_inv_def delay_inv_def client_inv_def)
next
  case (reach d d')
  then show ?case using key_inv_step delay_inv_step client_inv_step by blast
qed

lemma pinned_kept: "dialer_reachable cfg connect d \<Longrightarrow> dc_fingerprint cfg \<noteq> [] \<Longrightarrow> ds_pinned d = dc_fingerprint cfg"
proof (induction rule: dialer_reachable.induct)
  case (reach d d')
  then show ?case
    by (auto elim!: dialer_stepE simp: monitor_defs split: option.splits if_splits)
qed (simp add: new_dialer_state_def)

end

interpretation ssh_connect: host_key_pinning "connectSSH_result cfg" for cfg
proof
  fix p c fp
  assume "connectSSH_result cfg p (Inr (c, fp))"
  then obtain e f f' evs where "hs_contract (se_hs e)" "connectSSH e (cfg\<lparr>dc_fingerprint := p\<rparr>) f = (Inr (c, fp), f', evs)"
    unfolding connectSSH_result_def by (metis prod.collapse)
  from connectSSH_fingerprint [OF this] show "fp \<noteq> [] \<and> (p \<noteq> [] \<longrightarrow> fp = p)" by simp
qed


text \<open>
  C8: One host key per process. In every state the monitor, the keepalive loops, \<open>stop\<close> and the network reach together, all
  the clients that were ever published have the fingerprint the monitor has pinned; when
  \<open>ssh_known_hosts\<close> held one at the start, it is that one.
\<close>

theorem monitor_one_host_key:
  assumes "dialer_reachable cfg (connectSSH_result cfg) d"
  shows "(\<forall>fp \<in> set (ds_trusted d). fp = ds_pinned d) \<and> (dc_fingerprint cfg \<noteq> [] \<longrightarrow> ds_pinned d = dc_fingerprint cfg)"
  using ssh_connect.reachable_inv [OF assms] ssh_connect.pinned_kept [OF assms] by (auto simp: key_inv_def)

text \<open>
  C30: The clients and the delay of the monitor. At most one SSH connection is live, the published client or the one
  about to be published; when the monitor has returned, none is. While the monitor waits on a
  client the dialer reports it as connected. The delay before a connect is zero after a success and
  at least 2 and less than 60.5 seconds after a failure.
\<close>

theorem monitor_clients:
  assumes "dialer_reachable cfg (connectSSH_result cfg) d"
  shows "card (ds_live d) \<le> 1 \<and> (ds_pc d = MReturned \<longrightarrow> ds_done d \<and> ds_live d = {})
    \<and> (ds_pc d = MWait c \<longrightarrow> Connected d \<and> ds_status d = plain_status stateConnected)
    \<and> (if ds_attempt d = 0 then ds_delay d = 0 else 2 * time_Second \<le> ds_delay d \<and> ds_delay d < 60 * time_Second + 500 * time_Millisecond)"
proof -
  have inv: "client_inv d" "delay_inv d" using ssh_connect.reachable_inv [OF assms] by blast+
  then obtain a where "ds_live d \<subseteq> {a}"
    by (cases "ds_client d") (auto simp: client_inv_def split: monitor_pc.splits)
  then have "card (ds_live d) \<le> card {a}" by (intro card_mono) auto
  then show ?thesis using inv by (auto simp: client_inv_def delay_inv_def Connected_def)
qed

text \<open>The states of a first connect.\<close>

lemma sample_first_connect:
  fixes st :: dialer_state
  assumes "dialer_reachable sample_ssh_cfg (connectSSH_result sample_ssh_cfg) st"
    and "ds_pc st = MConnect" and "ds_pinned st = []" and "1 \<notin> ds_live st"
  shows "dialer_reachable sample_ssh_cfg (connectSSH_result sample_ssh_cfg) (monitor_connected 1 ''SHA256:hash-k1'' st)"
proof (rule reach [OF assms(1)], rule connected)
  have "sample_ssh_cfg\<lparr>dc_fingerprint := ds_pinned st\<rparr> = sample_ssh_cfg" using assms(3) by (simp add: sample_ssh_cfg_def)
  then show "connectSSH_result sample_ssh_cfg (ds_pinned st) (Inr (1, ''SHA256:hash-k1''))"
    using sample_connect sample_ssh_facts(1) [of "''k1''"] unfolding connectSSH_result_def by (metis (no_types))
qed (use assms in simp_all)


lemma sample_connecting:
  "dialer_reachable sample_ssh_cfg (connectSSH_result sample_ssh_cfg) (monitor_sleep (monitor_top (new_dialer_state [])))"
proof -
  have 0: "dialer_reachable sample_ssh_cfg (connectSSH_result sample_ssh_cfg) (new_dialer_state [])"
    using dialer_reachable.start [of sample_ssh_cfg "connectSSH_result sample_ssh_cfg"] by (simp add: sample_ssh_facts(4))
  have 1: "dialer_reachable sample_ssh_cfg (connectSSH_result sample_ssh_cfg) (monitor_top (new_dialer_state []))"
    by (rule reach [OF 0 top]) (simp add: new_dialer_state_def)
  show ?thesis by (rule reach [OF 1 slept]) (simp add: monitor_defs new_dialer_state_def)
qed

lemma sample_about_to_publish: "dialer_reachable sample_ssh_cfg (connectSSH_result sample_ssh_cfg) about_to_publish"
  unfolding about_to_publish_def
  by (rule reach [OF sample_first_connect [OF sample_connecting] check]) (simp_all add: monitor_defs new_dialer_state_def)

lemma publish_wait:
  assumes r: "dialer_reachable cfg connect d" and pc: "ds_pc d = MPublish c fp" and cl: "ds_client d = None"
  shows "dialer_reachable cfg connect (monitor_top (monitor_announce cfg c fp (monitor_publish c fp d)))"
proof -
  have 1: "dialer_reachable cfg connect (monitor_publish c fp d)" by (rule reach [OF r publish [OF pc]])
  have 2: "dialer_reachable cfg connect (monitor_announce cfg c fp (monitor_publish c fp d))"
    by (rule reach [OF 1 announce]) (simp add: monitor_publish_def cl)
  show ?thesis by (rule reach [OF 2 top]) (simp add: monitor_announce_def setStatus_def Let_def)
qed

lemma serving_reachable: "dialer_reachable sample_ssh_cfg (connectSSH_result sample_ssh_cfg) serving"
  unfolding serving_def
  by (rule publish_wait [OF sample_about_to_publish]) (simp_all add: about_to_publish_def monitor_defs new_dialer_state_def)

lemma serving_fields:
  "ds_pc serving = MWait 1" "ds_trusted serving = [''SHA256:hash-k1'']" "ds_pinned serving = ''SHA256:hash-k1''" "ds_live serving = {1}"
  by (simp_all add: serving_def about_to_publish_def monitor_defs new_dialer_state_def)

theorem monitor_one_host_key_witness: "''SHA256:hash-k1'' = ds_pinned serving"
  using monitor_one_host_key [OF serving_reachable] by (simp add: serving_fields(2))

theorem monitor_clients_witness: "card (ds_live serving) \<le> 1 \<and> Connected serving \<and> ds_status serving = plain_status stateConnected"
  using monitor_clients [OF serving_reachable, of 1] by (simp add: serving_fields)

text \<open>
  C37: \<open>stop\<close> can miss a client. When \<open>stop\<close> runs between the monitor's last check of \<open>done\<close> and the publication of the new client, it
  finds no client to close; the monitor then publishes the client and waits on it while it is live, though
  \<open>stop\<close> has returned.
\<close>

theorem stop_misses_client:
  "\<exists>d. dialer_reachable sample_ssh_cfg (connectSSH_result sample_ssh_cfg) d \<and>
     ds_done d \<and> ds_stop d = SReturned \<and> ds_pc d = MWait 1 \<and> ds_client d = Some 1 \<and> 1 \<in> ds_live d"
proof -
  let ?R = "dialer_reachable sample_ssh_cfg (connectSSH_result sample_ssh_cfg)"
  define d where "d = stop_close None (stop_read (stop_store about_to_publish))"
  have 1: "?R (stop_store about_to_publish)"
    by (rule reach [OF sample_about_to_publish stop1]) (simp add: about_to_publish_def monitor_defs new_dialer_state_def)
  have 2: "?R (stop_read (stop_store about_to_publish))"
    by (rule reach [OF 1 stop2]) (simp add: stop_store_def)
  have 3: "?R d" unfolding d_def
    by (rule reach [OF 2 stop3]) (simp add: stop_read_def stop_store_def about_to_publish_def monitor_defs new_dialer_state_def)
  have 4: "?R (monitor_top (monitor_announce sample_ssh_cfg 1 ''SHA256:hash-k1'' (monitor_publish 1 ''SHA256:hash-k1'' d)))"
    by (rule publish_wait [OF 3]) (simp_all add: d_def about_to_publish_def monitor_defs new_dialer_state_def)
  show ?thesis
    by (rule exI, intro conjI, rule 4) (simp_all add: d_def about_to_publish_def monitor_defs new_dialer_state_def)
qed

text \<open>
  The backoff of the monitor: for every attempt number, however large, the delay is \<open>2 ^ attempt\<close> seconds capped
  at one minute; the shift never overflows.
\<close>

theorem reconnectDelay_capped:
  assumes "0 \<le> n"
  shows "reconnectDelay n = min (60 * time_Second) (2 ^ nat n * time_Second)"
  by (rule reconnectDelay_closed [OF assms])

theorem reconnectDelay_capped_witness: "reconnectDelay 3 = 8 * time_Second \<and> reconnectDelay 34 = 60 * time_Second"
  using reconnectDelay_capped [of 3] reconnectDelay_capped [of 34] by (simp add: time_units)

end
