(* ===== verification/Proxies.thy ===== *)
theory Proxies
  imports Socks5 HttpProxy
begin

text \<open>
  What holds for both proxies because they open every connection through the one \<open>Opener\<close>: no private address is ever dialed through the tunnel.
\<close>

section \<open>Specification\<close>

text \<open>An event that does not ask the tunnel for a private address.\<close>

definition tunnel_safe :: "RuleEngine \<Rightarrow> event \<Rightarrow> bool" where
  "tunnel_safe e ev =
     (case ev of
        DialTunnel proto src host addr \<Rightarrow> (\<exists>ip port. addr = JoinHostPort (addr_String ip) (Itoa port) \<and> \<not> isPrivate e ip)
      | _ \<Rightarrow> True)"

section \<open>The opener\<close>

lemma ask_safe: "ask_tunnel h ev \<Longrightarrow> tunnel_safe e ev" "ask_local h ev \<Longrightarrow> tunnel_safe e ev"
  by (auto simp: ask_tunnel_def ask_local_def tunnel_safe_def)

lemma resolvers_safe:
  "asks (tunnel_safe e) c (snd (dns_ResolveAll env host c))" "asks (tunnel_safe e) c (snd (localResolveAll env host c))"
  "asks (tunnel_safe e) c (snd (resolveTunnel env host c))"
proof -
  show t: "asks (tunnel_safe e) c (snd (dns_ResolveAll env host c))"
    using tunnel_resolver.res_asks [of host c env] by (rule asks_mono) (rule ask_safe)
  show "asks (tunnel_safe e) c (snd (localResolveAll env host c))"
    using local_resolver.res_asks [of host c env] by (rule asks_mono) (rule ask_safe)
  show "asks (tunnel_safe e) c (snd (resolveTunnel env host c))"
    using t by (simp add: resolveTunnel_ResolveAll(2))
qed

lemma decide_rules_safe: "asks (tunnel_safe e) c (snd (decide_rules env rs host c))"
proof (induction rs arbitrary: c)
  case Nil
  then show ?case by simp
next
  case (Cons r rs)
  obtain b d where m: "matches env r host c = (b, d)" by force
  have "asks (tunnel_safe e) c d"
    using resolvers_safe(1) [of e c env host] m
    by (auto simp: matches_def split: option.splits prod.splits sum.splits if_splits)
  then show ?case using Cons m asks_trans by (cases b) auto
qed

lemma Decide_safe: "asks (tunnel_safe e) c (snd (Decide env e' host port c))"
  using decide_rules_safe by (simp add: Decide_def Let_def)

lemma candidates_safe: "asks (tunnel_safe e) c (snd (candidates env o' host port c))"
  using asks_trans [OF Decide_safe resolvers_safe(2)] asks_trans [OF Decide_safe resolvers_safe(3)]
  by (simp add: candidates_cases Let_def)

lemma candidates_public:
  assumes "candidates env o' host port c = ((Inr ips, RouteTunnel, reason), c')" and "ip \<in> set ips"
  shows "\<not> isPrivate (o_rules o') ip"
proof -
  obtain as ld where "tunnel_candidates o' host as ld RouteTunnel (snd (fst (Decide env (o_rules o') host port c))) = (Inr ips, RouteTunnel, reason)"
    using candidates_tunnel [OF assms(1)] .
  from tunnel_candidates_tunnel [OF this] show ?thesis using assms(2) by auto
qed

lemma Open_safe: "asks (tunnel_safe (o_rules o')) c (snd (Open env o' src proto host port c))"
proof -
  obtain r route reason d where k: "candidates env o' host port c = ((r, route, reason), d)" by (metis prod.collapse)
  then have cd: "asks (tunnel_safe (o_rules o')) c d" using candidates_safe [of "o_rules o'" c env o' host port] by simp
  show ?thesis
  proof (cases r)
    case (Inl err)
    then show ?thesis using cd k by (simp add: Open_def)
  next
    case (Inr ips)
    show ?thesis
    proof (cases route)
      case RouteDirect
      obtain tried where "trace (snd (dial_loop (dial_direct env (o_family o') port) ips None d)) = trace d @
          concat (map (\<lambda>ip. if familyMatches (o_family o') (AsSlice ip)
            then [DialDirect (if Is4 ip then ''tcp4'' else ''tcp6'') (JoinHostPort (addr_String ip) (Itoa port))] else []) tried)"
        using direct_dial.loop_events by blast
      then have "asks (tunnel_safe (o_rules o')) d (snd (dial_loop (dial_direct env (o_family o') port) ips None d))"
        by (auto simp: asks_def list_all_iff tunnel_safe_def split: if_splits)
      then show ?thesis using cd asks_trans k Inr RouteDirect
        by (simp add: Open_def split: prod.split sum.split)
    next
      case RouteTunnel
      obtain tried where t: "prefix tried ips" "trace (snd (dial_loop (dial_tunnel env proto src host port) ips None d)) = trace d @
          concat (map (\<lambda>ip. [DialTunnel proto src host (JoinHostPort (addr_String ip) (Itoa port))]) tried)"
        using tunnel_dial.loop_events by blast
      have "\<not> isPrivate (o_rules o') ip" if "ip \<in> set tried" for ip
        using candidates_public k Inr RouteTunnel that set_mono_prefix [OF t(1)] by blast
      then have "asks (tunnel_safe (o_rules o')) d (snd (dial_loop (dial_tunnel env proto src host port) ips None d))"
        using t(2) by (auto simp: asks_def list_all_iff tunnel_safe_def)
      then show ?thesis using cd asks_trans k Inr RouteTunnel
        by (simp add: Open_def split: prod.split sum.split)
    qed
  qed
qed

section \<open>The proxies\<close>

lemma asks_ticks: "asks P (c\<lparr>tick := n\<rparr>) (d\<lparr>tick := m\<rparr>) = asks P c d" "asks P (c\<lparr>tick := n\<rparr>) d = asks P c d"
  by (simp_all add: asks_def)

lemma openUpstream_safe: "asks (tunnel_safe (o_rules o')) c (snd (snd (openUpstream env o' cid src host port c)))"
  using Open_safe [of o' "c\<lparr>tick := Suc (tick c)\<rparr>" env src "''http''" host port]
  by (auto simp: openUpstream_def Let_def time_Now_def asks_tick asks_ticks split: prod.split sum.split)

lemma close_upstream_safe: "asks P c d \<Longrightarrow> asks P c (ho_cache (close_upstream h lc client sent d))"
  by (auto simp: close_upstream_def time_Now_def asks_tick split: prod.split)

lemma forward_request_safe: "asks P c d \<Longrightarrow> asks P c (ho_cache (forward_request h req lc d))"
  by (auto simp: forward_request_def close_upstream_safe split: sum.split prod.split option.split)

lemma handleConn_safe: "asks (tunnel_safe (o_rules o')) c (ho_cache (handleConn h o' cid src p c))"
proof -
  have u: "asks (tunnel_safe (o_rules o')) c c'" if "openUpstream (he_env h) o' cid src host port c = (r, ls, c')" for host port r ls c'
    using openUpstream_safe [of o' c "he_env h" cid src host port] that by simp
  have "asks (tunnel_safe (o_rules o')) c (ho_cache (handleConnect h o' cid src req c))" for req
    by (auto simp: handleConnect_def dest!: u intro!: close_upstream_safe split: sum.split prod.split)
  moreover have "asks (tunnel_safe (o_rules o')) c (ho_cache (handleHTTP h o' cid src req c))" for req
    by (auto simp: handleHTTP_def Let_def dest!: u intro!: forward_request_safe split: sum.split prod.split option.split)
  ultimately show ?thesis by (simp add: handleConn_def split: parsed.split)
qed

lemma socks_dial_safe: "asks (tunnel_safe (o_rules o')) (sk_dns s) (sk_dns (snd (socks_dial env o' ctx addr request s)))"
proof -
  have "asks (tunnel_safe (o_rules o')) (sk_dns s) d"
    if "Open env o' src ''socks5'' host port ((sk_dns s)\<lparr>tick := n\<rparr>) = (r, d)" for src host port n r d
    using Open_safe [of o' "(sk_dns s)\<lparr>tick := n\<rparr>" env src "''socks5''" host port] that by (simp add: asks_ticks)
  then show ?thesis
    by (auto simp: socks_dial_def Let_def time_Now_def asks_tick split: sum.split prod.split option.split)
qed

text \<open>
  C1: No private address goes through the tunnel. Whatever a SOCKS5 or an HTTP client asks for, and whatever the resolvers answer, every address either
  proxy asks the SSH server to connect to is public.
\<close>

theorem no_private_address_through_tunnel:
  "(\<exists>evs. trace (ho_cache (handleConn h o' cid src p c)) = trace c @ evs \<and> list_all (tunnel_safe (o_rules o')) evs)
   \<and> (\<exists>evs. trace (sk_dns (snd (socks_dial env o' ctx addr request s))) = trace (sk_dns s) @ evs \<and> list_all (tunnel_safe (o_rules o')) evs)"
  using handleConn_safe [of o' c h cid src p] socks_dial_safe [of o' s env ctx addr request] by (simp add: asks_def)

end
