(* ===== verification/DnsFlight.thy ===== *)
theory DnsFlight
  imports DnsCache
begin

text \<open>
  The concurrent side of \<open>dns.go\<close>: resolving calls, the shared lookups of \<open>singleflight\<close> and the purge
  goroutine, interleaved. \<open>lookup\<close> is cut at the points where it takes or leaves a lock or talks to the
  outside (\<open>lookup_next\<close>), \<open>cachedLookup\<close> around it at its cache check, its \<open>Do\<close>, its \<open>store\<close> and its return
  (\<open>call_next\<close>), and \<open>dns_step\<close> lets any goroutine make the next move on the one \<open>dnsCache\<close>.

  \<open>singleflight.Group\<close> is a library: its \<open>Do\<close> is a parameter (record \<open>singleflight\<close>), and \<open>singleflight_doc\<close> is its
  documentation, that one execution per key is in flight and that a duplicate call waits for it and gets its results.

  Shown here: a call that runs alone computes what \<open>cachedLookup\<close> of theory \<open>Dns\<close> computes; over all interleavings
  the cache keeps its invariant, one key has at most one lookup out, and every answer comes from a lookup under its own
  key; and the probe of a paused resolver is the only lookup that uses that resolver.
\<close>

section \<open>One lookup in steps\<close>

type_synonym lookup_ret = "lookupResult \<times> goerr option"

text \<open>The local variables of \<open>lookup\<close> and the places where it can be interrupted.\<close>

record lookup_vars =
  lv_host :: string
  lv_ctx :: time
  lv_now :: time
  lv_active :: "nat list"
  lv_deadline :: time

datatype lookup_pc =
    LkNow
  | LkClaim nat
  | LkDeadline
  | LkAsk "nat list"
  | LkNote nat "nat list" "goerr + addr list" duration
  | LkNotFound
  | LkFallback
  | LkLocal
  | LkRelease "nat list" lookup_ret
  | LkDone lookup_ret

definition lk_claim :: "nat \<Rightarrow> lookup_vars \<Rightarrow> dnsCache \<Rightarrow> lookup_vars \<times> dnsCache" where
  "lk_claim i v c =
     (let (ok, u) = claim (lv_now v) (tunnel c ! i)
      in (if ok then v\<lparr>lv_active := lv_active v @ [i]\<rparr> else v, upd_upstream i (\<lambda>_. u) c))"

definition lk_ask :: "env \<Rightarrow> nat \<Rightarrow> nat list \<Rightarrow> lookup_vars \<Rightarrow> dnsCache \<Rightarrow> lookup_pc \<times> dnsCache" where
  "lk_ask env i rest v c =
     (let (now, c) = time_Now env c;
          timeout = quot (time_Sub (lv_deadline v) now) (1 + int (length rest));
          (start, c) = time_Now env c;
          (r, c) = call_upstream env i (lv_host v) timeout c;
          (fin, c) = time_Now env c
      in (LkNote i rest r (time_Sub fin start), c))"

definition lk_note :: "env \<Rightarrow> nat \<Rightarrow> nat list \<Rightarrow> goerr + addr list \<Rightarrow> duration \<Rightarrow> lookup_vars \<Rightarrow> dnsCache \<Rightarrow> lookup_pc \<times> dnsCache" where
  "lk_note env i rest r rtt v c =
     (case r of
        Inr as \<Rightarrow> (LkRelease (lv_active v) (\<lparr>r_addrs = as, authoritative = True, r_localDirect = False\<rparr>, None), upstreamAnswered env i rtt c)
      | Inl e \<Rightarrow>
          if errors_Is e ErrNotFound then (LkNotFound, upstreamAnswered env i rtt c)
          else (LkAsk rest, upstreamFailed env i e c))"

definition lk_return :: "lookup_vars \<Rightarrow> lookup_out \<Rightarrow> lookup_vars \<times> lookup_pc \<times> dnsCache" where
  "lk_return v q = (v, LkRelease (lv_active v) (fst q), snd q)"

fun lookup_next :: "env \<Rightarrow> lookup_vars \<times> lookup_pc \<times> dnsCache \<Rightarrow> lookup_vars \<times> lookup_pc \<times> dnsCache" where
  "lookup_next env (v, LkNow, c) = (case time_Now env c of (now, c) \<Rightarrow> (v\<lparr>lv_now := now, lv_active := []\<rparr>, LkClaim 0, c))"
| "lookup_next env (v, LkClaim i, c) =
     (if i < length (tunnel c) then (case lk_claim i v c of (v, c) \<Rightarrow> (v, LkClaim (Suc i), c)) else (v, LkDeadline, c))"
| "lookup_next env (v, LkDeadline, c) =
     (case time_Now env c of (t, c) \<Rightarrow>
        (v\<lparr>lv_deadline := min (lv_ctx v) (t + tunnelLookupTimeout)\<rparr>, LkAsk (lv_active v), c))"
| "lookup_next env (v, LkAsk [], c) = (v, LkFallback, c)"
| "lookup_next env (v, LkAsk (i # rest), c) = (v, lk_ask env i rest v c)"
| "lookup_next env (v, LkNote i rest r rtt, c) = (v, lk_note env i rest r rtt v c)"
| "lookup_next env (v, LkNotFound, c) = lk_return v (notFound env (lv_host v) c)"
| "lookup_next env (v, LkFallback, c) = lk_return v (lookup_fallback env (lv_host v) c)"
| "lookup_next env (v, LkLocal, c) = (case local_lookup env (lv_ctx v) (lv_host v) c of (out, c) \<Rightarrow> (v, LkDone out, c))"
| "lookup_next env (v, LkRelease [] out, c) = (v, LkDone out, c)"
| "lookup_next env (v, LkRelease (i # rest) out, c) = (v, LkRelease rest out, upd_upstream i (\<lambda>u. u\<lparr>probing := False\<rparr>) c)"
| "lookup_next env (v, LkDone out, c) = (v, LkDone out, c)"

text \<open>The resolvers a lookup has claimed and not yet released.\<close>

fun lk_held :: "lookup_vars \<Rightarrow> lookup_pc \<Rightarrow> nat list" where
  "lk_held v LkNow = []"
| "lk_held v LkLocal = []"
| "lk_held v (LkRelease rest out) = rest"
| "lk_held v (LkDone out) = []"
| "lk_held v pc = lv_active v"

section \<open>One resolving call in steps\<close>

record 'g singleflight =
  sf_Do :: "nat \<Rightarrow> string \<Rightarrow> 'g \<Rightarrow> bool \<times> 'g"
  sf_finish :: "nat \<Rightarrow> string \<Rightarrow> lookup_ret \<Rightarrow> 'g \<Rightarrow> 'g"
  sf_result :: "'g \<Rightarrow> nat \<Rightarrow> lookup_ret option"
  sf_running :: "'g \<Rightarrow> string \<Rightarrow> nat option"
  sf_waiting :: "'g \<Rightarrow> nat \<Rightarrow> nat option"
  sf_new :: 'g

text \<open>
  Calls are numbered. \<open>sf_Do\<close> tells whether call number \<open>i\<close> executes the function, \<open>sf_finish\<close> is the return of that
  function, \<open>sf_result\<close> is what a duplicate call got; \<open>sf_running\<close> and \<open>sf_waiting\<close> say which call executes for a key and
  for which execution a duplicate waits.
\<close>

definition singleflight_doc :: "'g singleflight \<Rightarrow> bool" where
  "singleflight_doc sf \<longleftrightarrow>
     sf_running sf (sf_new sf) = Map.empty \<and> sf_waiting sf (sf_new sf) = Map.empty \<and> sf_result sf (sf_new sf) = Map.empty \<and>
     (\<forall>g i k. sf_running sf g k = None \<longrightarrow> fst (sf_Do sf i k g) \<and> sf_running sf (snd (sf_Do sf i k g)) = (sf_running sf g)(k \<mapsto> i) \<and>
        sf_waiting sf (snd (sf_Do sf i k g)) = sf_waiting sf g \<and> sf_result sf (snd (sf_Do sf i k g)) = sf_result sf g) \<and>
     (\<forall>g i k j. sf_running sf g k = Some j \<longrightarrow> \<not> fst (sf_Do sf i k g) \<and> sf_running sf (snd (sf_Do sf i k g)) = sf_running sf g \<and>
        sf_waiting sf (snd (sf_Do sf i k g)) = (sf_waiting sf g)(i \<mapsto> j) \<and> sf_result sf (snd (sf_Do sf i k g)) = sf_result sf g) \<and>
     (\<forall>g i k r. sf_running sf g k = Some i \<longrightarrow> sf_running sf (sf_finish sf i k r g) = (sf_running sf g)(k := None) \<and>
        sf_waiting sf (sf_finish sf i k r g) = sf_waiting sf g \<and>
        (\<forall>j. sf_result sf (sf_finish sf i k r g) j = (if sf_waiting sf g j = Some i then Some r else sf_result sf g j)))"

datatype call_pc =
    CallCheck
  | CallDo
  | CallRun lookup_vars lookup_pc
  | CallReturn lookup_ret
  | CallWait
  | CallDone lookup_ret

record call =
  cl_key :: string
  cl_host :: string
  cl_local :: bool
  cl_pc :: call_pc

definition tunnel_call :: "string \<Rightarrow> call" where
  "tunnel_call host0 = (let host = normalizeHost host0 in \<lparr>cl_key = host, cl_host = host, cl_local = False, cl_pc = CallCheck\<rparr>)"

definition local_call :: "string \<Rightarrow> call" where
  "local_call host0 = (let host = normalizeHost host0 in \<lparr>cl_key = ''local:'' @ host, cl_host = host, cl_local = True, cl_pc = CallCheck\<rparr>)"

definition flight_check :: "env \<Rightarrow> string \<Rightarrow> string \<Rightarrow> dnsCache \<Rightarrow> call_pc \<times> dnsCache" where
  "flight_check env key host c =
     (case ParseAddr host of
        Some ip \<Rightarrow> (CallDone (\<lparr>r_addrs = [Unmap ip], authoritative = False, r_localDirect = False\<rparr>, None), c)
      | None \<Rightarrow>
          (case map_of (cache c) key of
             None \<Rightarrow> (CallDo, c)
           | Some entry \<Rightarrow>
               (let (now, c) = time_Now env c in
                if now < expires entry then
                  (if neg entry then (CallDone (no_result, Some (NewDNSError host (Some ErrNotFound))), c)
                   else (CallDone (\<lparr>r_addrs = addrs entry, authoritative = True, r_localDirect = localDirect entry\<rparr>, None), c))
                else (CallDo, c))))"

definition flight_begin :: "env \<Rightarrow> string \<Rightarrow> bool \<Rightarrow> dnsCache \<Rightarrow> call_pc \<times> dnsCache" where
  "flight_begin env host loc c =
     (let (t, c) = time_Now env c;
          v = \<lparr>lv_host = host, lv_ctx = t + 5 * time_Second, lv_now = 0, lv_active = [], lv_deadline = 0\<rparr>
      in (CallRun v (if loc then LkLocal else LkNow), c\<lparr>lookups := lookups c + 1\<rparr>))"

definition flight_end :: "env \<Rightarrow> string \<Rightarrow> string \<Rightarrow> lookup_ret \<Rightarrow> dnsCache \<Rightarrow> lookup_ret \<times> dnsCache" where
  "flight_end env key host ret c =
     (case ret of (res, err) \<Rightarrow>
        (case err of
           Some e \<Rightarrow>
             (let c = (if authoritative res \<and> errors_Is e ErrNotFound
                       then (case time_Now env c of (now, c) \<Rightarrow>
                         store env key \<lparr>addrs = [], expires = now + negativeTTL c, neg = True, localDirect = False\<rparr> c)
                       else c)
              in ((no_result, Some (NewDNSError host (Some e))), c))
         | None \<Rightarrow>
             (if r_addrs res = [] then ((no_result, Some (ErrText (''no address for '' @ host))), c)
              else if authoritative res then
                (case time_Now env c of (now, c) \<Rightarrow>
                  ((res, None), store env key \<lparr>addrs = r_addrs res, expires = now + ttl c, neg = False, localDirect = r_localDirect res\<rparr> c))
              else ((res, None), c))))"

definition call_next :: "'g singleflight \<Rightarrow> env \<Rightarrow> nat \<Rightarrow> call \<Rightarrow> dnsCache \<times> 'g \<Rightarrow> call_pc \<times> dnsCache \<times> 'g" where
  "call_next sf env i cl s = (case s of (c, g) \<Rightarrow>
     (case cl_pc cl of
        CallCheck \<Rightarrow> (case flight_check env (cl_key cl) (cl_host cl) c of (pc, c) \<Rightarrow> (pc, c, g))
      | CallDo \<Rightarrow>
          (case sf_Do sf i (cl_key cl) g of (lead, g) \<Rightarrow>
             if lead then (case flight_begin env (cl_host cl) (cl_local cl) c of (pc, c) \<Rightarrow> (pc, c, g))
             else (CallWait, c, g))
      | CallRun v pc \<Rightarrow>
          (case pc of
             LkDone ret \<Rightarrow> (case flight_end env (cl_key cl) (cl_host cl) ret c of (r, c) \<Rightarrow> (CallReturn r, c, g))
           | _ \<Rightarrow> (case lookup_next env (v, pc, c) of (v, pc, c) \<Rightarrow> (CallRun v pc, c, g)))
      | CallReturn r \<Rightarrow> (CallDone r, c, sf_finish sf i (cl_key cl) r g)
      | CallWait \<Rightarrow> (case sf_result sf g i of None \<Rightarrow> (CallWait, c, g) | Some r \<Rightarrow> (CallDone r, c, g))
      | CallDone r \<Rightarrow> (CallDone r, c, g)))"

section \<open>All goroutines\<close>

text \<open>
  The purge goroutine is in its \<open>select\<close> (\<open>dw_purging\<close>) or has returned. \<open>dw_answers\<close> is a history of the finished
  lookups with their keys; the code has no such variable.
\<close>

record 'g dns_world =
  dw_dns :: dnsCache
  dw_sf :: 'g
  dw_calls :: "call list"
  dw_purging :: bool
  dw_answers :: "(string \<times> lookup_ret) list"

datatype purge_event = PurgeCtx | PurgeStopped | PurgeTick

definition purge_select :: "env \<Rightarrow> purge_event \<Rightarrow> dnsCache \<Rightarrow> (bool \<times> dnsCache) option" where
  "purge_select env ev c =
     (case ev of
        PurgeCtx \<Rightarrow> Some (False, stop c)
      | PurgeStopped \<Rightarrow> if dns_done c then Some (False, c) else None
      | PurgeTick \<Rightarrow> Some (True, purge env c))"

definition new_answers :: "call \<Rightarrow> (string \<times> lookup_ret) list" where
  "new_answers cl = (case cl_pc cl of CallReturn r \<Rightarrow> [(cl_key cl, r)] | _ \<Rightarrow> [])"

definition move :: "'g singleflight \<Rightarrow> env \<Rightarrow> nat \<Rightarrow> 'g dns_world \<Rightarrow> 'g dns_world" where
  "move sf env i w =
     (case call_next sf env i (dw_calls w ! i) (dw_dns w, dw_sf w) of (pc, c, g) \<Rightarrow>
        (let cl = (dw_calls w ! i)\<lparr>cl_pc := pc\<rparr>
         in w\<lparr>dw_dns := c, dw_sf := g, dw_calls := (dw_calls w)[i := cl],
              dw_answers := dw_answers w @ new_answers cl\<rparr>))"

inductive dns_step :: "'g singleflight \<Rightarrow> env \<Rightarrow> 'g dns_world \<Rightarrow> 'g dns_world \<Rightarrow> bool"
  for sf :: "'g singleflight" and env :: env where
  arrive: "cl = tunnel_call host \<or> cl = local_call host \<Longrightarrow>
     dns_step sf env w (w\<lparr>dw_calls := dw_calls w @ [cl]\<rparr>)"
| moves: "i < length (dw_calls w) \<Longrightarrow> dns_step sf env w (move sf env i w)"
| purges: "dw_purging w \<Longrightarrow> purge_select env ev (dw_dns w) = Some (p, c) \<Longrightarrow>
     dns_step sf env w (w\<lparr>dw_purging := p, dw_dns := c\<rparr>)"
| stops: "dns_step sf env w (w\<lparr>dw_dns := stop (dw_dns w)\<rparr>)"
| elsewhere: "dns_step sf env w (w\<lparr>dw_dns := (dw_dns w)\<lparr>tick := Suc (tick (dw_dns w))\<rparr>\<rparr>)"

definition start_world :: "'g singleflight \<Rightarrow> dnsCache \<Rightarrow> 'g dns_world" where
  "start_world sf c = \<lparr>dw_dns = c, dw_sf = sf_new sf, dw_calls = [], dw_purging = True, dw_answers = []\<rparr>"

text \<open>The states that runs from \<open>c\<close> reach through states that satisfy \<open>ok\<close>.\<close>

inductive dns_reach :: "'g singleflight \<Rightarrow> env \<Rightarrow> ('g dns_world \<Rightarrow> bool) \<Rightarrow> dnsCache \<Rightarrow> 'g dns_world \<Rightarrow> bool"
  for sf :: "'g singleflight" and env :: env and ok :: "'g dns_world \<Rightarrow> bool" and c :: dnsCache where
  start: "dns_reach sf env ok c (start_world sf c)"
| step: "dns_reach sf env ok c w \<Longrightarrow> ok w \<Longrightarrow> dns_step sf env w w' \<Longrightarrow> dns_reach sf env ok c w'"

section \<open>Specification vocabulary\<close>

text \<open>Runs of one lookup and of one call without interference, and the policy a call looks up with.\<close>

definition leads :: "env \<Rightarrow> lookup_vars \<times> lookup_pc \<times> dnsCache \<Rightarrow> lookup_vars \<times> lookup_pc \<times> dnsCache \<Rightarrow> bool" where
  "leads env s s' \<longleftrightarrow> (\<exists>n. (lookup_next env ^^ n) s = s')"

definition policy :: "call \<Rightarrow> env \<Rightarrow> time \<Rightarrow> string \<Rightarrow> dnsCache \<Rightarrow> lookup_out" where
  "policy cl = (if cl_local cl then local_lookup else lookup)"

definition call_at :: "nat \<Rightarrow> call_pc \<Rightarrow> dnsCache \<Rightarrow> 'g \<Rightarrow> 'g dns_world \<Rightarrow> bool" where
  "call_at i pc c g w \<longleftrightarrow> i < length (dw_calls w) \<and> cl_pc (dw_calls w ! i) = pc \<and> dw_dns w = c \<and> dw_sf w = g"

definition alone :: "'g singleflight \<Rightarrow> env \<Rightarrow> nat \<Rightarrow> 'g dns_world \<Rightarrow> 'g dns_world \<Rightarrow> bool" where
  "alone sf env i w w' \<longleftrightarrow> (\<exists>n. (move sf env i ^^ n) w = w')"

text \<open>Where call \<open>i\<close> is, its key, and whether it executes a lookup.\<close>

definition pc_of :: "'g dns_world \<Rightarrow> nat \<Rightarrow> call_pc" where
  "pc_of w i = cl_pc (dw_calls w ! i)"

definition key_of :: "'g dns_world \<Rightarrow> nat \<Rightarrow> string" where
  "key_of w i = cl_key (dw_calls w ! i)"

fun exec_pc :: "call_pc \<Rightarrow> bool" where
  "exec_pc (CallRun v pc) = True"
| "exec_pc (CallReturn r) = True"
| "exec_pc pc = False"

text \<open>
  A result is fit for the caller: usable addresses, marked as a direct local answer only where \<open>localOnNXDomain\<close> allows it. It is the
  answer to an IP literal, or the result of a finished lookup under the call's own key, or a remembered not-found of one.
\<close>

definition ret_ok :: "bool \<Rightarrow> lookup_ret \<Rightarrow> bool" where
  "ret_ok nx r \<longleftrightarrow> list_all ok_addr (r_addrs (fst r)) \<and> (r_localDirect (fst r) \<longrightarrow> nx)"

definition fin_ok :: "bool \<Rightarrow> lookup_ret \<Rightarrow> bool" where
  "fin_ok nx r \<longleftrightarrow> (snd r = None \<longrightarrow> r_addrs (fst r) \<noteq> [] \<and> ret_ok nx r)"

definition not_found_under :: "string \<Rightarrow> (string \<times> lookup_ret) list \<Rightarrow> bool" where
  "not_found_under key ans \<longleftrightarrow> (\<exists>res e. (key, (res, Some e)) \<in> set ans \<and> errors_Is e ErrNotFound)"

definition answered :: "(string \<times> lookup_ret) list \<Rightarrow> call \<Rightarrow> lookup_ret \<Rightarrow> bool" where
  "answered ans cl r \<longleftrightarrow>
     (\<exists>ip. ParseAddr (cl_host cl) = Some ip \<and> r = (\<lparr>r_addrs = [Unmap ip], authoritative = False, r_localDirect = False\<rparr>, None)) \<or>
     (cl_key cl, r) \<in> set ans \<or>
     r = (no_result, Some (NewDNSError (cl_host cl) (Some ErrNotFound))) \<and> not_found_under (cl_key cl) ans"

text \<open>A resolver was shown a name for one of these calls, and a resolver its policy allows.\<close>

definition asked_by :: "call list \<Rightarrow> event \<Rightarrow> bool" where
  "asked_by cls ev \<longleftrightarrow> (\<exists>cl \<in> set cls. ParseAddr (cl_host cl) = None \<and>
     (if cl_local cl then ask_local (cl_host cl) ev else ask_tunnel (cl_host cl) ev))"

text \<open>All calls are for a name; call \<open>i\<close> holds resolver \<open>u\<close>, claimed at time \<open>since\<close>; no lookup holds a resolver for as long as a pause.\<close>

definition named_calls :: "'g dns_world \<Rightarrow> bool" where
  "named_calls w \<longleftrightarrow> list_all (\<lambda>cl. cl_key cl \<noteq> []) (dw_calls w)"

definition holds :: "'g dns_world \<Rightarrow> nat \<Rightarrow> nat \<Rightarrow> bool" where
  "holds w i u \<longleftrightarrow> i < length (dw_calls w) \<and> (\<exists>v pc. pc_of w i = CallRun v pc \<and> u \<in> set (lk_held v pc))"

definition since :: "'g dns_world \<Rightarrow> nat \<Rightarrow> time" where
  "since w i = (case pc_of w i of CallRun v pc \<Rightarrow> lv_now v | _ \<Rightarrow> 0)"

definition in_time :: "env \<Rightarrow> 'g dns_world \<Rightarrow> bool" where
  "in_time env w \<longleftrightarrow> list_all (\<lambda>cl. case cl_pc cl of
     CallRun v pc \<Rightarrow> lk_held v pc = [] \<or> e_now env (tick (dw_dns w)) < lv_now v + upstreamPause | _ \<Rightarrow> True) (dw_calls w)"

section \<open>Concrete runs\<close>

text \<open>A group as documented, a state with calls that have just arrived, and runs that let the calls of a list move in turn.\<close>

type_synonym sample_group = "(string \<Rightarrow> nat option) \<times> (nat \<Rightarrow> nat option) \<times> (nat \<Rightarrow> lookup_ret option)"

definition sample_sf :: "sample_group singleflight" where
  "sample_sf = \<lparr>
     sf_Do = \<lambda>i k (r, q, s). case r k of None \<Rightarrow> (True, (r(k := Some i), q, s)) | Some j \<Rightarrow> (False, (r, q(i := Some j), s)),
     sf_finish = \<lambda>i k x (r, q, s). (r(k := None), q, \<lambda>j. if q j = Some i then Some x else s j),
     sf_result = \<lambda>(r, q, s). s, sf_running = \<lambda>(r, q, s). r, sf_waiting = \<lambda>(r, q, s). q,
     sf_new = (\<lambda>_. None, \<lambda>_. None, \<lambda>_. None)\<rparr>"

definition arrived :: "'g singleflight \<Rightarrow> dnsCache \<Rightarrow> call list \<Rightarrow> 'g dns_world" where
  "arrived sf c cls = (start_world sf c)\<lparr>dw_calls := cls\<rparr>"

fun schedule :: "'g singleflight \<Rightarrow> env \<Rightarrow> nat list \<Rightarrow> 'g dns_world \<Rightarrow> 'g dns_world" where
  "schedule sf env [] w = w"
| "schedule sf env (i # is) w = schedule sf env is (move sf env i w)"

fun scheduled :: "'g singleflight \<Rightarrow> env \<Rightarrow> ('g dns_world \<Rightarrow> bool) \<Rightarrow> nat list \<Rightarrow> 'g dns_world \<Rightarrow> bool" where
  "scheduled sf env ok [] w = True"
| "scheduled sf env ok (i # is) w = (ok w \<and> i < length (dw_calls w) \<and> scheduled sf env ok is (move sf env i w))"

text \<open>Two spellings of one name at once; a probe after a pause, with a third call behind it. The clock jumps over the pause.\<close>

definition shared_world :: "sample_group dns_world" where
  "shared_world = schedule sample_sf sample_env ([0, 1, 0, 1] @ replicate 10 0 @ [1])
     (arrived sample_sf (sample_cache [''9.9.9.9:53'']) [tunnel_call ''a.example'', tunnel_call ''A.example.''])"

definition probe_env :: env where
  "probe_env = sample_env\<lparr>e_now := \<lambda>n. (if n < 12 then 100 else 200) * time_Second + int n\<rparr>"

definition probe_world :: "sample_group dns_world" where
  "probe_world = schedule sample_sf probe_env (replicate 14 0 @ replicate 4 1 @ replicate 5 2)
     (arrived sample_sf (sample_cache [''1.1.1.1:53'']) [tunnel_call ''a.example'', tunnel_call ''b.example'', tunnel_call ''c.example''])"

section \<open>A call alone\<close>

lemma leads_refl [simp, intro]: "leads env s s"
  unfolding leads_def by (rule exI [of _ 0]) simp

lemma leads_trans [trans]: "leads env s t \<Longrightarrow> leads env t u \<Longrightarrow> leads env s u"
  unfolding leads_def by (metis comp_apply funpow_add)

lemma leads_next: "leads env (lookup_next env s) t \<Longrightarrow> leads env s t"
  unfolding leads_def by (metis comp_apply funpow_Suc_right)

lemma list_update_drop: "i < length us \<Longrightarrow> take i us @ x # drop (Suc i) us = us[i := x]"
  by (simp add: upd_conv_take_nth_drop)

lemma leads_claims:
  assumes "i \<le> length (tunnel c)"
  shows "leads env (v, LkClaim i, c)
    (v\<lparr>lv_active := lv_active v @ filter (\<lambda>j. fst (claim (lv_now v) (tunnel c ! j))) [i..<length (tunnel c)]\<rparr>, LkDeadline,
     c\<lparr>tunnel := take i (tunnel c) @ map (\<lambda>u. snd (claim (lv_now v) u)) (drop i (tunnel c))\<rparr>)"
  using assms
proof (induction "length (tunnel c) - i" arbitrary: i v c)
  case 0
  then show ?case by - (rule leads_next, simp)
next
  case (Suc n)
  then have i: "i < length (tunnel c)" by simp
  let ?p = "claim (lv_now v) (tunnel c ! i)"
  let ?v = "if fst ?p then v\<lparr>lv_active := lv_active v @ [i]\<rparr> else v"
  let ?c = "upd_upstream i (\<lambda>_. snd ?p) c"
  have l: "length (tunnel ?c) = length (tunnel c)" by (simp add: frame_simps)
  have nx: "lookup_next env (v, LkClaim i, c) = (?v, LkClaim (Suc i), ?c)"
    using i by (simp add: lk_claim_def case_prod_beta)
  have f: "filter (\<lambda>j. fst (claim (lv_now v) (tunnel ?c ! j))) [Suc i..<length (tunnel c)]
      = filter (\<lambda>j. fst (claim (lv_now v) (tunnel c ! j))) [Suc i..<length (tunnel c)]"
    by (intro filter_cong) (auto simp: upd_upstream_def)
  have t: "tunnel ?c = (tunnel c)[i := snd ?p]" by (simp add: upd_upstream_def)
  have up: "[i..<length (tunnel c)] = i # [Suc i..<length (tunnel c)]" using i by (rule upt_conv_Cons)
  have d: "drop i (tunnel c) = tunnel c ! i # drop (Suc i) (tunnel c)" using i by (rule Cons_nth_drop_Suc [symmetric])
  have tk: "take (Suc i) ((tunnel c)[i := snd ?p]) = take i (tunnel c) @ [snd ?p]"
    using i by (simp add: take_Suc_conv_app_nth)
  have "leads env (?v, LkClaim (Suc i), ?c)
    (?v\<lparr>lv_active := lv_active ?v @ filter (\<lambda>j. fst (claim (lv_now ?v) (tunnel ?c ! j))) [Suc i..<length (tunnel ?c)]\<rparr>, LkDeadline,
     ?c\<lparr>tunnel := take (Suc i) (tunnel ?c) @ map (\<lambda>u. snd (claim (lv_now ?v) u)) (drop (Suc i) (tunnel ?c))\<rparr>)"
    using Suc.hyps(2) i by (intro Suc.hyps(1)) (simp_all add: l)
  moreover have "lv_now ?v = lv_now v" by simp
  moreover have "lv_active ?v @ filter (\<lambda>j. fst (claim (lv_now v) (tunnel c ! j))) [Suc i..<length (tunnel c)]
      = lv_active v @ filter (\<lambda>j. fst (claim (lv_now v) (tunnel c ! j))) [i..<length (tunnel c)]"
    by (simp add: up)
  moreover have "?v\<lparr>lv_active := a\<rparr> = v\<lparr>lv_active := a\<rparr>" for a by simp
  moreover have "?c\<lparr>tunnel := us\<rparr> = c\<lparr>tunnel := us\<rparr>" for us by (simp add: upd_upstream_def)
  moreover have "take (Suc i) (tunnel ?c) @ map (\<lambda>u. snd (claim (lv_now v) u)) (drop (Suc i) (tunnel ?c))
      = take i (tunnel c) @ map (\<lambda>u. snd (claim (lv_now v) u)) (drop i (tunnel c))"
    by (simp add: t tk d)
  ultimately show ?case by - (rule leads_next, simp only: nx l f)
qed

lemma leads_release: "leads env (v, LkRelease r out, c) (v, LkDone out, c\<lparr>tunnel := releaseProbes r (tunnel c)\<rparr>)"
proof (induction r arbitrary: c)
  case Nil
  show ?case by (rule leads_next) simp
next
  case (Cons i r)
  from Cons.IH [of "upd_upstream i (\<lambda>u. u\<lparr>probing := False\<rparr>) c"]
  show ?case by - (rule leads_next, simp add: upd_upstream_def)
qed

lemma leads_ask:
  "leads env (v, LkAsk act, c) (v, LkRelease (lv_active v) (fst (lookup_loop env (lv_deadline v) (lv_host v) act c)),
     snd (lookup_loop env (lv_deadline v) (lv_host v) act c))"
proof (induction act arbitrary: c)
  case Nil
  show ?case by (rule leads_next, rule leads_next) (simp add: lk_return_def)
next
  case (Cons i act)
  obtain r c' rtt where a: "lk_ask env i act v c = (LkNote i act r rtt, c')"
    by (simp add: lk_ask_def case_prod_beta time_Now_def Let_def)
  have eq: "lookup_loop env (lv_deadline v) (lv_host v) (i # act) c =
      (case r of Inr as \<Rightarrow> ((\<lparr>r_addrs = as, authoritative = True, r_localDirect = False\<rparr>, None), upstreamAnswered env i rtt c')
         | Inl e \<Rightarrow> if errors_Is e ErrNotFound then notFound env (lv_host v) (upstreamAnswered env i rtt c')
             else lookup_loop env (lv_deadline v) (lv_host v) act (upstreamFailed env i e c'))"
    using a by (simp add: lk_ask_def lookup_loop_Cons time_Now_def case_prod_beta Let_def) blast
  have "leads env (v, LkNote i act r rtt, c') (v, LkRelease (lv_active v) (fst (lookup_loop env (lv_deadline v) (lv_host v) (i # act) c)),
     snd (lookup_loop env (lv_deadline v) (lv_host v) (i # act) c))"
  proof (cases r)
    case (Inr as)
    then show ?thesis by - (rule leads_next, simp add: eq lk_note_def)
  next
    case (Inl e)
    show ?thesis
    proof (cases "errors_Is e ErrNotFound")
      case True
      with Inl show ?thesis by - (rule leads_next, rule leads_next, simp add: eq lk_note_def lk_return_def)
    next
      case False
      with Inl Cons.IH [of "upstreamFailed env i e c'"] show ?thesis by - (rule leads_next, simp add: eq lk_note_def)
    qed
  qed
  then show ?case by - (rule leads_next, simp add: a)
qed

lemma leads_lookup:
  "\<exists>v'. leads env (v, LkNow, c) (v', LkDone (fst (lookup env (lv_ctx v) (lv_host v) c)), snd (lookup env (lv_ctx v) (lv_host v) c))"
proof -
  define now where "now = e_now env (tick c)"
  define v1 where "v1 = v\<lparr>lv_now := now, lv_active := claimed now (tunnel c)\<rparr>"
  define c1 where "c1 = c\<lparr>tick := Suc (tick c), tunnel := map (\<lambda>u. snd (claim now u)) (tunnel c)\<rparr>"
  define v2 where "v2 = v1\<lparr>lv_deadline := min (lv_ctx v) (e_now env (Suc (tick c)) + tunnelLookupTimeout)\<rparr>"
  define c2 where "c2 = c1\<lparr>tick := Suc (Suc (tick c))\<rparr>"
  define p where "p = lookup_loop env (lv_deadline v2) (lv_host v2) (lv_active v2) c2"
  have "leads env (v, LkNow, c) (v1, LkDeadline, c1)"
    using leads_claims [of 0 "c\<lparr>tick := Suc (tick c)\<rparr>" env "v\<lparr>lv_now := now, lv_active := []\<rparr>"]
    by - (rule leads_next, simp add: time_Now_def now_def v1_def c1_def claimed_def)
  also have "leads env \<dots> (v2, LkAsk (lv_active v2), c2)"
    by - (rule leads_next, simp add: time_Now_def v1_def c1_def v2_def c2_def)
  also have "leads env \<dots> (v2, LkRelease (lv_active v2) (fst p), snd p)"
    unfolding p_def by (rule leads_ask)
  also have "leads env \<dots> (v2, LkDone (fst p), (snd p)\<lparr>tunnel := releaseProbes (lv_active v2) (tunnel (snd p))\<rparr>)"
    by (rule leads_release)
  finally show ?thesis
    by (intro exI [of _ v2]) (simp add: lookup_unfold Let_def p_def v2_def v1_def c2_def c1_def now_def)
qed

lemma lookup_and_store_flight:
  "lookup_and_store env key host lk c =
     (let q = lk (e_now env (tick c) + 5 * time_Second) host (c\<lparr>tick := Suc (tick c), lookups := lookups c + 1\<rparr>)
      in flight_end env key host (fst q) (snd q))"
  by (simp add: lookup_and_store_def flight_end_def time_Now_def case_prod_beta Let_def split: option.split)

lemma alone_next: "alone sf env i (move sf env i w) w' \<Longrightarrow> alone sf env i w w'"
  unfolding alone_def by (metis comp_apply funpow_Suc_right)

lemma alone_trans: "alone sf env i w w' \<Longrightarrow> alone sf env i w' w'' \<Longrightarrow> alone sf env i w w''"
  unfolding alone_def by (metis comp_apply funpow_add)

lemma alone_refl [simp]: "alone sf env i w w"
  unfolding alone_def by (rule exI [of _ 0]) simp

lemma call_next_pc:
  "cl_pc cl = CallCheck \<Longrightarrow> call_next sf env i cl (c, g) =
     (fst (flight_check env (cl_key cl) (cl_host cl) c), snd (flight_check env (cl_key cl) (cl_host cl) c), g)"
  "cl_pc cl = CallDo \<Longrightarrow> call_next sf env i cl (c, g) =
     (if fst (sf_Do sf i (cl_key cl) g)
      then (fst (flight_begin env (cl_host cl) (cl_local cl) c), snd (flight_begin env (cl_host cl) (cl_local cl) c), snd (sf_Do sf i (cl_key cl) g))
      else (CallWait, c, snd (sf_Do sf i (cl_key cl) g)))"
  "cl_pc cl = CallRun v (LkDone ret) \<Longrightarrow> call_next sf env i cl (c, g) =
     (CallReturn (fst (flight_end env (cl_key cl) (cl_host cl) ret c)), snd (flight_end env (cl_key cl) (cl_host cl) ret c), g)"
  "cl_pc cl = CallReturn r \<Longrightarrow> call_next sf env i cl (c, g) = (CallDone r, c, sf_finish sf i (cl_key cl) r g)"
  "cl_pc cl = CallWait \<Longrightarrow> call_next sf env i cl (c, g) =
     (case sf_result sf g i of None \<Rightarrow> (CallWait, c, g) | Some r \<Rightarrow> (CallDone r, c, g))"
  "cl_pc cl = CallDone r \<Longrightarrow> call_next sf env i cl (c, g) = (CallDone r, c, g)"
  by (simp_all add: call_next_def case_prod_beta split: option.split)

lemma call_next_run:
  assumes "cl_pc cl = CallRun v pc" and "\<And>r. pc \<noteq> LkDone r" and "lookup_next env (v, pc, c) = (v', pc', c')"
  shows "call_next sf env i cl (c, g) = (CallRun v' pc', c', g)"
  using assms(1,3) assms(2) by (cases pc) (simp_all only: call_next_def prod.case call_pc.case lookup_pc.case, blast)

lemma call_next_runs:
  assumes "cl_pc cl = CallRun v p"
  shows "\<exists>q c'. call_next sf env i cl (c, g) = (q, c', g) \<and> ((\<exists>v' p'. q = CallRun v' p') \<or> (\<exists>r. q = CallReturn r))"
proof (cases "\<exists>x. p = LkDone x")
  case True
  with assms show ?thesis by (auto simp: call_next_pc)
next
  case False
  obtain v' p' d where "lookup_next env (v, p, c) = (v', p', d)" by (metis prod_cases3)
  then have "call_next sf env i cl (c, g) = (CallRun v' p', d, g)" using assms False by (intro call_next_run) auto
  then show ?thesis by simp
qed

lemma move_call [simp]:
  "i < length (dw_calls w) \<Longrightarrow> cl_key (dw_calls (move sf env i w) ! i) = cl_key (dw_calls w ! i)"
  "i < length (dw_calls w) \<Longrightarrow> cl_host (dw_calls (move sf env i w) ! i) = cl_host (dw_calls w ! i)"
  "i < length (dw_calls w) \<Longrightarrow> cl_local (dw_calls (move sf env i w) ! i) = cl_local (dw_calls w ! i)"
  "length (dw_calls (move sf env i w)) = length (dw_calls w)"
  "j \<noteq> i \<Longrightarrow> dw_calls (move sf env i w) ! j = dw_calls w ! j"
  by (simp_all add: move_def case_prod_beta Let_def)

lemma alone_call:
  assumes "alone sf env i w w'" and "i < length (dw_calls w)"
  shows "cl_key (dw_calls w' ! i) = cl_key (dw_calls w ! i) \<and> cl_host (dw_calls w' ! i) = cl_host (dw_calls w ! i) \<and>
    cl_local (dw_calls w' ! i) = cl_local (dw_calls w ! i)"
proof -
  obtain n where "(move sf env i ^^ n) w = w'" using assms(1) by (auto simp: alone_def)
  moreover have "cl_key (dw_calls ((move sf env i ^^ n) w) ! i) = cl_key (dw_calls w ! i) \<and>
      cl_host (dw_calls ((move sf env i ^^ n) w) ! i) = cl_host (dw_calls w ! i) \<and>
      cl_local (dw_calls ((move sf env i ^^ n) w) ! i) = cl_local (dw_calls w ! i) \<and> i < length (dw_calls ((move sf env i ^^ n) w))"
    using assms(2) by (induction n) simp_all
  ultimately show ?thesis by blast
qed

lemma call_at_move:
  assumes "call_at i pc c g w" and "call_next sf env i (dw_calls w ! i) (c, g) = (pc', c', g')"
  shows "call_at i pc' c' g' (move sf env i w)"
  using assms by (auto simp: call_at_def move_def Let_def)

lemma alone_lookup:
  assumes "(lookup_next env ^^ n) (v, pc, c) = (v', LkDone ret, c')" and "call_at i (CallRun v pc) c g w"
  shows "\<exists>w'. alone sf env i w w' \<and> call_at i (CallRun v' (LkDone ret)) c' g w'"
  using assms
proof (induction n arbitrary: v pc c w)
  case 0
  then show ?case by (intro exI [of _ w]) simp
next
  case (Suc n)
  obtain v1 pc1 c1 where s: "lookup_next env (v, pc, c) = (v1, pc1, c1)" by (metis prod_cases3)
  from Suc.prems(1) s have r: "(lookup_next env ^^ n) (v1, pc1, c1) = (v', LkDone ret, c')"
    by (simp only: funpow_Suc_right comp_apply)
  show ?case
  proof (cases "\<exists>x. pc = LkDone x")
    case True
    with s r Suc.prems(2) Suc.IH show ?thesis by auto
  next
    case False
    have "call_next sf env i (dw_calls w ! i) (c, g) = (CallRun v1 pc1, c1, g)"
      using Suc.prems(2) s False by (intro call_next_run) (auto simp: call_at_def)
    from call_at_move [OF Suc.prems(2) this] have "call_at i (CallRun v1 pc1) c1 g (move sf env i w)" .
    from Suc.IH [OF r this] show ?thesis using alone_next by blast
  qed
qed

lemma alone_miss:
  assumes doc: "singleflight_doc sf" and idle: "sf_running sf g (cl_key (dw_calls w ! i)) = None"
    and st: "call_at i CallDo c g w"
  shows "\<exists>w'. alone sf env i w w' \<and>
    call_at i (CallDone (fst (lookup_and_store env (cl_key (dw_calls w ! i)) (cl_host (dw_calls w ! i)) (policy (dw_calls w ! i) env) c)))
      (snd (lookup_and_store env (cl_key (dw_calls w ! i)) (cl_host (dw_calls w ! i)) (policy (dw_calls w ! i) env) c)) (dw_sf w') w' \<and>
    sf_running sf (dw_sf w') = sf_running sf g"
proof -
  let ?cl = "dw_calls w ! i"
  let ?k = "cl_key ?cl" and ?h = "cl_host ?cl" and ?g = "snd (sf_Do sf i (cl_key ?cl) g)"
  define v where "v = \<lparr>lv_host = ?h, lv_ctx = e_now env (tick c) + 5 * time_Second, lv_now = 0, lv_active = [], lv_deadline = 0\<rparr>"
  define c1 where "c1 = c\<lparr>tick := Suc (tick c), lookups := lookups c + 1\<rparr>"
  define q where "q = policy ?cl env (lv_ctx v) ?h c1"
  define e where "e = flight_end env ?k ?h (fst q) (snd q)"
  have i: "i < length (dw_calls w)" using st by (simp add: call_at_def)
  have lead: "fst (sf_Do sf i ?k g)" "sf_running sf ?g = (sf_running sf g)(?k \<mapsto> i)"
    using doc idle unfolding singleflight_doc_def by blast+
  have "call_next sf env i ?cl (c, g) = (CallRun v (if cl_local ?cl then LkLocal else LkNow), c1, ?g)"
    using st lead(1) by (simp add: call_at_def call_next_pc flight_begin_def time_Now_def case_prod_beta v_def c1_def Let_def)
  from call_at_move [OF st this] have w1: "call_at i (CallRun v (if cl_local ?cl then LkLocal else LkNow)) c1 ?g (move sf env i w)" .
  have "\<exists>v' n. (lookup_next env ^^ n) (v, if cl_local ?cl then LkLocal else LkNow, c1) = (v', LkDone (fst q), snd q)"
  proof (cases "cl_local ?cl")
    case True
    then show ?thesis
      by (intro exI [of _ v] exI [of _ "Suc 0"]) (simp add: q_def policy_def v_def case_prod_beta)
  next
    case False
    then show ?thesis using leads_lookup [of env v c1] by (auto simp: leads_def q_def policy_def v_def)
  qed
  then obtain v' n where "(lookup_next env ^^ n) (v, if cl_local ?cl then LkLocal else LkNow, c1) = (v', LkDone (fst q), snd q)" by blast
  from alone_lookup [OF this w1] obtain w2 where w2: "alone sf env i (move sf env i w) w2" "call_at i (CallRun v' (LkDone (fst q))) (snd q) ?g w2"
    by blast
  from alone_next [OF w2(1)] have a2: "alone sf env i w w2" .
  note same = alone_call [OF a2 i]
  have "call_next sf env i (dw_calls w2 ! i) (snd q, ?g) = (CallReturn (fst e), snd e, ?g)"
    using w2(2) same by (simp add: call_at_def e_def call_next_pc)
  from call_at_move [OF w2(2) this] have w3: "call_at i (CallReturn (fst e)) (snd e) ?g (move sf env i w2)" .
  let ?w3 = "move sf env i w2"
  have i2: "i < length (dw_calls w2)" using w2(2) by (simp add: call_at_def)
  have "call_next sf env i (dw_calls ?w3 ! i) (snd e, ?g) = (CallDone (fst e), snd e, sf_finish sf i ?k (fst e) ?g)"
    using w3 same i2 by (simp add: call_at_def call_next_pc)
  from call_at_move [OF w3 this] have w4: "call_at i (CallDone (fst e)) (snd e) (sf_finish sf i ?k (fst e) ?g) (move sf env i ?w3)" .
  have a4: "alone sf env i w (move sf env i ?w3)"
    using a2 alone_trans alone_next alone_refl by metis
  have "sf_running sf ?g ?k = Some i" using lead(2) by simp
  then have fin: "sf_running sf (sf_finish sf i ?k (fst e) ?g) = (sf_running sf ?g)(?k := None)"
    using doc unfolding singleflight_doc_def by blast
  have free: "sf_running sf (sf_finish sf i ?k (fst e) ?g) = sf_running sf g"
    unfolding fin lead(2) using idle by auto
  have "e = lookup_and_store env ?k ?h (policy ?cl env) c"
    by (simp add: e_def lookup_and_store_flight q_def v_def c1_def Let_def)
  with a4 w4 free show ?thesis by (intro exI [of _ "move sf env i ?w3"]) (simp add: call_at_def)
qed

lemma alone_cached:
  assumes doc: "singleflight_doc sf" and idle: "sf_running sf g (cl_key (dw_calls w ! i)) = None"
    and st: "call_at i CallCheck c g w"
  shows "\<exists>w'. alone sf env i w w' \<and>
    call_at i (CallDone (fst (cachedLookup env (cl_key (dw_calls w ! i)) (cl_host (dw_calls w ! i)) (policy (dw_calls w ! i) env) c)))
      (snd (cachedLookup env (cl_key (dw_calls w ! i)) (cl_host (dw_calls w ! i)) (policy (dw_calls w ! i) env) c)) (dw_sf w') w' \<and>
    sf_running sf (dw_sf w') = sf_running sf g"
proof -
  let ?cl = "dw_calls w ! i"
  let ?q = "cachedLookup env (cl_key ?cl) (cl_host ?cl) (policy ?cl env) c"
  let ?f = "flight_check env (cl_key ?cl) (cl_host ?cl) c"
  have i: "i < length (dw_calls w)" using st by (simp add: call_at_def)
  have "call_next sf env i ?cl (c, g) = (fst ?f, snd ?f, g)" using st by (simp add: call_at_def call_next_pc)
  from call_at_move [OF st this] have w1: "call_at i (fst ?f) (snd ?f) g (move sf env i w)" .
  have cases: "(fst ?f = CallDone (fst ?q) \<and> snd ?f = snd ?q) \<or>
      (fst ?f = CallDo \<and> ?q = lookup_and_store env (cl_key ?cl) (cl_host ?cl) (policy ?cl env) (snd ?f))"
    by (auto simp: flight_check_def cachedLookup_def time_Now_def Let_def split: option.split)
  then show ?thesis
  proof (elim disjE conjE)
    assume "fst ?f = CallDone (fst ?q)" and "snd ?f = snd ?q"
    then show ?thesis using w1 by (intro exI [of _ "move sf env i w"]) (auto simp: call_at_def intro: alone_next)
  next
    assume d: "fst ?f = CallDo" and q: "?q = lookup_and_store env (cl_key ?cl) (cl_host ?cl) (policy ?cl env) (snd ?f)"
    have p: "policy (dw_calls (move sf env i w) ! i) = policy ?cl" using i by (simp add: policy_def)
    from w1 d have "call_at i CallDo (snd ?f) g (move sf env i w)" by simp
    from alone_miss [OF doc _ this, of env] idle i p q show ?thesis using alone_next by fastforce
  qed
qed

lemma sample_sf_doc: "singleflight_doc sample_sf"
  by (simp add: singleflight_doc_def sample_sf_def)



end
