(* ===== verification/DnsFlightFacts.thy ===== *)
theory DnsFlightFacts
  imports DnsFlight
begin

text \<open>
  What holds over all interleavings of resolving calls, shared lookups and the purge goroutine of \<open>dns.go\<close>: the invariant of the shared
  lookups and of what calls return, and the invariant of the probes.
\<close>

section \<open>Invariants\<close>

text \<open>What a lookup in progress has learnt so far; how a duplicate call stands to the execution it joined.\<close>

fun lk_ok :: "bool \<Rightarrow> bool \<Rightarrow> lookup_pc \<Rightarrow> bool" where
  "lk_ok loc nx LkLocal = loc"
| "lk_ok loc nx (LkDone r) = ret_ok nx r"
| "lk_ok loc nx (LkRelease rest r) = (\<not> loc \<and> ret_ok nx r)"
| "lk_ok loc nx (LkNote i rest r rtt) = (\<not> loc \<and> (\<forall>as. r = Inr as \<longrightarrow> list_all ok_addr as))"
| "lk_ok loc nx pc = (\<not> loc)"

definition joined :: "lookup_ret option \<Rightarrow> call_pc \<Rightarrow> call_pc \<Rightarrow> bool" where
  "joined res p q \<longleftrightarrow> (p = CallWait \<and> exec_pc q \<and> res = None) \<or>
     (\<exists>r. q = CallDone r \<and> (p = CallWait \<and> res = Some r \<or> p = CallDone r))"

text \<open>The group agrees with the calls.\<close>

definition sf_inv :: "'g singleflight \<Rightarrow> 'g dns_world \<Rightarrow> bool" where
  "sf_inv sf w \<longleftrightarrow>
     (\<forall>k j. sf_running sf (dw_sf w) k = Some j \<longleftrightarrow> j < length (dw_calls w) \<and> exec_pc (pc_of w j) \<and> key_of w j = k) \<and>
     (\<forall>i j. sf_waiting sf (dw_sf w) i = Some j \<longrightarrow> i < length (dw_calls w) \<and> j < length (dw_calls w) \<and>
        key_of w i = key_of w j \<and> joined (sf_result sf (dw_sf w) i) (pc_of w i) (pc_of w j)) \<and>
     (\<forall>i < length (dw_calls w). pc_of w i = CallWait \<longrightarrow> sf_waiting sf (dw_sf w) i \<noteq> None)"

text \<open>The cache and every call hold answers that finished lookups gave under the same key.\<close>

fun call_ok :: "bool \<Rightarrow> (string \<times> lookup_ret) list \<Rightarrow> call \<Rightarrow> call_pc \<Rightarrow> bool" where
  "call_ok nx ans cl CallCheck = True"
| "call_ok nx ans cl CallDo = (ParseAddr (cl_host cl) = None)"
| "call_ok nx ans cl (CallRun v pc) = (ParseAddr (cl_host cl) = None \<and> lv_host v = cl_host cl \<and> lk_ok (cl_local cl) nx pc)"
| "call_ok nx ans cl (CallReturn r) = (fin_ok nx r \<and> (cl_key cl, r) \<in> set ans)"
| "call_ok nx ans cl CallWait = (ParseAddr (cl_host cl) = None)"
| "call_ok nx ans cl (CallDone r) = (fin_ok nx r \<and> answered ans cl r)"

definition entry_from :: "(string \<times> lookup_ret) list \<Rightarrow> string \<times> cacheEntry \<Rightarrow> bool" where
  "entry_from ans kv \<longleftrightarrow>
     (if neg (snd kv) then not_found_under (fst kv) ans
      else (fst kv, (\<lparr>r_addrs = addrs (snd kv), authoritative = True, r_localDirect = localDirect (snd kv)\<rparr>, None)) \<in> set ans)"

definition data_inv :: "'g singleflight \<Rightarrow> dnsCache \<Rightarrow> 'g dns_world \<Rightarrow> bool" where
  "data_inv sf c0 w \<longleftrightarrow>
     dns_inv (dw_dns w) \<and> localOnNXDomain (dw_dns w) = localOnNXDomain c0 \<and>
     list_all (entry_from (dw_answers w)) (cache (dw_dns w)) \<and>
     list_all (\<lambda>cl. call_ok (localOnNXDomain c0) (dw_answers w) cl (cl_pc cl)) (dw_calls w) \<and>
     asks (asked_by (dw_calls w)) c0 (dw_dns w) \<and>
     (\<forall>i r. sf_result sf (dw_sf w) i = Some r \<longrightarrow>
        sf_waiting sf (dw_sf w) i \<noteq> None \<and> fin_ok (localOnNXDomain c0) r \<and> (key_of w i, r) \<in> set (dw_answers w))"

section \<open>Lookups in progress\<close>

lemma local_lookup_asks: "asks (ask_local host) c (snd (local_lookup env dl host c))"
  by (auto simp: local_lookup_def asks_def frame_simps ask_local_def lookupLocal_def note_event_def Let_def split: sum.split)

lemma lk_ask_frame:
  assumes "lk_ask env i rest v c = (pc, c')"
  shows "cache c' = cache c \<and> localOnNXDomain c' = localOnNXDomain c \<and> asks (ask_tunnel (lv_host v)) c c' \<and>
    (\<exists>r rtt. pc = LkNote i rest r rtt \<and> (\<forall>as. r = Inr as \<longrightarrow> list_all ok_addr as))"
proof -
  define t where "t = quot (time_Sub (lv_deadline v) (e_now env (tick c))) (1 + int (length rest))"
  define p where "p = call_upstream env i (lv_host v) t (c\<lparr>tick := Suc (Suc (tick c))\<rparr>)"
  have eq: "pc = LkNote i rest (fst p) (time_Sub (e_now env (tick (snd p))) (e_now env (Suc (tick c))))"
      "c' = (snd p)\<lparr>tick := Suc (tick (snd p))\<rparr>"
    using assms by (auto simp: lk_ask_def time_Now_def case_prod_beta Let_def p_def t_def)
  note fr = call_upstream_then_tick [where c = c and env = env and i = i and host = "lv_host v" and t = t
      and m = "Suc (Suc (tick c))" and n = "Suc (tick (snd p))", folded p_def, folded eq(2)]
  have "\<forall>as. fst p = Inr as \<longrightarrow> list_all ok_addr as" using call_upstream_ok p_def by blast
  then show ?thesis using fr eq(1) by (auto simp: asks_def ask_tunnel_def)
qed

lemma lookup_next_frame:
  assumes "lookup_next env (v, pc, c) = (v', pc', c')" and "lk_ok loc (localOnNXDomain c) pc"
  shows "cache c' = cache c \<and> localOnNXDomain c' = localOnNXDomain c \<and> lk_ok loc (localOnNXDomain c) pc' \<and> lv_host v' = lv_host v \<and>
    asks (if loc then ask_local (lv_host v) else ask_tunnel (lv_host v)) c c'"
proof (cases pc)
  case LkNow
  with assms show ?thesis by (auto simp: time_Now_def asks_def)
next
  case (LkClaim i)
  with assms show ?thesis
    by (auto simp: lk_claim_def case_prod_beta frame_simps asks_def split: if_splits)
next
  case LkDeadline
  with assms show ?thesis by (auto simp: time_Now_def asks_def)
next
  case (LkAsk act)
  show ?thesis
  proof (cases act)
    case Nil
    with LkAsk assms show ?thesis by (auto simp: asks_def)
  next
    case (Cons i rest)
    with LkAsk assms have a: "lk_ask env i rest v c = (pc', c')" and v: "v' = v" "\<not> loc" by auto
    from lk_ask_frame [OF a] v show ?thesis by auto
  qed
next
  case (LkNote i rest r rtt)
  with assms show ?thesis
    by (auto simp: lk_note_def frame_simps asks_def ret_ok_def split: sum.splits if_splits)
next
  case LkNotFound
  with assms show ?thesis
    using notFound_ok [of env "lv_host v" c] notFound_direct [of env "lv_host v" c] notFound_frame(5) [where env = env and host = "lv_host v" and c = c]
    by (auto simp: lk_return_def frame_simps asks_def ret_ok_def ask_tunnel_def same_config_def)
next
  case LkFallback
  with assms show ?thesis
    using lookup_fallback_ok [of env "lv_host v" c] lookup_fallback_direct [of env "lv_host v" c]
      lookup_fallback_frame(5) [where env = env and host = "lv_host v" and c = c]
    by (auto simp: lk_return_def frame_simps asks_def ret_ok_def ask_tunnel_def same_config_def)
next
  case LkLocal
  with assms show ?thesis
    using local_lookup_ok [of env "lv_ctx v" "lv_host v" c] local_lookup_direct [of env "lv_ctx v" "lv_host v" c]
      local_lookup_asks [of "lv_host v" c env "lv_ctx v"] local_lookup_frame [where env = env and dl = "lv_ctx v" and host = "lv_host v" and c = c]
    by (auto simp: case_prod_beta ret_ok_def same_config_def)
next
  case (LkRelease act out)
  with assms show ?thesis by (cases act) (auto simp: frame_simps asks_def)
next
  case (LkDone out)
  with assms show ?thesis by (auto simp: asks_def)
qed

lemma pc_of_move:
  assumes "i < length (dw_calls w)" and "call_next sf env i (dw_calls w ! i) (dw_dns w, dw_sf w) = (pc, c, g)"
  shows "pc_of (move sf env i w) j = (if j = i then pc else pc_of w j)" "key_of (move sf env i w) j = key_of w j"
    "dw_sf (move sf env i w) = g" "dw_dns (move sf env i w) = c" "length (dw_calls (move sf env i w)) = length (dw_calls w)"
  using assms by (cases "j = i"; simp add: pc_of_def key_of_def move_def Let_def)+

lemma sf_doc:
  assumes "singleflight_doc sf"
  shows sf_lead: "sf_running sf g k = None \<Longrightarrow> fst (sf_Do sf i k g) \<and> sf_running sf (snd (sf_Do sf i k g)) = (sf_running sf g)(k \<mapsto> i) \<and>
        sf_waiting sf (snd (sf_Do sf i k g)) = sf_waiting sf g \<and> sf_result sf (snd (sf_Do sf i k g)) = sf_result sf g"
    and sf_join: "sf_running sf g k = Some j \<Longrightarrow> \<not> fst (sf_Do sf i k g) \<and> sf_running sf (snd (sf_Do sf i k g)) = sf_running sf g \<and>
        sf_waiting sf (snd (sf_Do sf i k g)) = (sf_waiting sf g)(i \<mapsto> j) \<and> sf_result sf (snd (sf_Do sf i k g)) = sf_result sf g"
    and sf_end: "sf_running sf g k = Some i \<Longrightarrow> sf_running sf (sf_finish sf i k r g) = (sf_running sf g)(k := None) \<and>
        sf_waiting sf (sf_finish sf i k r g) = sf_waiting sf g \<and>
        (\<forall>j. sf_result sf (sf_finish sf i k r g) j = (if sf_waiting sf g j = Some i then Some r else sf_result sf g j))"
    and sf_start: "sf_running sf (sf_new sf) = Map.empty" "sf_waiting sf (sf_new sf) = Map.empty" "sf_result sf (sf_new sf) = Map.empty"
  using assms unfolding singleflight_doc_def by blast+

lemma sf_invI:
  assumes "\<And>k j. sf_running sf (dw_sf w) k = Some j \<longleftrightarrow> j < length (dw_calls w) \<and> exec_pc (pc_of w j) \<and> key_of w j = k"
    and "\<And>i j. sf_waiting sf (dw_sf w) i = Some j \<Longrightarrow> i < length (dw_calls w) \<and> j < length (dw_calls w) \<and>
        key_of w i = key_of w j \<and> joined (sf_result sf (dw_sf w) i) (pc_of w i) (pc_of w j)"
    and "\<And>i. i < length (dw_calls w) \<Longrightarrow> pc_of w i = CallWait \<Longrightarrow> sf_waiting sf (dw_sf w) i \<noteq> None"
  shows "sf_inv sf w"
  using assms unfolding sf_inv_def by blast

lemma sf_invD:
  assumes "sf_inv sf w"
  shows sf_runs: "sf_running sf (dw_sf w) k = Some j \<longleftrightarrow> j < length (dw_calls w) \<and> exec_pc (pc_of w j) \<and> key_of w j = k"
    and sf_waits: "sf_waiting sf (dw_sf w) i = Some j \<Longrightarrow> i < length (dw_calls w) \<and> j < length (dw_calls w) \<and>
        key_of w i = key_of w j \<and> joined (sf_result sf (dw_sf w) i) (pc_of w i) (pc_of w j)"
    and sf_waitD: "i < length (dw_calls w) \<Longrightarrow> pc_of w i = CallWait \<Longrightarrow> sf_waiting sf (dw_sf w) i \<noteq> None"
  using assms unfolding sf_inv_def by blast+

lemma joined_pc [simp]:
  "\<not> joined res CallDo q" "\<not> joined res p CallDo" "\<not> joined res CallCheck q" "\<not> joined res p CallCheck" "\<not> joined res p CallWait"
  "exec_pc p \<Longrightarrow> \<not> joined res p q" "exec_pc q \<Longrightarrow> joined res p q \<longleftrightarrow> p = CallWait \<and> res = None"
  by (auto simp: joined_def)

text \<open>The three conditions after a move of call \<open>i\<close>, over the state before it.\<close>

lemma sf_inv_moveI:
  assumes i: "i < length (dw_calls w)" and nx: "call_next sf env i (dw_calls w ! i) (dw_dns w, dw_sf w) = (pc, c, g)"
    and "\<And>k j. sf_running sf g k = Some j \<longleftrightarrow> j < length (dw_calls w) \<and> exec_pc (if j = i then pc else pc_of w j) \<and> key_of w j = k"
    and "\<And>a j. sf_waiting sf g a = Some j \<Longrightarrow> a < length (dw_calls w) \<and> j < length (dw_calls w) \<and> key_of w a = key_of w j \<and>
       joined (sf_result sf g a) (if a = i then pc else pc_of w a) (if j = i then pc else pc_of w j)"
    and "\<And>a. a < length (dw_calls w) \<Longrightarrow> (if a = i then pc else pc_of w a) = CallWait \<Longrightarrow> sf_waiting sf g a \<noteq> None"
  shows "sf_inv sf (move sf env i w)"
  unfolding sf_inv_def pc_of_move [OF i nx] using assms(3-5) by blast

lemma sf_inv_keep:
  assumes inv: "sf_inv sf w" and i: "i < length (dw_calls w)"
    and nx: "call_next sf env i (dw_calls w ! i) (dw_dns w, dw_sf w) = (pc, c, dw_sf w)"
    and ex: "exec_pc pc = exec_pc (pc_of w i)" "exec_pc (pc_of w i) \<or> pc_of w i = CallCheck" "pc \<noteq> CallWait"
  shows "sf_inv sf (move sf env i w)"
proof (rule sf_inv_moveI [OF i nx], goal_cases)
  case (1 k j)
  show ?case using sf_runs [OF inv, of k j] ex(1) by simp
next
  case (2 a j)
  then show ?case using sf_waits [OF inv, of a j] ex by (cases "a = i"; cases "j = i") auto
next
  case (3 a)
  then show ?case using sf_waitD [OF inv, of a] ex by (cases "a = i") auto
qed

lemma sf_inv_lead:
  assumes doc: "singleflight_doc sf" and inv: "sf_inv sf w" and i: "i < length (dw_calls w)" and pc: "pc_of w i = CallDo"
    and free: "sf_running sf (dw_sf w) (key_of w i) = None"
    and nx: "call_next sf env i (dw_calls w ! i) (dw_dns w, dw_sf w) = (pc', c, snd (sf_Do sf i (key_of w i) (dw_sf w)))" and ex: "exec_pc pc'"
  shows "sf_inv sf (move sf env i w)"
proof (rule sf_inv_moveI [OF i nx], goal_cases)
  note d = sf_lead [OF doc free, of i]
  case (1 k j)
  show ?case using sf_runs [OF inv, of k j] sf_runs [OF inv, of "key_of w i" j] ex d free i
    by (cases "j = i"; cases "k = key_of w i") (auto simp: pc)
next
  note d = sf_lead [OF doc free, of i]
  case (2 a j)
  then show ?case using sf_waits [OF inv, of a j] d pc by (cases "a = i"; cases "j = i") auto
next
  note d = sf_lead [OF doc free, of i]
  case (3 a)
  then show ?case using sf_waitD [OF inv, of a] d ex by (cases "a = i") auto
qed

lemma sf_inv_join:
  assumes doc: "singleflight_doc sf" and inv: "sf_inv sf w" and i: "i < length (dw_calls w)" and pc: "pc_of w i = CallDo"
    and busy: "sf_running sf (dw_sf w) (key_of w i) = Some b" and fresh: "sf_result sf (dw_sf w) i = None"
    and nx: "call_next sf env i (dw_calls w ! i) (dw_dns w, dw_sf w) = (CallWait, c, snd (sf_Do sf i (key_of w i) (dw_sf w)))"
  shows "sf_inv sf (move sf env i w)"
proof (rule sf_inv_moveI [OF i nx], goal_cases)
  note d = sf_join [OF doc busy, of i]
  case (1 k j)
  show ?case using sf_runs [OF inv, of k j] d by (cases "j = i") (auto simp: pc)
next
  note d = sf_join [OF doc busy, of i]
  have b: "b < length (dw_calls w)" "exec_pc (pc_of w b)" "key_of w b = key_of w i" "b \<noteq> i"
    using sf_runs [OF inv, of "key_of w i" b] busy pc by auto
  case (2 a j)
  then show ?case using sf_waits [OF inv, of a j] d pc b i fresh by (cases "a = i"; cases "j = i") auto
next
  note d = sf_join [OF doc busy, of i]
  case (3 a)
  then show ?case using sf_waitD [OF inv, of a] d by (cases "a = i") auto
qed

lemma sf_inv_finish:
  assumes doc: "singleflight_doc sf" and inv: "sf_inv sf w" and i: "i < length (dw_calls w)" and pc: "pc_of w i = CallReturn r"
    and nx: "call_next sf env i (dw_calls w ! i) (dw_dns w, dw_sf w) = (CallDone r, c, sf_finish sf i (key_of w i) r (dw_sf w))"
  shows "sf_inv sf (move sf env i w)"
proof -
  have run: "sf_running sf (dw_sf w) (key_of w i) = Some i" using sf_runs [OF inv] i pc by simp
  note d = sf_end [OF doc run, of r]
  show ?thesis
  proof (rule sf_inv_moveI [OF i nx], goal_cases)
    case (1 k j)
    show ?case using sf_runs [OF inv, of k j] d run by (cases "j = i"; cases "k = key_of w i") auto
  next
    case (2 a j)
    then have "a \<noteq> i" using sf_waits [OF inv, of a j] d pc by auto
    with 2 show ?case using sf_waits [OF inv, of a j] d pc by (cases "j = i") (auto simp: joined_def)
  next
    case (3 a)
    then show ?case using sf_waitD [OF inv, of a] d by (cases "a = i") auto
  qed
qed

lemma sf_inv_got:
  assumes inv: "sf_inv sf w" and i: "i < length (dw_calls w)" and pc: "pc_of w i = CallWait"
    and got: "sf_result sf (dw_sf w) i = Some r"
    and nx: "call_next sf env i (dw_calls w ! i) (dw_dns w, dw_sf w) = (CallDone r, c, dw_sf w)"
  shows "sf_inv sf (move sf env i w)"
proof (rule sf_inv_moveI [OF i nx], goal_cases)
  case (1 k j)
  show ?case using sf_runs [OF inv, of k j] pc by auto
next
  case (2 a j)
  then show ?case using sf_waits [OF inv, of a j] pc got by (cases "a = i"; cases "j = i") (auto simp: joined_def)
next
  case (3 a)
  then show ?case using sf_waitD [OF inv, of a] by (cases "a = i") auto
qed

section \<open>What calls return\<close>

lemma not_found_mono: "not_found_under k ans \<Longrightarrow> not_found_under k (ans @ ans')"
  by (auto simp: not_found_under_def)

lemma not_found_last: "errors_Is e ErrNotFound \<Longrightarrow> not_found_under k (ans @ [(k, (res, Some e))])"
  unfolding not_found_under_def by auto

lemma entry_from_mono: "entry_from ans kv \<Longrightarrow> entry_from (ans @ ans') kv"
  by (auto simp: entry_from_def not_found_mono)

lemma entries_from_mono: "list_all (entry_from ans) kvs \<Longrightarrow> list_all (entry_from (ans @ ans')) kvs"
  using entry_from_mono by (auto simp: list_all_iff)

lemma call_ok_mono: "call_ok nx ans cl pc \<Longrightarrow> call_ok nx (ans @ ans') cl pc"
  by (cases pc) (auto simp: answered_def not_found_mono)

lemma dns_inv_entry:
  assumes "dns_inv c" and "map_of (cache c) k = Some e"
  shows "ok_entry e \<and> (localDirect e \<longrightarrow> localOnNXDomain c)"
  using assms(1) map_of_SomeD [OF assms(2)] by (auto simp: dns_inv_def list_all_iff)

lemma flight_check_ok:
  assumes "flight_check env (cl_key cl) (cl_host cl) c = (pc, c')" and "dns_inv c" and "list_all (entry_from ans) (cache c)"
  shows "(\<exists>n. c' = c\<lparr>tick := n\<rparr>) \<and> call_ok (localOnNXDomain c) ans cl pc \<and> \<not> exec_pc pc \<and> pc \<noteq> CallWait"
proof (cases "ParseAddr (cl_host cl)")
  case (Some ip)
  have "ip \<noteq> AddrZero" using Some ParseAddr_nonzero by metis
  with Some assms(1) ok_addr_Unmap [of ip] show ?thesis
    by (auto simp: flight_check_def answered_def fin_ok_def ret_ok_def intro!: exI [of _ "tick c"])
next
  case None
  show ?thesis
  proof (cases "map_of (cache c) (cl_key cl)")
    case e: None
    with None assms(1) show ?thesis by (auto simp: flight_check_def intro!: exI [of _ "tick c"])
  next
    case (Some e)
    have "entry_from ans (cl_key cl, e)" using assms(3) map_of_SomeD [OF Some] by (auto simp: list_all_iff)
    with None Some assms(1) dns_inv_entry [OF assms(2) Some] show ?thesis
      by (auto simp: flight_check_def time_Now_def Let_def fin_ok_def ret_ok_def answered_def entry_from_def ok_entry_def no_result_def
          split: if_splits)
  qed
qed

lemma flight_end_ok:
  assumes e: "flight_end env key host ret c = (r, c')" and ro: "range_order (e_range env)" and inv: "dns_inv c" and k: "key \<noteq> []"
    and ret: "ret_ok (localOnNXDomain c) ret" and frm: "list_all (entry_from ans) (cache c)"
  shows "dns_inv c' \<and> localOnNXDomain c' = localOnNXDomain c \<and> trace c' = trace c \<and> fin_ok (localOnNXDomain c) r \<and>
    list_all (entry_from (ans @ [(key, r)])) (cache c')"
proof -
  have inv': "dns_inv (c\<lparr>tick := n\<rparr>)" for n using inv by (simp add: dns_inv_def)
  have st: "dns_inv (store env key entry (c\<lparr>tick := n\<rparr>))"
    if "ok_entry entry" "localDirect entry \<Longrightarrow> localOnNXDomain c" for entry n
    using that ro k inv' by (intro store_inv) simp_all
  have ent: "list_all (entry_from (ans @ x)) (cache (store env key entry (c\<lparr>tick := n\<rparr>)))"
    if "entry_from (ans @ x) (key, entry)" for entry n x
  proof -
    have "set (cache (store env key entry (c\<lparr>tick := n\<rparr>))) \<subseteq> insert (key, entry) (set (cache c))"
      using set_update_alist [of key entry "evict env (cache c)"] set_evict [of env "cache c"] by (auto simp: store_def)
    then show ?thesis using frm that entry_from_mono by (fastforce simp: list_all_iff)
  qed
  note old = entries_from_mono [OF frm]
  have st_frame: "localOnNXDomain (store env key entry d) = localOnNXDomain d" "trace (store env key entry d) = trace d" for entry d
    by (simp_all add: store_def)
  obtain res err where r0: "ret = (res, err)" by force
  show ?thesis
  proof (cases err)
    case (Some x)
    have "errors_Is (NewDNSError host (Some x)) ErrNotFound \<longleftrightarrow> errors_Is x ErrNotFound" by (simp add: NewDNSError_def)
    with Some e r0 inv old show ?thesis
      by (auto simp: flight_end_def time_Now_def st_frame fin_ok_def ok_entry_def entry_from_def
          split: if_splits intro!: st ent not_found_last)
  next
    case None
    with e r0 ret inv old show ?thesis
      by (auto simp: flight_end_def time_Now_def st_frame fin_ok_def ret_ok_def ok_entry_def entry_from_def
          split: if_splits intro!: st ent)
  qed
qed

lemma asked_by_update:
  assumes "cl_host cl = cl_host (cls ! i)" and "cl_local cl = cl_local (cls ! i)"
  shows "asked_by (cls[i := cl]) = asked_by cls"
proof (cases "i < length cls")
  case True
  have eq: "asked_by xs ev \<longleftrightarrow> (\<exists>p \<in> set (map (\<lambda>cl. (cl_host cl, cl_local cl)) xs). ParseAddr (fst p) = None \<and>
      (if snd p then ask_local (fst p) ev else ask_tunnel (fst p) ev))" for xs ev
    by (simp add: asked_by_def)
  have "map (\<lambda>cl. (cl_host cl, cl_local cl)) (cls[i := cl]) = map (\<lambda>cl. (cl_host cl, cl_local cl)) cls"
    using True assms by (intro nth_equalityI) (auto simp: nth_list_update)
  then have "asked_by (cls[i := cl]) ev = asked_by cls ev" for ev by (simp only: eq)
  then show ?thesis by (rule ext)
qed (simp add: list_update_beyond)

lemma asked_by_mono: "asked_by cls ev \<Longrightarrow> set cls \<subseteq> set cls' \<Longrightarrow> asked_by cls' ev"
  by (auto simp: asked_by_def)

lemma call_next_data:
  assumes nx: "call_next sf env i cl (c, g) = (pc, c', g')" and ro: "range_order (e_range env)" and k: "cl_key cl \<noteq> []"
    and inv: "dns_inv c" and frm: "list_all (entry_from ans) (cache c)"
    and ok: "call_ok (localOnNXDomain c) ans cl (cl_pc cl)"
    and got: "\<And>r. sf_result sf g i = Some r \<Longrightarrow> fin_ok (localOnNXDomain c) r \<and> (cl_key cl, r) \<in> set ans"
  shows "dns_inv c' \<and> localOnNXDomain c' = localOnNXDomain c \<and> asks (asked_by [cl]) c c' \<and>
    list_all (entry_from (ans @ new_answers (cl\<lparr>cl_pc := pc\<rparr>))) (cache c') \<and>
    call_ok (localOnNXDomain c) (ans @ new_answers (cl\<lparr>cl_pc := pc\<rparr>)) cl pc"
proof (cases "cl_pc cl")
  case CallCheck
  then have f: "flight_check env (cl_key cl) (cl_host cl) c = (pc, c')" using nx by (auto simp: call_next_pc prod_eq_iff)
  obtain n where c': "c' = c\<lparr>tick := n\<rparr>" and p: "call_ok (localOnNXDomain c) ans cl pc" "\<not> exec_pc pc"
    using flight_check_ok [OF f inv frm] by blast
  then have "new_answers (cl\<lparr>cl_pc := pc\<rparr>) = []" by (auto simp: new_answers_def split: call_pc.split)
  with c' p inv frm show ?thesis by (simp add: dns_inv_def asks_def)
next
  case CallDo
  then have "(pc = CallWait \<and> c' = c) \<or> (\<exists>v. lv_host v = cl_host cl \<and> pc = CallRun v (if cl_local cl then LkLocal else LkNow) \<and>
      c' = c\<lparr>tick := Suc (tick c), lookups := lookups c + 1\<rparr>)"
    using nx by (auto simp: call_next_pc flight_begin_def time_Now_def Let_def split: if_splits)
  with CallDo ok inv frm show ?thesis by (auto simp: dns_inv_def asks_def new_answers_def)
next
  case (CallRun v p)
  show ?thesis
  proof (cases "\<exists>ret. p = LkDone ret")
    case True
    then obtain ret where p: "p = LkDone ret" by blast
    have e: "flight_end env (cl_key cl) (cl_host cl) ret c = (fst (flight_end env (cl_key cl) (cl_host cl) ret c), c')"
      and pc: "pc = CallReturn (fst (flight_end env (cl_key cl) (cl_host cl) ret c))"
      using nx CallRun p by (auto simp: call_next_pc prod_eq_iff)
    have "ret_ok (localOnNXDomain c) ret" using ok CallRun p by simp
    from flight_end_ok [OF e ro inv k this frm] pc show ?thesis by (simp add: new_answers_def asks_def)
  next
    case False
    obtain v' p' d where l: "lookup_next env (v, p, c) = (v', p', d)" by (metis prod_cases3)
    have "call_next sf env i cl (c, g) = (CallRun v' p', d, g)" using CallRun False l by (intro call_next_run) auto
    with nx have pc: "pc = CallRun v' p'" "c' = d" by auto
    have lk: "lk_ok (cl_local cl) (localOnNXDomain c) p" using ok CallRun by simp
    note fr = lookup_next_frame [OF l lk]
    have host: "lv_host v = cl_host cl" "ParseAddr (cl_host cl) = None" using ok CallRun by simp_all
    have "asks (asked_by [cl]) c d"
      by (rule asks_mono [OF fr [THEN conjunct2, THEN conjunct2, THEN conjunct2, THEN conjunct2]])
        (auto simp: asked_by_def host split: if_splits)
    moreover have "dns_inv d" using inv fr by (simp add: dns_inv_def)
    ultimately show ?thesis using fr pc frm host by (simp add: new_answers_def)
  qed
next
  case (CallReturn r)
  with nx ok inv frm show ?thesis by (auto simp: call_next_pc new_answers_def answered_def)
next
  case CallWait
  with nx got ok inv frm show ?thesis
    by (auto simp: call_next_pc new_answers_def answered_def split: option.splits)
next
  case (CallDone r)
  then have "pc = CallDone r" "c' = c" using nx by (simp_all add: call_next_pc)
  with CallDone ok inv frm show ?thesis by (simp add: new_answers_def)
qed

section \<open>Every interleaving\<close>

lemma data_results:
  assumes "data_inv sf c0 w" and "sf_result sf (dw_sf w) i = Some r"
  shows "sf_waiting sf (dw_sf w) i \<noteq> None \<and> fin_ok (localOnNXDomain c0) r \<and> (key_of w i, r) \<in> set (dw_answers w)"
  using assms unfolding data_inv_def by blast

lemma result_moveD:
  assumes doc: "singleflight_doc sf" and sfi: "sf_inv sf w" and dat: "data_inv sf c0 w" and i: "i < length (dw_calls w)"
    and nx: "call_next sf env i (dw_calls w ! i) (dw_dns w, dw_sf w) = (pc, c, g)" and res: "sf_result sf g a = Some r"
    and c0: "localOnNXDomain c0 = nx0"
  shows "sf_waiting sf g a \<noteq> None \<and> fin_ok nx0 r \<and> (key_of w a, r) \<in> set (dw_answers w)"
proof -
  have old: "sf_waiting sf (dw_sf w) a \<noteq> None \<and> fin_ok nx0 r \<and> (key_of w a, r) \<in> set (dw_answers w)"
    if "sf_result sf (dw_sf w) a = Some r" using data_results [OF dat that] c0 by simp
  show ?thesis
  proof (cases "pc_of w i")
    case CallDo
    show ?thesis
    proof (cases "sf_running sf (dw_sf w) (key_of w i)")
      case None
      with nx res old CallDo sf_lead [OF doc None, of i] show ?thesis
        by (auto simp: call_next_pc pc_of_def key_of_def)
    next
      case (Some j)
      with nx res old CallDo sf_join [OF doc Some, of i] show ?thesis
        by (auto simp: call_next_pc pc_of_def key_of_def)
    qed
  next
    case (CallReturn x)
    have run: "sf_running sf (dw_sf w) (key_of w i) = Some i" using sf_runs [OF sfi] i CallReturn by simp
    have x: "fin_ok nx0 x \<and> (key_of w i, x) \<in> set (dw_answers w)"
      using dat i CallReturn c0 by (auto simp: data_inv_def list_all_length pc_of_def key_of_def)
    from nx CallReturn have g: "g = sf_finish sf i (key_of w i) x (dw_sf w)" by (simp add: call_next_pc pc_of_def key_of_def)
    show ?thesis using res old x sf_end [OF doc run, of x] sf_waits [OF sfi, of a i] unfolding g by (auto split: if_splits)
  next
    case (CallRun v p)
    have "g = dw_sf w" using nx CallRun call_next_runs [of "dw_calls w ! i" v p sf env i "dw_dns w" "dw_sf w"] by (auto simp: pc_of_def)
    with res old show ?thesis by simp
  qed (use nx res old in \<open>auto simp: call_next_pc pc_of_def split: option.splits\<close>)
qed

lemma move_same:
  assumes "call_next sf env i (dw_calls w ! i) (dw_dns w, dw_sf w) = (cl_pc (dw_calls w ! i), dw_dns w, dw_sf w)"
    and "\<And>r. cl_pc (dw_calls w ! i) \<noteq> CallReturn r"
  shows "move sf env i w = w"
proof -
  have "(dw_calls w ! i)\<lparr>cl_pc := cl_pc (dw_calls w ! i)\<rparr> = dw_calls w ! i" by simp
  moreover have "new_answers (dw_calls w ! i) = []" using assms(2) by (auto simp: new_answers_def split: call_pc.split)
  ultimately show ?thesis by (simp add: move_def assms(1) Let_def)
qed

lemma sf_inv_move:
  assumes doc: "singleflight_doc sf" and sfi: "sf_inv sf w" and dat: "data_inv sf c0 w" and i: "i < length (dw_calls w)"
  shows "sf_inv sf (move sf env i w)"
proof (cases "pc_of w i")
  case CallCheck
  let ?f = "flight_check env (key_of w i) (cl_host (dw_calls w ! i)) (dw_dns w)"
  have nx: "call_next sf env i (dw_calls w ! i) (dw_dns w, dw_sf w) = (fst ?f, snd ?f, dw_sf w)"
    using CallCheck by (simp add: call_next_pc pc_of_def key_of_def)
  have "\<not> exec_pc (fst ?f) \<and> fst ?f \<noteq> CallWait"
    using flight_check_ok [of env "dw_calls w ! i" "dw_dns w" "fst ?f" "snd ?f" "dw_answers w"] dat
    by (simp add: data_inv_def key_of_def)
  with CallCheck show ?thesis by (intro sf_inv_keep [OF sfi i nx]) auto
next
  case CallDo
  show ?thesis
  proof (cases "sf_running sf (dw_sf w) (key_of w i)")
    case None
    let ?b = "flight_begin env (cl_host (dw_calls w ! i)) (cl_local (dw_calls w ! i)) (dw_dns w)"
    have nx: "call_next sf env i (dw_calls w ! i) (dw_dns w, dw_sf w) = (fst ?b, snd ?b, snd (sf_Do sf i (key_of w i) (dw_sf w)))"
      using CallDo sf_lead [OF doc None, of i] by (simp add: call_next_pc pc_of_def key_of_def)
    have "exec_pc (fst ?b)" by (simp add: flight_begin_def Let_def case_prod_beta)
    with sf_inv_lead [OF doc sfi i CallDo None nx] show ?thesis .
  next
    case (Some j)
    have "sf_result sf (dw_sf w) i = None"
      using data_results [OF dat, of i] CallDo sf_waits [OF sfi, of i] by (cases "sf_result sf (dw_sf w) i") auto
    with Some CallDo sf_join [OF doc Some, of i] show ?thesis
      by (intro sf_inv_join [OF doc sfi i CallDo Some]) (simp_all add: call_next_pc pc_of_def key_of_def)
  qed
next
  case (CallRun v p)
  then obtain q c' where nx: "call_next sf env i (dw_calls w ! i) (dw_dns w, dw_sf w) = (q, c', dw_sf w)" and "exec_pc q"
    using call_next_runs [of "dw_calls w ! i" v p sf env i "dw_dns w" "dw_sf w"] by (auto simp: pc_of_def)
  with CallRun show ?thesis by (intro sf_inv_keep [OF sfi i nx]) auto
next
  case (CallReturn r)
  then show ?thesis by (intro sf_inv_finish [OF doc sfi i CallReturn]) (simp add: call_next_pc pc_of_def key_of_def)
next
  case CallWait
  show ?thesis
  proof (cases "sf_result sf (dw_sf w) i")
    case None
    then have "move sf env i w = w" using CallWait by (intro move_same) (simp_all add: call_next_pc pc_of_def)
    with sfi show ?thesis by simp
  next
    case (Some r)
    with CallWait show ?thesis by (intro sf_inv_got [OF sfi i CallWait Some]) (simp add: call_next_pc pc_of_def)
  qed
next
  case (CallDone r)
  then have "move sf env i w = w" by (intro move_same) (simp_all add: call_next_pc pc_of_def)
  with sfi show ?thesis by simp
qed

lemma data_inv_move:
  assumes doc: "singleflight_doc sf" and ro: "range_order (e_range env)" and sfi: "sf_inv sf w" and dat: "data_inv sf c0 w"
    and i: "i < length (dw_calls w)" and k: "key_of w i \<noteq> []"
  shows "data_inv sf c0 (move sf env i w)"
proof -
  let ?cl = "dw_calls w ! i"
  obtain pc c g where nx: "call_next sf env i ?cl (dw_dns w, dw_sf w) = (pc, c, g)" by (metis prod_cases3)
  let ?ans = "dw_answers w @ new_answers (?cl\<lparr>cl_pc := pc\<rparr>)"
  have inv: "dns_inv (dw_dns w)" and nxd: "localOnNXDomain (dw_dns w) = localOnNXDomain c0"
    and frm: "list_all (entry_from (dw_answers w)) (cache (dw_dns w))"
    and calls: "list_all (\<lambda>cl. call_ok (localOnNXDomain c0) (dw_answers w) cl (cl_pc cl)) (dw_calls w)"
    and tr: "asks (asked_by (dw_calls w)) c0 (dw_dns w)"
    using dat unfolding data_inv_def by blast+
  have ok: "call_ok (localOnNXDomain (dw_dns w)) (dw_answers w) ?cl (cl_pc ?cl)" using calls i nxd by (simp add: list_all_length)
  have got: "fin_ok (localOnNXDomain (dw_dns w)) r \<and> (cl_key ?cl, r) \<in> set (dw_answers w)" if "sf_result sf (dw_sf w) i = Some r" for r
    using data_results [OF dat that] nxd by (simp add: key_of_def)
  from k have k': "cl_key ?cl \<noteq> []" by (simp add: key_of_def)
  note d = call_next_data [OF nx ro k' inv frm ok got]
  have mv: "move sf env i w = w\<lparr>dw_dns := c, dw_sf := g, dw_calls := (dw_calls w)[i := ?cl\<lparr>cl_pc := pc\<rparr>], dw_answers := ?ans\<rparr>"
    by (simp add: move_def nx Let_def)
  have "call_ok (localOnNXDomain c0) ?ans (?cl\<lparr>cl_pc := pc\<rparr>) pc"
    using d nxd by (cases pc) (simp_all add: answered_def)
  then have c1: "list_all (\<lambda>cl. call_ok (localOnNXDomain c0) ?ans cl (cl_pc cl)) ((dw_calls w)[i := ?cl\<lparr>cl_pc := pc\<rparr>])"
    using calls i call_ok_mono by (auto simp: list_all_length nth_list_update)
  have c2: "asks (asked_by ((dw_calls w)[i := ?cl\<lparr>cl_pc := pc\<rparr>])) c0 c"
  proof -
    have "asked_by ((dw_calls w)[i := ?cl\<lparr>cl_pc := pc\<rparr>]) = asked_by (dw_calls w)"
      by (rule asked_by_update) simp_all
    moreover have "asks (asked_by (dw_calls w)) (dw_dns w) c"
      by (rule asks_mono [OF d [THEN conjunct2, THEN conjunct2, THEN conjunct1]]) (use i in \<open>auto elim!: asked_by_mono\<close>)
    ultimately show ?thesis using asks_trans [OF tr] by simp
  qed
  have c3: "sf_waiting sf g a \<noteq> None \<and> fin_ok (localOnNXDomain c0) r \<and> (key_of (move sf env i w) a, r) \<in> set ?ans"
    if "sf_result sf g a = Some r" for a r
    using result_moveD [OF doc sfi dat i nx that refl] pc_of_move(2) [OF i nx] by simp
  have sel: "dw_calls (move sf env i w) = (dw_calls w)[i := ?cl\<lparr>cl_pc := pc\<rparr>]" "dw_answers (move sf env i w) = ?ans"
    by (simp_all add: mv)
  have "dns_inv c" "localOnNXDomain c = localOnNXDomain c0" "list_all (entry_from ?ans) (cache c)" using d nxd by simp_all
  with c1 c2 c3 show ?thesis unfolding data_inv_def pc_of_move(3,4) [OF i nx] sel by blast
qed

lemma flight_inv_start:
  assumes "singleflight_doc sf" and "cache c = []"
  shows "sf_inv sf (start_world sf c) \<and> data_inv sf c (start_world sf c)"
  using assms sf_start [OF assms(1)]
  by (simp add: start_world_def sf_inv_def data_inv_def dns_inv_def wf_map_def)

lemma arrive_pc:
  "j < length (dw_calls w) \<Longrightarrow> pc_of (w\<lparr>dw_calls := dw_calls w @ [cl]\<rparr>) j = pc_of w j"
  "j < length (dw_calls w) \<Longrightarrow> key_of (w\<lparr>dw_calls := dw_calls w @ [cl]\<rparr>) j = key_of w j"
  "pc_of (w\<lparr>dw_calls := dw_calls w @ [cl]\<rparr>) (length (dw_calls w)) = cl_pc cl"
  by (simp_all add: pc_of_def key_of_def nth_append)

lemma sf_inv_arrive:
  assumes inv: "sf_inv sf w" and cl: "cl_pc cl = CallCheck"
  shows "sf_inv sf (w\<lparr>dw_calls := dw_calls w @ [cl]\<rparr>)"
proof (rule sf_invI, goal_cases)
  case (1 k j)
  show ?case using sf_runs [OF inv, of k j] cl arrive_pc(1,2) [of j w cl] arrive_pc(3) [of w cl]
    by (cases "j < length (dw_calls w)"; cases "j = length (dw_calls w)") auto
next
  case (2 i j)
  then have "sf_waiting sf (dw_sf w) i = Some j" by simp
  from sf_waits [OF inv this] show ?case using arrive_pc(1,2) [of _ w cl] by auto
next
  case (3 i)
  then show ?case using sf_waitD [OF inv, of i] cl arrive_pc(1,2) [of i w cl] arrive_pc(3) [of w cl]
    by (cases "i = length (dw_calls w)") auto
qed

lemma data_inv_arrive:
  assumes dat: "data_inv sf c0 w" and sfi: "sf_inv sf w" and cl: "cl_pc cl = CallCheck"
  shows "data_inv sf c0 (w\<lparr>dw_calls := dw_calls w @ [cl]\<rparr>)"
proof -
  have "asks (asked_by (dw_calls w @ [cl])) c0 (dw_dns w)"
    using dat unfolding data_inv_def by (auto elim!: asks_mono asked_by_mono)
  moreover have "key_of (w\<lparr>dw_calls := dw_calls w @ [cl]\<rparr>) i = key_of w i" if "sf_result sf (dw_sf w) i = Some r" for i r
    using data_results [OF dat that] sf_waits [OF sfi, of i] arrive_pc(2) by fastforce
  ultimately show ?thesis using dat cl unfolding data_inv_def by simp
qed

lemma data_inv_dns:
  assumes dat: "data_inv sf c0 w" and "dns_inv c" and "localOnNXDomain c = localOnNXDomain (dw_dns w)" and "trace c = trace (dw_dns w)"
    and "set (cache c) \<subseteq> set (cache (dw_dns w))"
  shows "data_inv sf c0 (w\<lparr>dw_dns := c, dw_purging := p\<rparr>)"
proof -
  have "list_all (entry_from (dw_answers w)) (cache c)" using dat assms(5) unfolding data_inv_def list_all_iff by blast
  moreover have "asks P c0 c = asks P c0 (dw_dns w)" for P using assms(4) by (simp add: asks_def)
  moreover have "key_of (w\<lparr>dw_dns := c, dw_purging := p\<rparr>) = key_of w" by (simp add: key_of_def fun_eq_iff)
  ultimately show ?thesis using dat assms(2,3) unfolding data_inv_def by simp
qed

lemma sf_inv_dns: "sf_inv sf (w\<lparr>dw_dns := c, dw_purging := p\<rparr>) = sf_inv sf w"
  by (simp add: sf_inv_def pc_of_def key_of_def)

lemma other_step:
  assumes "dns_step sf env w w'"
  obtains (arrive) cl where "cl_pc cl = CallCheck" "w' = w\<lparr>dw_calls := dw_calls w @ [cl]\<rparr>"
    | (moves) i where "i < length (dw_calls w)" "w' = move sf env i w"
    | (dns) c p where "w' = w\<lparr>dw_dns := c, dw_purging := p\<rparr>" "c = purge env (dw_dns w) \<or> (\<exists>n b. c = (dw_dns w)\<lparr>tick := n, dns_done := b\<rparr> \<and> tick (dw_dns w) \<le> n)"
  using assms
proof cases
  case (arrive cl host)
  then show ?thesis by (intro that(1) [of cl]) (auto simp: tunnel_call_def local_call_def Let_def)
next
  case (moves i)
  then show ?thesis by (intro that(2) [of i]) simp_all
next
  case (purges ev p c)
  then have "c = purge env (dw_dns w) \<or> c = dw_dns w \<or> c = stop (dw_dns w)"
    by (auto simp: purge_select_def split: purge_event.splits if_splits)
  then have "c = purge env (dw_dns w) \<or> (\<exists>n b. c = (dw_dns w)\<lparr>tick := n, dns_done := b\<rparr> \<and> tick (dw_dns w) \<le> n)"
  proof (elim disjE)
    assume "c = dw_dns w"
    then have "c = (dw_dns w)\<lparr>tick := tick (dw_dns w), dns_done := dns_done (dw_dns w)\<rparr>" by simp
    then show ?thesis by blast
  next
    assume "c = stop (dw_dns w)"
    then have "c = (dw_dns w)\<lparr>tick := tick (dw_dns w), dns_done := True\<rparr>" by (simp add: stop_def)
    then show ?thesis by blast
  qed simp
  with purges show ?thesis by (intro that(3) [where c = c and p = p]) simp_all
next
  case stops
  then show ?thesis
    by (intro that(3) [where c = "stop (dw_dns w)" and p = "dw_purging w"]) (auto simp: stop_def intro!: exI [of _ "tick (dw_dns w)"])
next
  case elsewhere
  then show ?thesis
    by (intro that(3) [where c = "(dw_dns w)\<lparr>tick := Suc (tick (dw_dns w))\<rparr>" and p = "dw_purging w"])
      (auto intro!: exI [of _ "Suc (tick (dw_dns w))"] exI [of _ "dns_done (dw_dns w)"])
qed

lemma flight_inv_step:
  assumes doc: "singleflight_doc sf" and ro: "range_order (e_range env)" and sfi: "sf_inv sf w" and dat: "data_inv sf c0 w"
    and named: "named_calls w" and st: "dns_step sf env w w'"
  shows "sf_inv sf w' \<and> data_inv sf c0 w'"
  using st
proof (cases rule: other_step)
  case (arrive cl)
  then show ?thesis using sf_inv_arrive [OF sfi] data_inv_arrive [OF dat sfi] by simp
next
  case (moves i)
  have "key_of w i \<noteq> []" using named moves(1) by (simp add: named_calls_def list_all_length key_of_def)
  then show ?thesis using sf_inv_move [OF doc sfi dat moves(1)] data_inv_move [OF doc ro sfi dat moves(1)] moves(2) by simp
next
  case (dns c p)
  have inv: "dns_inv (dw_dns w)" using dat by (simp add: data_inv_def)
  have "dns_inv c \<and> localOnNXDomain c = localOnNXDomain (dw_dns w) \<and> trace c = trace (dw_dns w) \<and> set (cache c) \<subseteq> set (cache (dw_dns w))"
    using dns(2) inv purge_inv [OF inv, of env] by (auto simp: purge_def time_Now_def dns_inv_def)
  then show ?thesis using data_inv_dns [OF dat, of c p] sfi dns(1) by (simp add: sf_inv_dns)
qed

lemma flight_inv_reach:
  assumes "singleflight_doc sf" and "range_order (e_range env)" and "cache c = []" and "dns_reach sf env named_calls c w"
  shows "sf_inv sf w \<and> data_inv sf c w"
  using assms(4)
proof induction
  case start
  show ?case by (rule flight_inv_start [OF assms(1,3)])
next
  case (step w w')
  then show ?case using flight_inv_step [OF assms(1,2)] by blast
qed

lemma schedule_reach:
  assumes "dns_reach sf env ok c w" and "scheduled sf env ok is w"
  shows "dns_reach sf env ok c (schedule sf env is w)"
  using assms by (induction "is" arbitrary: w) (auto intro: dns_reach.step dns_step.moves)

section \<open>Properties\<close>

lemma arrived_start: "dns_reach sf env ok c (arrived sf c [])"
  using dns_reach.start [of sf env ok c] by (simp add: arrived_def start_world_def)

lemma arrived_next:
  assumes "dns_reach sf env ok c (arrived sf c cls)" and "ok (arrived sf c cls)"
  shows "dns_reach sf env ok c (arrived sf c (cls @ [tunnel_call host]))"
  using dns_reach.step [OF assms dns_step.arrive [of "tunnel_call host" host]] by (simp add: arrived_def)



end
