(* ===== verification/DnsProbes.thy ===== *)
theory DnsProbes
  imports DnsFlightFacts
begin

text \<open>
  The pauses and probes of the tunnel resolvers of \<open>dns.go\<close> under concurrent lookups: the probe of a paused resolver is alone.
\<close>

section \<open>The invariant\<close>

text \<open>
  A lookup holds each resolver once and started in the past. Of the lookups that hold a paused resolver, each had claimed
  it before the pause began, or it is the probe and alone.
\<close>

fun lk_wf :: "time \<Rightarrow> lookup_vars \<Rightarrow> lookup_pc \<Rightarrow> bool" where
  "lk_wf now v LkNow = True"
| "lk_wf now v LkLocal = True"
| "lk_wf now v (LkDone out) = True"
| "lk_wf now v (LkClaim n) = (lv_now v \<le> now \<and> distinct (lv_active v) \<and> (\<forall>x \<in> set (lv_active v). x < n))"
| "lk_wf now v pc = (lv_now v \<le> now \<and> distinct (lk_held v pc))"

definition probe_inv :: "env \<Rightarrow> 'g dns_world \<Rightarrow> bool" where
  "probe_inv env w \<longleftrightarrow>
     (\<forall>i < length (dw_calls w). \<forall>v pc. pc_of w i = CallRun v pc \<longrightarrow> lk_wf (e_now env (tick (dw_dns w))) v pc) \<and>
     (\<forall>u < length (tunnel (dw_dns w)). pausedUntil (tunnel (dw_dns w) ! u) \<noteq> 0 \<longrightarrow> (\<forall>i. holds w i u \<longrightarrow>
        since w i + upstreamPause \<le> pausedUntil (tunnel (dw_dns w) ! u) \<or>
        probing (tunnel (dw_dns w) ! u) \<and> (\<forall>j. holds w j u \<longrightarrow> j = i)))"

text \<open>What one step of a lookup does to resolver \<open>u\<close>: note its outcome, claim it, claim it as a probe, or release it.\<close>

definition lk_effect :: "env \<Rightarrow> lookup_vars \<times> lookup_pc \<times> dnsCache \<Rightarrow> lookup_vars \<times> lookup_pc \<times> dnsCache \<Rightarrow> nat \<Rightarrow> bool" where
  "lk_effect env s s' u \<longleftrightarrow> (case s of (v, pc, c) \<Rightarrow> case s' of (v', pc', c') \<Rightarrow>
     let x = tunnel c ! u; x' = tunnel c' ! u; held = u \<in> set (lk_held v pc); held' = u \<in> set (lk_held v' pc') in
     (held' = held \<and> probing x' = probing x \<and>
        (pausedUntil x' = pausedUntil x \<or> pausedUntil x' = 0 \<or> (\<exists>k \<ge> tick c. pausedUntil x' = e_now env k + upstreamPause))) \<or>
     (pausedUntil x = 0 \<and> pausedUntil x' = 0) \<or>
     (\<not> held \<and> held' \<and> pausedUntil x \<le> lv_now v \<and> \<not> probing x \<and> probing x' \<and> pausedUntil x' = pausedUntil x) \<or>
     (held \<and> \<not> held' \<and> pausedUntil x' = pausedUntil x \<and> \<not> probing x'))"

section \<open>Steps of a lookup\<close>

lemma in_time_holds:
  assumes "in_time env w" and "holds w i u"
  shows "e_now env (tick (dw_dns w)) < since w i + upstreamPause"
proof -
  obtain v pc where i: "i < length (dw_calls w)" and pc: "cl_pc (dw_calls w ! i) = CallRun v pc" and u: "u \<in> set (lk_held v pc)"
    using assms(2) by (auto simp: holds_def pc_of_def)
  from assms(1) i have "case cl_pc (dw_calls w ! i) of
      CallRun v pc \<Rightarrow> lk_held v pc = [] \<or> e_now env (tick (dw_dns w)) < lv_now v + upstreamPause | _ \<Rightarrow> True"
    unfolding in_time_def list_all_length by blast
  with pc u show ?thesis by (auto simp: since_def pc_of_def)
qed

lemma upstreamFailed_pause:
  assumes "u < length (tunnel c)"
  shows "probing (tunnel (upstreamFailed env i e c) ! u) = probing (tunnel c ! u) \<and>
     (pausedUntil (tunnel (upstreamFailed env i e c) ! u) = pausedUntil (tunnel c ! u) \<or>
      pausedUntil (tunnel (upstreamFailed env i e c) ! u) = 0 \<or>
      (\<exists>k \<ge> tick c. pausedUntil (tunnel (upstreamFailed env i e c) ! u) = e_now env k + upstreamPause))"
  using upstreamFailed_nth(1,3) [OF assms, of env i e] by (auto intro: exI [of _ "Suc (tick c)"])

lemma note_tick:
  "tick c \<le> tick (upstreamAnswered env i rtt c)" "tick c \<le> tick (upstreamFailed env i e c)"
  "length (tunnel (upstreamAnswered env i rtt c)) = length (tunnel c)" "length (tunnel (upstreamFailed env i e c)) = length (tunnel c)"
  by (simp_all add: upstreamAnswered_def upstreamFailed_def tunnelUp_def time_Now_def Let_def upd_upstream_frame)

lemma dohLookup_loop_tick: "tick c \<le> tick (snd (dohLookup_loop env host timeout qs b out c))"
proof (induction qs arbitrary: b out c)
  case Nil
  show ?case by simp
next
  case (Cons q qs)
  obtain qn w where q: "q = (qn, w)" by force
  let ?a = "e_doh env (tick c) (dohHost c) host qn timeout"
  show ?case
  proof (cases "dohJSONQuery (snd ?a) w")
    case (Inl e)
    then show ?thesis by (simp add: q case_prod_beta Let_def)
  next
    case (Inr as)
    then show ?thesis using Cons.IH [of "c\<lparr>tick := Suc (tick c)\<rparr>" "b \<or> fst ?a" "out @ as"] by (simp add: q case_prod_beta Let_def)
  qed
qed

lemma ask_tick:
  "tick c \<le> tick (snd (call_upstream env i host timeout c))" "tick c \<le> tick (snd (lookupLocal env host c))"
  "tick c \<le> tick (snd (notFound env host c))" "tick c \<le> tick (snd (lookup_fallback env host c))"
  "tick c \<le> tick (snd (local_lookup env dl host c))"
proof -
  show u: "tick c \<le> tick (snd (call_upstream env i host timeout c))"
    using dohLookup_loop_tick [of "note_event (AskTunnel (u_name (tunnel c ! i)) host) c" env host timeout]
    by (auto simp: call_upstream_def dnsServerLookup_def dohLookup_def note_event_def case_prod_beta Let_def split: upstream_lookup.split)
  show l: "tick c \<le> tick (snd (lookupLocal env host c))" for c
    by (simp add: lookupLocal_def note_event_def Let_def split: sum.split)
  show "tick c \<le> tick (snd (notFound env host c))"
    using l [of c] by (auto simp: notFound_def Let_def split: prod.split sum.split)
  show "tick c \<le> tick (snd (lookup_fallback env host c))"
    by (auto simp: lookup_fallback_def lookupLocal_def note_event_def tunnelUp_def time_Now_def Let_def split: prod.split sum.split)
  show "tick c \<le> tick (snd (local_lookup env dl host c))"
    using l [of c] by (auto simp: local_lookup_def split: prod.split sum.split)
qed

lemma local_lookup_tunnel: "tunnel (snd (local_lookup env dl host c)) = tunnel c"
  using lookupLocal_frame(2) [where env = env and host = host and c = c]
  by (auto simp: local_lookup_def split: prod.split sum.split)

lemma lk_ask_tunnel:
  assumes "lk_ask env i rest v c = (pc, c')"
  shows "tick c \<le> tick c' \<and> tunnel c' = tunnel c \<and> (\<exists>r rtt. pc = LkNote i rest r rtt)"
proof -
  define t where "t = quot (time_Sub (lv_deadline v) (e_now env (tick c))) (1 + int (length rest))"
  define p where "p = call_upstream env i (lv_host v) t (c\<lparr>tick := Suc (Suc (tick c))\<rparr>)"
  have eq: "pc = LkNote i rest (fst p) (time_Sub (e_now env (tick (snd p))) (e_now env (Suc (tick c))))"
      "c' = (snd p)\<lparr>tick := Suc (tick (snd p))\<rparr>"
    using assms by (auto simp: lk_ask_def time_Now_def case_prod_beta Let_def p_def t_def)
  then show ?thesis
    using ask_tick(1) [of "c\<lparr>tick := Suc (Suc (tick c))\<rparr>" env i "lv_host v" t] by (simp add: frame_simps p_def)
qed

lemma lk_effect_same:
  assumes "tunnel c' = tunnel c" and "set (lk_held v' pc') = set (lk_held v pc)"
  shows "lk_effect env (v, pc, c) (v', pc', c') u"
  using assms by (simp add: lk_effect_def Let_def)

lemma lk_effect_noted:
  assumes "set (lk_held v' pc') = set (lk_held v pc)" and "probing (tunnel c' ! u) = probing (tunnel c ! u)"
    and "pausedUntil (tunnel c' ! u) = pausedUntil (tunnel c ! u) \<or> pausedUntil (tunnel c' ! u) = 0 \<or>
      (\<exists>k \<ge> tick c. pausedUntil (tunnel c' ! u) = e_now env k + upstreamPause)"
  shows "lk_effect env (v, pc, c) (v', pc', c') u"
  using assms by (simp add: lk_effect_def Let_def)

lemma lk_claim_effect:
  assumes "n < length (tunnel c)" and u: "u < length (tunnel c)" and wf: "lk_wf now v (LkClaim n)"
  shows "lk_effect env (v, LkClaim n, c) (fst (lk_claim n v c), LkClaim (Suc n), snd (lk_claim n v c)) u"
proof (cases "u = n")
  case True
  with assms show ?thesis by (auto simp: lk_effect_def lk_claim_def case_prod_beta Let_def upd_upstream_nth claim_def)
next
  case False
  with assms show ?thesis by (simp add: lk_effect_def lk_claim_def case_prod_beta Let_def upd_upstream_nth)
qed

lemma lk_note_effect:
  assumes n: "lk_note env i rest r rtt v c = (pc', c')" and u: "u < length (tunnel c)"
  shows "lk_effect env (v, LkNote i rest r rtt, c) (v, pc', c') u"
proof -
  have held: "lk_held v pc' = lv_active v" using n by (auto simp: lk_note_def split: sum.splits if_splits)
  have "c' = upstreamAnswered env i rtt c \<or> (\<exists>e. c' = upstreamFailed env i e c)"
    using n by (auto simp: lk_note_def split: sum.splits if_splits)
  then show ?thesis
  proof (elim disjE exE)
    assume "c' = upstreamAnswered env i rtt c"
    with upstreamAnswered_nth(1,3) [OF u] held show ?thesis by (intro lk_effect_noted) simp_all
  next
    fix e assume "c' = upstreamFailed env i e c"
    with upstreamFailed_pause [OF u, of env i e] held show ?thesis by (intro lk_effect_noted) simp_all
  qed
qed

lemma lk_release_effect:
  assumes u: "u < length (tunnel c)" and wf: "distinct (i # rest)"
  shows "lk_effect env (v, LkRelease (i # rest) out, c) (v, LkRelease rest out, upd_upstream i (\<lambda>u. u\<lparr>probing := False\<rparr>) c) u"
  using assms by (cases "u = i") (simp_all add: lk_effect_def Let_def upd_upstream_nth)

lemma lookup_next_effect:
  assumes nx: "lookup_next env (v, pc, c) = (v', pc', c')" and u: "u < length (tunnel c)" and wf: "lk_wf now v pc"
  shows "lk_effect env (v, pc, c) (v', pc', c') u"
proof (cases pc)
  case (LkClaim n)
  show ?thesis
  proof (cases "n < length (tunnel c)")
    case True
    with LkClaim nx lk_claim_effect [OF True u, of now v env] wf show ?thesis by (auto simp: case_prod_beta)
  next
    case False
    with nx LkClaim show ?thesis by (intro lk_effect_same) auto
  qed
next
  case (LkAsk act)
  show ?thesis
  proof (cases act)
    case Nil
    with nx LkAsk show ?thesis by (intro lk_effect_same) auto
  next
    case (Cons i rest)
    with nx LkAsk have a: "lk_ask env i rest v c = (pc', c')" and v: "v' = v" by auto
    from lk_ask_tunnel [OF a] v LkAsk show ?thesis by (intro lk_effect_same) auto
  qed
next
  case (LkNote i rest r rtt)
  then have "v' = v" and n: "lk_note env i rest r rtt v c = (pc', c')" using nx by auto
  with lk_note_effect [OF n u] LkNote show ?thesis by simp
next
  case (LkRelease act out)
  show ?thesis
  proof (cases act)
    case Nil
    with nx LkRelease show ?thesis by (intro lk_effect_same) auto
  next
    case (Cons i rest)
    with lk_release_effect [OF u, of i rest env v out] nx wf LkRelease show ?thesis by simp
  qed
next
  case LkLocal
  with nx show ?thesis by (intro lk_effect_same) (auto simp: local_lookup_tunnel case_prod_beta)
next
  case LkNow
  with nx show ?thesis by (intro lk_effect_same) (auto simp: time_Now_def)
next
  case LkDeadline
  with nx show ?thesis by (intro lk_effect_same) (auto simp: time_Now_def)
next
  case LkNotFound
  with nx show ?thesis by (intro lk_effect_same) (auto simp: lk_return_def frame_simps)
next
  case LkFallback
  with nx show ?thesis by (intro lk_effect_same) (auto simp: lk_return_def frame_simps)
next
  case (LkDone out)
  with nx show ?thesis by (intro lk_effect_same) auto
qed

lemma lookup_next_wf:
  assumes nx: "lookup_next env (v, pc, c) = (v', pc', c')" and wf: "lk_wf (e_now env (tick c)) v pc" and mono: "mono (e_now env)"
  shows "tick c \<le> tick c' \<and> length (tunnel c') = length (tunnel c) \<and> lk_wf (e_now env (tick c')) v' pc' \<and>
    (pc \<noteq> LkNow \<longrightarrow> lv_now v' = lv_now v)"
proof -
  have later: "t \<le> e_now env (tick d)" if "t \<le> e_now env (tick c)" "tick c \<le> tick d" for t d
    by (rule order_trans [OF that(1) monoD [OF mono that(2)]])
  show ?thesis
  proof (cases pc)
    case (LkAsk act)
    show ?thesis
    proof (cases act)
      case Nil
      with nx LkAsk wf show ?thesis by auto
    next
      case (Cons i rest)
      with nx LkAsk have a: "lk_ask env i rest v c = (pc', c')" and v: "v' = v" by auto
      from lk_ask_tunnel [OF a] v LkAsk wf later [of "lv_now v" c'] show ?thesis by auto
    qed
  next
    case (LkNote i rest r rtt)
    then have v: "v' = v" and n: "lk_note env i rest r rtt v c = (pc', c')" using nx by auto
    with LkNote wf later [of "lv_now v" c'] note_tick show ?thesis
      by (auto simp: lk_note_def split: sum.splits if_splits)
  next
    case LkNow
    with nx monoD [OF mono, of "tick c" "Suc (tick c)"] show ?thesis by (auto simp: time_Now_def)
  next
    case (LkClaim n)
    with nx wf later [of "lv_now v" c'] show ?thesis
      by (auto simp: lk_claim_def case_prod_beta frame_simps less_Suc_eq split: if_splits)
  next
    case LkDeadline
    with nx wf later [of "lv_now v" c'] show ?thesis by (auto simp: time_Now_def)
  next
    case LkNotFound
    with nx wf later [of "lv_now v" c'] ask_tick show ?thesis by (auto simp: lk_return_def frame_simps)
  next
    case LkFallback
    with nx wf later [of "lv_now v" c'] ask_tick show ?thesis by (auto simp: lk_return_def frame_simps)
  next
    case LkLocal
    with nx ask_tick(5) [of c env "lv_ctx v" "lv_host v"] show ?thesis
      by (auto simp: local_lookup_tunnel case_prod_beta)
  next
    case (LkRelease act out)
    with nx wf later show ?thesis by (cases act) (auto simp: frame_simps)
  next
    case (LkDone out)
    with nx wf show ?thesis by auto
  qed
qed

section \<open>Probes over all interleavings\<close>

lemma lk_wf_held: "lk_wf now v pc \<Longrightarrow> u \<in> set (lk_held v pc) \<Longrightarrow> lv_now v \<le> now"
  by (cases pc) auto

lemma lk_wf_later: "lk_wf now v pc \<Longrightarrow> now \<le> now' \<Longrightarrow> lk_wf now' v pc"
  by (cases pc) auto

lemma holdsE:
  assumes "holds w i u"
  obtains v pc where "i < length (dw_calls w)" and "pc_of w i = CallRun v pc" and "u \<in> set (lk_held v pc)" and "since w i = lv_now v"
  using assms by (auto simp: holds_def since_def)

lemma holds_run: "pc_of w i = CallRun v pc \<Longrightarrow> holds w i u \<longleftrightarrow> i < length (dw_calls w) \<and> u \<in> set (lk_held v pc)"
  by (simp add: holds_def)

lemma since_run: "pc_of w i = CallRun v pc \<Longrightarrow> since w i = lv_now v"
  by (simp add: since_def)

lemma probe_invD:
  assumes "probe_inv env w"
  shows probe_wf: "i < length (dw_calls w) \<Longrightarrow> pc_of w i = CallRun v pc \<Longrightarrow> lk_wf (e_now env (tick (dw_dns w))) v pc"
    and probe_cat: "u < length (tunnel (dw_dns w)) \<Longrightarrow> pausedUntil (tunnel (dw_dns w) ! u) \<noteq> 0 \<Longrightarrow> holds w i u \<Longrightarrow>
        since w i + upstreamPause \<le> pausedUntil (tunnel (dw_dns w) ! u) \<or>
        probing (tunnel (dw_dns w) ! u) \<and> (\<forall>j. holds w j u \<longrightarrow> j = i)"
  using assms unfolding probe_inv_def by blast+

lemma probe_inv_since:
  assumes "probe_inv env w" and "holds w i u"
  shows "since w i \<le> e_now env (tick (dw_dns w))"
  using assms(2)
proof (rule holdsE)
  fix v pc
  assume "i < length (dw_calls w)" "pc_of w i = CallRun v pc" "u \<in> set (lk_held v pc)" "since w i = lv_now v"
  then show ?thesis using lk_wf_held [OF probe_wf [OF assms(1)]] by simp
qed

text \<open>A step that leaves the resolvers and what calls hold alone.\<close>

lemma probe_inv_frame:
  assumes inv: "probe_inv env w" and mono: "mono (e_now env)" and tick: "tick (dw_dns w) \<le> tick (dw_dns w')"
    and tun: "tunnel (dw_dns w') = tunnel (dw_dns w)"
    and calls: "\<And>i v pc. i < length (dw_calls w') \<Longrightarrow> pc_of w' i = CallRun v pc \<Longrightarrow>
      (i < length (dw_calls w) \<and> pc_of w i = CallRun v pc) \<or> pc = LkNow \<or> pc = LkLocal"
  shows "probe_inv env w'"
proof -
  have later: "e_now env (tick (dw_dns w)) \<le> e_now env (tick (dw_dns w'))" using mono tick by (rule monoD)
  have hold: "holds w i u \<and> since w' i = since w i" if "holds w' i u" for i u
    using that
  proof (rule holdsE)
    fix v pc
    assume a: "i < length (dw_calls w')" "pc_of w' i = CallRun v pc" "u \<in> set (lk_held v pc)" "since w' i = lv_now v"
    then have "i < length (dw_calls w)" "pc_of w i = CallRun v pc" using calls [OF a(1,2)] by auto
    with a show ?thesis by (simp add: holds_run since_run)
  qed
  have "lk_wf (e_now env (tick (dw_dns w'))) v pc" if "i < length (dw_calls w')" "pc_of w' i = CallRun v pc" for i v pc
    using calls [OF that] lk_wf_later [OF probe_wf [OF inv] later] by auto
  moreover have "since w' i + upstreamPause \<le> pausedUntil (tunnel (dw_dns w) ! u) \<or>
        probing (tunnel (dw_dns w) ! u) \<and> (\<forall>j. holds w' j u \<longrightarrow> j = i)"
    if u: "u < length (tunnel (dw_dns w))" "pausedUntil (tunnel (dw_dns w) ! u) \<noteq> 0" "holds w' i u" for u i
    using probe_cat [OF inv u(1,2), of i] hold u(3) by auto
  ultimately show ?thesis unfolding probe_inv_def tun by blast
qed

text \<open>A step of call \<open>i\<close> inside its lookup, seen at resolver \<open>u\<close>.\<close>

lemma probe_cat_move:
  assumes inv: "probe_inv env w" and mono: "mono (e_now env)" and time: "in_time env w" and i: "i < length (dw_calls w)"
    and run: "pc_of w i = CallRun v pc" "pc_of w' i = CallRun v' pc'"
    and others: "length (dw_calls w') = length (dw_calls w)" "\<And>j. j \<noteq> i \<Longrightarrow> pc_of w' j = pc_of w j"
    and now: "u \<in> set (lk_held v pc) \<union> set (lk_held v' pc') \<Longrightarrow> lv_now v' = lv_now v"
    and start: "u \<in> set (lk_held v' pc') \<Longrightarrow> lv_now v \<le> e_now env (tick (dw_dns w))"
    and eff: "lk_effect env (v, pc, dw_dns w) (v', pc', dw_dns w') u"
    and u: "u < length (tunnel (dw_dns w))" "pausedUntil (tunnel (dw_dns w') ! u) \<noteq> 0" and a: "holds w' a u"
  shows "since w' a + upstreamPause \<le> pausedUntil (tunnel (dw_dns w') ! u) \<or>
    probing (tunnel (dw_dns w') ! u) \<and> (\<forall>j. holds w' j u \<longrightarrow> j = a)"
proof -
  let ?x = "tunnel (dw_dns w) ! u" and ?x' = "tunnel (dw_dns w') ! u"
  have hi: "holds w i u \<longleftrightarrow> u \<in> set (lk_held v pc)" "holds w' i u \<longleftrightarrow> u \<in> set (lk_held v' pc')"
    using run i others(1) by (simp_all add: holds_run)
  have hj: "holds w' j u = holds w j u" "since w' j = since w j" if "j \<noteq> i" for j
    using others(2) [OF that] others(1) by (simp_all add: holds_def since_def)
  have si: "since w' i = since w i" if "holds w i u \<or> holds w' i u" using now that hi run by (auto simp: since_run)
  consider (kept) "holds w' i u = holds w i u" "probing ?x' = probing ?x" "pausedUntil ?x' = pausedUntil ?x"
    | (pause) k where "holds w' i u = holds w i u" "tick (dw_dns w) \<le> k" "pausedUntil ?x' = e_now env k + upstreamPause"
    | (probe) "\<not> holds w i u" "holds w' i u" "pausedUntil ?x \<le> lv_now v" "\<not> probing ?x" "probing ?x'" "pausedUntil ?x' = pausedUntil ?x"
    | (release) "holds w i u" "\<not> holds w' i u" "pausedUntil ?x' = pausedUntil ?x"
    using eff u(2) unfolding lk_effect_def hi Let_def by auto
  then show ?thesis
  proof cases
    case kept
    then have "holds w' j u = holds w j u" for j using hj by (cases "j = i") auto
    moreover have "since w' a = since w a" using a hj si by (cases "a = i") auto
    ultimately show ?thesis using probe_cat [OF inv u(1), of a] u(2) a kept by auto
  next
    case pause
    have "holds w a u" "since w' a = since w a" using a hj si pause(1) by (cases "a = i"; auto)+
    with probe_inv_since [OF inv, of a u] monoD [OF mono pause(2)] pause(3) show ?thesis by simp
  next
    case probe
    have "\<not> holds w j u" for j
    proof
      assume j: "holds w j u"
      then have "since w j + upstreamPause \<le> pausedUntil ?x" using probe_cat [OF inv u(1) _ j] u(2) probe by auto
      moreover have "lv_now v \<le> e_now env (tick (dw_dns w))" using start probe(2) hi by simp
      moreover have "e_now env (tick (dw_dns w)) < since w j + upstreamPause" using in_time_holds [OF time j] .
      ultimately show False using probe(3) by simp
    qed
    with a probe(5) hj show ?thesis by metis
  next
    case release
    then have "a \<noteq> i" using a by auto
    with hj a release probe_cat [OF inv u(1), of a] u(2) show ?thesis by auto
  qed
qed

lemma flight_frame:
  "tunnel (snd (flight_check env key host c)) = tunnel c \<and> tick c \<le> tick (snd (flight_check env key host c))"
  "tunnel (snd (flight_begin env host loc c)) = tunnel c \<and> tick c \<le> tick (snd (flight_begin env host loc c))"
  "tunnel (snd (flight_end env key host ret c)) = tunnel c \<and> tick c \<le> tick (snd (flight_end env key host ret c))"
  by (auto simp: flight_check_def flight_begin_def flight_end_def time_Now_def store_def Let_def split: option.split prod.split)

lemma flight_begin_pc: "fst (flight_begin env host loc c) = CallRun v pc \<Longrightarrow> pc = LkNow \<or> pc = LkLocal"
  by (auto simp: flight_begin_def Let_def split: prod.splits if_splits)

lemma flight_check_pc: "fst (flight_check env key host c) \<noteq> CallRun v pc"
  by (auto simp: flight_check_def time_Now_def Let_def split: option.splits)

text \<open>A move of call \<open>i\<close> that is not inside its lookup.\<close>

lemma call_next_outside:
  assumes "call_next sf env i cl (c, g) = (pc, c', g')" and "\<And>v p. cl_pc cl = CallRun v p \<Longrightarrow> \<exists>r. p = LkDone r"
  shows "tunnel c' = tunnel c \<and> tick c \<le> tick c' \<and> (\<forall>v p. pc = CallRun v p \<longrightarrow> p = LkNow \<or> p = LkLocal)"
proof (cases "cl_pc cl")
  case (CallRun v p)
  then obtain r where "p = LkDone r" using assms(2) by blast
  with CallRun assms(1) flight_frame(3) [of env "cl_key cl" "cl_host cl" r c] show ?thesis by (auto simp: call_next_pc)
next
  case CallCheck
  with assms(1) flight_frame(1) [of env "cl_key cl" "cl_host cl" c] flight_check_pc show ?thesis by (auto simp: call_next_pc)
next
  case CallDo
  with assms(1) flight_frame(2) [of env "cl_host cl" "cl_local cl" c] flight_begin_pc [of env "cl_host cl" "cl_local cl" c] show ?thesis
    by (auto simp: call_next_pc split: if_splits)
qed (use assms(1) in \<open>auto simp: call_next_pc split: option.splits\<close>)

lemma probe_inv_move:
  assumes inv: "probe_inv env w" and mono: "mono (e_now env)" and time: "in_time env w" and i: "i < length (dw_calls w)"
  shows "probe_inv env (move sf env i w)"
proof (cases "\<exists>v p. pc_of w i = CallRun v p \<and> (\<forall>r. p \<noteq> LkDone r)")
  case False
  obtain pc c g where nx: "call_next sf env i (dw_calls w ! i) (dw_dns w, dw_sf w) = (pc, c, g)" by (metis prod_cases3)
  note m = pc_of_move [OF i nx]
  note out = call_next_outside [OF nx]
  show ?thesis
  proof (rule probe_inv_frame [OF inv mono])
    show "tick (dw_dns w) \<le> tick (dw_dns (move sf env i w))" "tunnel (dw_dns (move sf env i w)) = tunnel (dw_dns w)"
      using out False by (auto simp: m pc_of_def)
    show "(a < length (dw_calls w) \<and> pc_of w a = CallRun v p) \<or> p = LkNow \<or> p = LkLocal"
      if "a < length (dw_calls (move sf env i w))" "pc_of (move sf env i w) a = CallRun v p" for a v p
      using that out False unfolding m by (cases "a = i") (auto simp: pc_of_def)
  qed
next
  case True
  then obtain v p where run: "pc_of w i = CallRun v p" and nd: "\<And>r. p \<noteq> LkDone r" by blast
  obtain v' p' d where l: "lookup_next env (v, p, dw_dns w) = (v', p', d)" by (metis prod_cases3)
  have nx: "call_next sf env i (dw_calls w ! i) (dw_dns w, dw_sf w) = (CallRun v' p', d, dw_sf w)"
    using run nd l by (intro call_next_run) (simp_all add: pc_of_def)
  note m = pc_of_move [OF i nx]
  have wf: "lk_wf (e_now env (tick (dw_dns w))) v p" by (rule probe_wf [OF inv i run])
  note l' = lookup_next_wf [OF l wf mono]
  have later: "e_now env (tick (dw_dns w)) \<le> e_now env (tick d)" using l' by (intro monoD [OF mono]) simp
  have now: "lv_now v' = lv_now v" if "u \<in> set (lk_held v p) \<union> set (lk_held v' p')" for u
    using l l' that by (cases "p = LkNow") (auto simp: time_Now_def)
  have start: "lv_now v \<le> e_now env (tick (dw_dns w))" if "u \<in> set (lk_held v' p')" for u
    using l wf that nd by (cases p) (auto simp: time_Now_def split: prod.splits)
  have "lk_wf (e_now env (tick d)) q r" if "a < length (dw_calls w)" "pc_of (move sf env i w) a = CallRun q r" for a q r
    using that l' lk_wf_later [OF probe_wf [OF inv that(1)] later] unfolding m by (cases "a = i") auto
  moreover have "since (move sf env i w) a + upstreamPause \<le> pausedUntil (tunnel d ! u) \<or>
      probing (tunnel d ! u) \<and> (\<forall>j. holds (move sf env i w) j u \<longrightarrow> j = a)"
    if "u < length (tunnel d)" "pausedUntil (tunnel d ! u) \<noteq> 0" "holds (move sf env i w) a u" for u a
    using probe_cat_move [OF inv mono time i run, of "move sf env i w" v' p' u a] that l' now start
      lookup_next_effect [OF l _ wf, of u] by (simp add: m)
  ultimately show ?thesis unfolding probe_inv_def m by blast
qed

lemma probe_inv_step:
  assumes inv: "probe_inv env w" and mono: "mono (e_now env)" and time: "in_time env w" and st: "dns_step sf env w w'"
  shows "probe_inv env w'"
  using st
proof (cases rule: other_step)
  case (arrive cl)
  show ?thesis
    by (rule probe_inv_frame [OF inv mono]) (use arrive in \<open>auto simp: pc_of_def nth_append split: if_splits\<close>)
next
  case (moves i)
  then show ?thesis using probe_inv_move [OF inv mono time] by simp
next
  case (dns c p)
  show ?thesis
    by (rule probe_inv_frame [OF inv mono]) (use dns in \<open>auto simp: pc_of_def purge_def time_Now_def\<close>)
qed

lemma probe_inv_reach:
  assumes "mono (e_now env)" and "dns_reach sf env (in_time env) c w"
  shows "probe_inv env w"
  using assms(2)
proof induction
  case start
  show ?case by (simp add: probe_inv_def start_world_def holds_def)
next
  case (step w w')
  then show ?case using probe_inv_step [OF _ assms(1)] by blast
qed

section \<open>Properties\<close>

text \<open>
  C21: One probe at a time. A lookup that claimed a paused resolver after the pause had begun is the only lookup that uses this resolver, and
  no other can claim it, however the lookups are interleaved. This needs that a lookup gives its resolvers back before a
  pause is over: \<open>lookup\<close> runs under a deadline of 5 s, and \<open>upstreamPause\<close> is 10 s.
\<close>

theorem probe_alone:
  assumes "mono (e_now env)" and "dns_reach sf env (in_time env) c w"
    and "u < length (tunnel (dw_dns w))" and "pausedUntil (tunnel (dw_dns w) ! u) \<noteq> 0"
    and "holds w i u" and "pausedUntil (tunnel (dw_dns w) ! u) - upstreamPause < since w i"
  shows "(\<forall>j. holds w j u \<longrightarrow> j = i) \<and> (\<forall>now. \<not> fst (claim now (tunnel (dw_dns w) ! u)))"
proof -
  have "probing (tunnel (dw_dns w) ! u) \<and> (\<forall>j. holds w j u \<longrightarrow> j = i)"
    using probe_cat [OF probe_inv_reach [OF assms(1,2)] assms(3,4,5)] assms(6) by auto
  then show ?thesis using assms(4) by (simp add: claim_def)
qed

lemma probe_world_state:
  "length (tunnel (dw_dns probe_world)) = 1" "pausedUntil (tunnel (dw_dns probe_world) ! 0) = 110 * time_Second + 8"
  "pc_of probe_world 1 = CallRun \<lparr>lv_host = ''b.example'', lv_ctx = 105 * time_Second + 11, lv_now = 200 * time_Second + 12,
     lv_active = [0], lv_deadline = 0\<rparr> (LkClaim 1)" "length (dw_calls probe_world) = 3"
  by code_simp+

lemma probe_world_reached: "dns_reach sample_sf probe_env (in_time probe_env) (sample_cache [''1.1.1.1:53'']) probe_world"
proof -
  let ?c = "sample_cache [''1.1.1.1:53'']"
  have a1: "dns_reach sample_sf probe_env (in_time probe_env) ?c (arrived sample_sf ?c ([] @ [tunnel_call ''a.example'']))"
    by (rule arrived_next [OF arrived_start]) code_simp
  have a2: "dns_reach sample_sf probe_env (in_time probe_env) ?c (arrived sample_sf ?c (([] @ [tunnel_call ''a.example'']) @ [tunnel_call ''b.example'']))"
    by (rule arrived_next [OF a1]) code_simp
  have "dns_reach sample_sf probe_env (in_time probe_env) ?c
      (arrived sample_sf ?c ((([] @ [tunnel_call ''a.example'']) @ [tunnel_call ''b.example'']) @ [tunnel_call ''c.example'']))"
    by (rule arrived_next [OF a2]) code_simp
  then show ?thesis unfolding probe_world_def append_Nil append_Cons by (rule schedule_reach) code_simp
qed

theorem probe_alone_witness:
  "\<not> holds probe_world 2 0 \<and> \<not> fst (claim (200 * time_Second) (tunnel (dw_dns probe_world) ! 0))"
proof -
  have m: "mono (e_now probe_env)" by (auto simp: probe_env_def mono_def time_Second_def)
  have u: "0 < length (tunnel (dw_dns probe_world))" "pausedUntil (tunnel (dw_dns probe_world) ! 0) \<noteq> 0"
    by (simp_all add: probe_world_state time_Second_def)
  have h: "holds probe_world 1 0" "pausedUntil (tunnel (dw_dns probe_world) ! 0) - upstreamPause < since probe_world 1"
    unfolding holds_run [OF probe_world_state(3)] since_run [OF probe_world_state(3)]
    by (simp_all add: probe_world_state upstreamPause_def time_Second_def)
  from probe_alone [OF m probe_world_reached u h] have "holds probe_world 2 0 \<longrightarrow> 2 = (1 :: nat)"
    and "\<not> fst (claim (200 * time_Second) (tunnel (dw_dns probe_world) ! 0))" by blast+
  then show ?thesis by simp
qed

end
