(* ===== verification/HttpGuard.thy ===== *)
theory HttpGuard
  imports HttpProxy
begin

text \<open>
  The idle guard of \<open>httpproxy.go\<close> inside the request it guards. \<open>forward_step\<close> is \<open>handleHTTP\<close> after its dial, cut at every \<open>Read\<close> and
  \<open>Write\<close>, down to the deferred calls of \<open>handleHTTP\<close> and \<open>handleConn\<close>; what an operation on a connection returned is an argument, so
  the network is free. \<open>guard_tick\<close> is the guard's goroutine, which closes both connections under the handler. \<open>guard_step\<close>
  interleaves them with the clock.

  Shown here: whoever closes first, a request leaves one access line and one \<open>wg.Done\<close>, and ends with both connections
  closed; the guard closes only after a whole timeout without recorded progress; a request it closed does end; and
  without interference the steps compute what \<open>forward_request\<close> of theory \<open>HttpProxy\<close> computes.
\<close>

section \<open>State\<close>

text \<open>What one \<open>Read\<close> gave, or how much one \<open>Write\<close> took.\<close>

datatype io_res = IoRead string "goerr option" | IoWrite nat "goerr option"

text \<open>
  The places of the handler: reading a body to re-frame, writing the head and the body, copying the body, relaying the answer,
  an error reply, and the deferred calls in the order in which they run.
\<close>

datatype forward_pc =
    FReadAll string
  | FHead "string option"
  | FBody string
  | FCopyRead
  | FCopyWrite string "goerr option"
  | FRelayRead
  | FRelayWrite string "goerr option"
  | FReply int string
  | FGuardStop
  | FCloseUpstream
  | FCloseClient
  | FWgDone
  | FEnded

record guarded_request =
  gr_req :: request
  gr_range :: "header \<Rightarrow> header"
  gr_timeout :: duration
  gr_closeErr :: "goerr option"

text \<open>
  \<open>gs_last\<close> and \<open>gs_done\<close> are the guard's \<open>last\<close> and \<open>done\<close>, \<open>gs_watching\<close> tells whether its goroutine is in the loop,
  \<open>gs_closing\<close> whether it is between the two closes of \<open>onIdle\<close>. \<open>gs_pending\<close>: the last operation
  moved a byte and its \<open>touch\<close> is still to come. Histories without a counterpart in the code: the times at which bytes moved
  (\<open>gs_moved\<close>), and at the moment \<open>onIdle\<close> ran its time and those moves that had been recorded (\<open>gs_fired\<close>); \<open>gs_wgDone\<close> counts the calls of \<open>wg.Done\<close>.
\<close>

record guarded_state =
  gs_pc :: forward_pc
  gs_clock :: time
  gs_last :: time
  gs_done :: bool
  gs_watching :: bool
  gs_closing :: bool
  gs_pending :: bool
  gs_lc :: logConn
  gs_clientClosed :: bool
  gs_client :: string
  gs_up :: string
  gs_lines :: "log_line list"
  gs_wgDone :: nat
  gs_moved :: "time list"
  gs_fired :: "(time \<times> time list) option"

section \<open>The handler\<close>

definition has_body :: "request \<Rightarrow> bool" where
  "has_body req \<longleftrightarrow> rq_ContentLength req \<noteq> 0"

definition forward_start :: "guarded_request \<Rightarrow> time \<Rightarrow> logConn \<Rightarrow> guarded_state" where
  "forward_start g now lc =
     \<lparr>gs_pc = (if has_body (gr_req g) \<and> (rq_TransferEncoding (gr_req g) \<noteq> [] \<or> rq_ContentLength (gr_req g) < 0) then FReadAll [] else FHead None),
      gs_clock = now, gs_last = now, gs_done = False, gs_watching = True, gs_closing = False, gs_pending = False, gs_lc = lc, gs_clientClosed = False,
      gs_client = [], gs_up = [], gs_lines = [], gs_wgDone = 0, gs_moved = [], gs_fired = None\<rparr>"

text \<open>\<open>Read\<close> and \<open>Write\<close> through a guarded connection or reader: a call that moved a byte is followed by \<open>touch\<close>.\<close>

definition guarded_moved :: "nat \<Rightarrow> guarded_state \<Rightarrow> guarded_state" where
  "guarded_moved n s = (if n > 0 then s\<lparr>gs_pending := True, gs_moved := gs_moved s @ [gs_clock s]\<rparr> else s)"

definition guard_touch :: "guarded_state \<Rightarrow> guarded_state" where
  "guard_touch s = s\<lparr>gs_last := gs_clock s, gs_pending := False\<rparr>"

definition guarded_body_Read :: "string \<Rightarrow> guarded_state \<Rightarrow> guarded_state" where
  "guarded_body_Read data s = guarded_moved (length data) s"

definition guarded_up_Read :: "string \<Rightarrow> goerr option \<Rightarrow> guarded_state \<Rightarrow> guarded_state" where
  "guarded_up_Read data err s = guarded_moved (length data) (s\<lparr>gs_lc := lg_Read (int (length data)) err (gs_lc s)\<rparr>)"

definition guarded_up_Write :: "string \<Rightarrow> nat \<Rightarrow> goerr option \<Rightarrow> guarded_state \<Rightarrow> guarded_state" where
  "guarded_up_Write data n err s =
     guarded_moved (length (take n data)) (s\<lparr>gs_lc := lg_Write (int (length (take n data))) err (gs_lc s), gs_up := gs_up s @ take n data\<rparr>)"

definition guarded_client_Write :: "string \<Rightarrow> nat \<Rightarrow> guarded_state \<Rightarrow> guarded_state" where
  "guarded_client_Write data n s = guarded_moved (length (take n data)) (s\<lparr>gs_client := gs_client s @ take n data\<rparr>)"

definition read_all_end :: "string \<Rightarrow> forward_pc" where
  "read_all_end b = (if int (length b) > maxReframedBody then FReply 413 ''Body too large'' else FHead (Some b))"

definition copy_next :: "goerr option \<Rightarrow> forward_pc" where
  "copy_next err =
     (case err of None \<Rightarrow> FCopyRead | Some e \<Rightarrow> if e = ErrEOF then FRelayRead else FReply 502 ''Body transfer failed'')"

definition relay_next :: "goerr option \<Rightarrow> forward_pc" where
  "relay_next err = (case err of None \<Rightarrow> FRelayRead | Some e \<Rightarrow> FGuardStop)"

definition after_head :: "guarded_request \<Rightarrow> string option \<Rightarrow> forward_pc" where
  "after_head g body = (case body of Some b \<Rightarrow> FBody b | None \<Rightarrow> if has_body (gr_req g) then FCopyRead else FRelayRead)"

text \<open>\<open>lc.Close()\<close>, by the handler or by the guard.\<close>

definition guarded_Close :: "guarded_request \<Rightarrow> guarded_state \<Rightarrow> guarded_state" where
  "guarded_Close g s =
     (case lg_Close (gs_clock s) (gr_closeErr g) (gs_lc s) of
        (r, hook, ls, lc) \<Rightarrow> s\<lparr>gs_lc := lc, gs_lines := gs_lines s @ ls\<rparr>)"

text \<open>One step of the handler, \<open>None\<close> where the outcome is not one its operation can have or the handler has ended.\<close>

fun forward_pc_step :: "guarded_request \<Rightarrow> forward_pc \<Rightarrow> io_res \<Rightarrow> guarded_state \<Rightarrow> guarded_state option" where
  "forward_pc_step g (FReadAll acc) r s =
     (if maxReframedBody + 1 \<le> int (length acc) then Some (s\<lparr>gs_pc := read_all_end acc\<rparr>)
      else case r of
          IoRead data err \<Rightarrow>
            if int (length (acc @ data)) > maxReframedBody + 1 then None
            else Some ((guarded_body_Read data s)\<lparr>gs_pc :=
              (case err of None \<Rightarrow> FReadAll (acc @ data)
               | Some e \<Rightarrow> if e = ErrEOF then read_all_end (acc @ data) else FReply 413 ''Body read failed'')\<rparr>)
        | IoWrite n err \<Rightarrow> None)"
| "forward_pc_step g (FHead body) (IoWrite n err) s =
     Some ((guarded_up_Write (forward_head (gr_range g) (gr_req g) body) n err s)\<lparr>gs_pc := after_head g body\<rparr>)"
| "forward_pc_step g (FBody b) (IoWrite n err) s =
     Some ((guarded_up_Write b n err s)\<lparr>gs_pc := (if err \<noteq> None then FReply 502 ''Body transfer failed'' else FRelayRead)\<rparr>)"
| "forward_pc_step g FCopyRead (IoRead data err) s =
     Some ((guarded_body_Read data s)\<lparr>gs_pc := (if data \<noteq> [] then FCopyWrite data err else copy_next err)\<rparr>)"
| "forward_pc_step g (FCopyWrite data er) (IoWrite n ew) s =
     Some ((guarded_up_Write data n ew s)\<lparr>gs_pc :=
       (if ew \<noteq> None \<or> length data \<noteq> n then FReply 502 ''Body transfer failed'' else copy_next er)\<rparr>)"
| "forward_pc_step g FRelayRead (IoRead data err) s =
     Some ((guarded_up_Read data err s)\<lparr>gs_pc := (if data \<noteq> [] then FRelayWrite data err else relay_next err)\<rparr>)"
| "forward_pc_step g (FRelayWrite data er) (IoWrite n ew) s =
     Some ((guarded_client_Write data n s)\<lparr>gs_pc := (if ew \<noteq> None \<or> length data \<noteq> n then FGuardStop else relay_next er)\<rparr>)"
| "forward_pc_step g (FReply code msg) (IoWrite n err) s =
     Some ((guarded_client_Write (writeHTTPErr code msg) n s)\<lparr>gs_pc := FGuardStop\<rparr>)"
| "forward_pc_step g FGuardStop r s = Some (s\<lparr>gs_done := True, gs_pc := FCloseUpstream\<rparr>)"
| "forward_pc_step g FCloseUpstream r s = Some ((guarded_Close g s)\<lparr>gs_pc := FCloseClient\<rparr>)"
| "forward_pc_step g FCloseClient r s = Some (s\<lparr>gs_clientClosed := True, gs_pc := FWgDone\<rparr>)"
| "forward_pc_step g FWgDone r s = Some (s\<lparr>gs_wgDone := Suc (gs_wgDone s), gs_pc := FEnded\<rparr>)"
| "forward_pc_step g pc r s = None"

definition forward_step :: "guarded_request \<Rightarrow> io_res \<Rightarrow> guarded_state \<Rightarrow> guarded_state option" where
  "forward_step g r s = (if gs_pending s then Some (guard_touch s) else forward_pc_step g (gs_pc s) r s)"

section \<open>The guard\<close>

text \<open>\<open>onIdle\<close> closes the client's connection and then, in a step of its own, the upstream one.\<close>

definition onIdle :: "guarded_state \<Rightarrow> guarded_state" where
  "onIdle s =
     s\<lparr>gs_clientClosed := True, gs_closing := True, gs_fired := Some (gs_clock s, if gs_pending s then butlast (gs_moved s) else gs_moved s)\<rparr>"

definition onIdle_lc :: "guarded_request \<Rightarrow> guarded_state \<Rightarrow> guarded_state option" where
  "onIdle_lc g s = (if gs_closing s then Some ((guarded_Close g s)\<lparr>gs_closing := False\<rparr>) else None)"

text \<open>The two cases of the goroutine's \<open>select\<close>; with both ready Go takes either.\<close>

definition guard_tick :: "guarded_request \<Rightarrow> guarded_state \<Rightarrow> guarded_state option" where
  "guard_tick g s =
     (if \<not> gs_watching s then None
      else if time_Sub (gs_clock s) (gs_last s) \<ge> gr_timeout g then Some ((onIdle s)\<lparr>gs_watching := False\<rparr>)
      else Some s)"

definition guard_stopped :: "guarded_state \<Rightarrow> guarded_state option" where
  "guard_stopped s = (if gs_watching s \<and> gs_done s then Some (s\<lparr>gs_watching := False\<rparr>) else None)"

inductive guard_step :: "guarded_request \<Rightarrow> guarded_state \<Rightarrow> guarded_state \<Rightarrow> bool" for g :: guarded_request where
  handler: "forward_step g r s = Some s' \<Longrightarrow> guard_step g s s'"
| tick: "guard_tick g s = Some s' \<Longrightarrow> guard_step g s s'"
| closes: "onIdle_lc g s = Some s' \<Longrightarrow> guard_step g s s'"
| stopped: "guard_stopped s = Some s' \<Longrightarrow> guard_step g s s'"
| elapse: "0 \<le> d \<Longrightarrow> guard_step g s (s\<lparr>gs_clock := gs_clock s + d\<rparr>)"

inductive guard_reach :: "guarded_request \<Rightarrow> time \<Rightarrow> logConn \<Rightarrow> guarded_state \<Rightarrow> bool"
  for g :: guarded_request and now :: time and lc :: logConn where
  init: "guard_reach g now lc (forward_start g now lc)"
| step: "guard_reach g now lc s \<Longrightarrow> guard_step g s s' \<Longrightarrow> guard_reach g now lc s'"

section \<open>Specification vocabulary\<close>

text \<open>The handler alone, each operation answered by what \<open>io\<close> gives for its place.\<close>

fun forward_run :: "guarded_request \<Rightarrow> (forward_pc \<Rightarrow> io_res) \<Rightarrow> nat \<Rightarrow> guarded_state \<Rightarrow> guarded_state option" where
  "forward_run g io 0 s = Some s"
| "forward_run g io (Suc n) s = (case forward_step g (io (gs_pc s)) s of None \<Rightarrow> None | Some s' \<Rightarrow> forward_run g io n s')"

text \<open>
  The outcomes that \<open>http_env\<close> stands for: a stream is read in one piece, with its error or the end of file behind it, cut at the limit of
  a body that is read in whole; writes to the upstream go as \<open>he_write\<close> says, writes to the client in full.
\<close>

definition read_end :: "goerr option \<Rightarrow> goerr option" where
  "read_end err = (case err of None \<Rightarrow> Some ErrEOF | Some e \<Rightarrow> Some e)"

definition write_io :: "http_env \<Rightarrow> nat \<Rightarrow> string \<Rightarrow> io_res" where
  "write_io h i data = (case he_write h i data of (n, None) \<Rightarrow> IoWrite (length data) None | (n, Some e) \<Rightarrow> IoWrite n (Some e))"

fun env_io :: "http_env \<Rightarrow> guarded_request \<Rightarrow> forward_pc \<Rightarrow> io_res" where
  "env_io h g (FReadAll acc) =
     (case rq_body (gr_req g) of
        (data, err) \<Rightarrow>
          if maxReframedBody + 1 \<le> int (length data) then IoRead (take (nat (maxReframedBody + 1)) data) None
          else IoRead data (read_end err))"
| "env_io h g (FHead body) = write_io h 0 (forward_head (gr_range g) (gr_req g) body)"
| "env_io h g (FBody b) = write_io h 1 b"
| "env_io h g FCopyRead = IoRead (fst (rq_body (gr_req g))) (read_end (snd (rq_body (gr_req g))))"
| "env_io h g (FCopyWrite data err) = write_io h 1 data"
| "env_io h g FRelayRead = IoRead (fst (he_answer h)) (read_end (snd (he_answer h)))"
| "env_io h g (FRelayWrite data err) = IoWrite (length data) None"
| "env_io h g (FReply code msg) = IoWrite (length (writeHTTPErr code msg)) None"
| "env_io h g pc = IoWrite 0 None"

text \<open>
  The handler on connections that are closed: an operation moves nothing and fails with some error (\<open>ErrClosed\<close> of a closed
  socket, \<open>ErrEOF\<close> of a closed SSH channel). Bytes that the request reader had buffered are taken to have been read.
\<close>

fun closed_io :: "goerr \<Rightarrow> forward_pc \<Rightarrow> io_res" where
  "closed_io e (FReadAll acc) = IoRead [] (Some e)"
| "closed_io e FCopyRead = IoRead [] (Some e)"
| "closed_io e FRelayRead = IoRead [] (Some e)"
| "closed_io e pc = IoWrite 0 (Some e)"

fun closed_run :: "guarded_request \<Rightarrow> goerr list \<Rightarrow> guarded_state \<Rightarrow> guarded_state" where
  "closed_run g [] s = s"
| "closed_run g (e # es) s = (case forward_step g (closed_io e (gs_pc s)) s of None \<Rightarrow> s | Some s' \<Rightarrow> closed_run g es s')"

type_synonym forward_view = "forward_pc \<times> logConn \<times> string \<times> string \<times> log_line list \<times> time"

text \<open>The handler is past \<open>lc.Close()\<close>, past \<open>client.Close()\<close>, past \<open>g.stop()\<close>.\<close>

definition past_upstream :: "forward_pc \<Rightarrow> bool" where
  "past_upstream pc \<longleftrightarrow> pc = FCloseClient \<or> pc = FWgDone \<or> pc = FEnded"

definition past_client :: "forward_pc \<Rightarrow> bool" where
  "past_client pc \<longleftrightarrow> pc = FWgDone \<or> pc = FEnded"

definition past_stop :: "forward_pc \<Rightarrow> bool" where
  "past_stop pc \<longleftrightarrow> pc = FCloseUpstream \<or> past_upstream pc"

text \<open>An operation on a connection: it may move bytes, and closes and stops nothing.\<close>

definition io_frame :: "guarded_state \<Rightarrow> guarded_state \<Rightarrow> bool" where
  "io_frame s s' \<longleftrightarrow>
     lg_closed (gs_lc s') = lg_closed (gs_lc s) \<and> gs_lines s' = gs_lines s \<and> gs_clientClosed s' = gs_clientClosed s \<and>
     gs_done s' = gs_done s \<and> gs_watching s' = gs_watching s \<and> gs_closing s' = gs_closing s \<and> gs_wgDone s' = gs_wgDone s \<and> gs_fired s' = gs_fired s \<and>
     gs_clock s' = gs_clock s \<and> gs_last s' = gs_last s \<and>
     (gs_moved s' = gs_moved s \<and> gs_pending s' = gs_pending s \<or> gs_moved s' = gs_moved s @ [gs_clock s] \<and> gs_pending s')"

text \<open>The invariant: who has closed what, and the times the guard goes by.\<close>

definition recorded :: "guarded_state \<Rightarrow> time list" where
  "recorded s = (if gs_pending s then butlast (gs_moved s) else gs_moved s)"

definition close_inv :: "guarded_state \<Rightarrow> bool" where
  "close_inv s \<longleftrightarrow>
     access_lines (gs_lines s) = (if lg_closed (gs_lc s) then 1 else 0) \<and>
     (lg_closed (gs_lc s) \<longleftrightarrow> (gs_fired s \<noteq> None \<and> \<not> gs_closing s) \<or> past_upstream (gs_pc s)) \<and>
     (gs_clientClosed s \<longleftrightarrow> gs_fired s \<noteq> None \<or> past_client (gs_pc s)) \<and>
     (gs_done s \<longleftrightarrow> past_stop (gs_pc s)) \<and> gs_wgDone s = (if gs_pc s = FEnded then 1 else 0) \<and>
     (gs_watching s \<longrightarrow> gs_fired s = None) \<and> (gs_closing s \<longrightarrow> gs_fired s \<noteq> None)"

definition time_inv :: "guarded_request \<Rightarrow> time \<Rightarrow> guarded_state \<Rightarrow> bool" where
  "time_inv g start s \<longleftrightarrow>
     start \<le> gs_last s \<and> gs_last s \<le> gs_clock s \<and> (\<forall>m \<in> set (gs_moved s). m \<le> gs_clock s) \<and> (\<forall>m \<in> set (recorded s). m \<le> gs_last s) \<and>
     (gs_pending s \<longrightarrow> gs_moved s \<noteq> []) \<and>
     (\<forall>t ms. gs_fired s = Some (t, ms) \<longrightarrow> start + gr_timeout g \<le> t \<and> (\<forall>m \<in> set ms. m + gr_timeout g \<le> t))"

fun pc_rank :: "forward_pc \<Rightarrow> nat" where
  "pc_rank FEnded = 0"
| "pc_rank FWgDone = 1"
| "pc_rank FCloseClient = 2"
| "pc_rank FCloseUpstream = 3"
| "pc_rank FGuardStop = 4"
| "pc_rank (FReply code msg) = 5"
| "pc_rank (FRelayWrite data err) = 5"
| "pc_rank FRelayRead = 5"
| "pc_rank (FBody b) = 6"
| "pc_rank FCopyRead = 6"
| "pc_rank (FCopyWrite data err) = 6"
| "pc_rank (FHead body) = 7"
| "pc_rank (FReadAll acc) = 8"

text \<open>What the client, the upstream and the log see of a state, and that the handler can take one such view to another.\<close>

definition seen :: "guarded_state \<Rightarrow> forward_view" where
  "seen s = (gs_pc s, gs_lc s, gs_client s, gs_up s, gs_lines s, gs_clock s)"

definition gets :: "http_env \<Rightarrow> guarded_request \<Rightarrow> forward_view \<Rightarrow> forward_view \<Rightarrow> bool" where
  "gets h g V W \<longleftrightarrow>
     (\<forall>s. seen s = V \<and> \<not> gs_pending s \<longrightarrow> (\<exists>n t. forward_run g (env_io h g) n s = Some t \<and> seen t = W \<and> \<not> gs_pending t))"

definition ends_with :: "http_env \<Rightarrow> guarded_request \<Rightarrow> forward_view \<Rightarrow> http_out \<Rightarrow> time \<Rightarrow> bool" where
  "ends_with h g V out now \<longleftrightarrow> (\<exists>lc. gets h g V (FEnded, lc, ho_client out, ho_upstream out, ho_log out, now))"

definition sample_guarded :: guarded_request where
  "sample_guarded = \<lparr>gr_req = sample_post, gr_range = id, gr_timeout = 30, gr_closeErr = None\<rparr>"

text \<open>A request whose client sends three bytes of its body at time 5 and then nothing until 40.\<close>

definition idle_world :: guarded_state where
  "idle_world =
     (guard_touch ((guarded_body_Read ''abc'' ((forward_start sample_guarded 0 (new_relay sample_info 0))\<lparr>gs_clock := 5\<rparr>))\<lparr>gs_pc := FReadAll ''abc''\<rparr>))
       \<lparr>gs_clock := 40\<rparr>"

definition idle_closed :: guarded_state where
  "idle_closed = the (onIdle_lc sample_guarded (the (guard_tick sample_guarded idle_world)))"

section \<open>What a step changes\<close>

lemma past_simps [simp]:
  "past_upstream FCloseClient" "past_upstream FWgDone" "past_upstream FEnded" "\<not> past_upstream FCloseUpstream" "\<not> past_upstream FGuardStop"
  "past_client FWgDone" "past_client FEnded" "\<not> past_client FCloseClient" "\<not> past_client FCloseUpstream" "\<not> past_client FGuardStop"
  "past_stop FCloseUpstream" "past_stop FCloseClient" "past_stop FWgDone" "past_stop FEnded" "\<not> past_stop FGuardStop"
  by (simp_all add: past_upstream_def past_client_def past_stop_def)

lemma working_pc [simp]:
  "\<not> past_stop (FReadAll b)" "\<not> past_stop (FHead bo)" "\<not> past_stop (FBody b)" "\<not> past_stop FCopyRead" "\<not> past_stop (FCopyWrite b e)"
  "\<not> past_stop FRelayRead" "\<not> past_stop (FRelayWrite b e)" "\<not> past_stop (FReply code b)"
  "\<not> past_stop (read_all_end b)" "\<not> past_stop (copy_next err)" "\<not> past_stop (relay_next err)" "\<not> past_stop (after_head g body)"
  by (auto simp: read_all_end_def copy_next_def relay_next_def after_head_def past_stop_def past_upstream_def split: option.splits)

lemma past_stopD: "\<not> past_stop pc \<Longrightarrow> \<not> past_upstream pc \<and> \<not> past_client pc \<and> pc \<noteq> FEnded"
  by (auto simp: past_stop_def past_upstream_def past_client_def)

lemma io_frame_ops [simp]:
  "io_frame s (s\<lparr>gs_pc := pc\<rparr>)" "io_frame s ((guarded_body_Read data s)\<lparr>gs_pc := pc\<rparr>)"
  "io_frame s ((guarded_up_Read data err s)\<lparr>gs_pc := pc\<rparr>)" "io_frame s ((guarded_up_Write data n err s)\<lparr>gs_pc := pc\<rparr>)"
  "io_frame s ((guarded_client_Write data n s)\<lparr>gs_pc := pc\<rparr>)"
  by (simp_all add: io_frame_def guarded_body_Read_def guarded_up_Read_def guarded_up_Write_def guarded_client_Write_def guarded_moved_def)

lemma forward_pc_io:
  assumes "forward_pc_step g pc r s = Some s'" and "\<not> past_stop pc" and "pc \<noteq> FGuardStop"
  shows "io_frame s s' \<and> \<not> past_stop (gs_pc s')"
  using assms by (cases pc; cases r) (auto split: if_splits option.splits)

lemma guarded_Close_simps [simp]:
  "lg_closed (gs_lc (guarded_Close g s))" "gs_clientClosed (guarded_Close g s) = gs_clientClosed s" "gs_done (guarded_Close g s) = gs_done s"
  "gs_watching (guarded_Close g s) = gs_watching s" "gs_closing (guarded_Close g s) = gs_closing s" "gs_wgDone (guarded_Close g s) = gs_wgDone s" "gs_fired (guarded_Close g s) = gs_fired s"
  "gs_clock (guarded_Close g s) = gs_clock s" "gs_last (guarded_Close g s) = gs_last s" "gs_moved (guarded_Close g s) = gs_moved s"
  "gs_pending (guarded_Close g s) = gs_pending s" "gs_pc (guarded_Close g s) = gs_pc s"
  by (simp_all add: guarded_Close_def lg_Close_def Let_def)

lemma guarded_Close_lines [simp]:
  "access_lines (gs_lines (guarded_Close g s)) = access_lines (gs_lines s) + (if lg_closed (gs_lc s) then 0 else 1)"
proof (cases "lg_closed (gs_lc s)")
  case True
  then show ?thesis by (simp add: guarded_Close_def access_lines_def)
next
  case False
  then show ?thesis using access_lines_close by (simp add: guarded_Close_def lg_Close_def Let_def del: access_lines_close)
qed

text \<open>The deferred calls.\<close>

lemma forward_pc_deferred:
  assumes st: "forward_pc_step g (gs_pc s) r s = Some s'" and pc: "past_stop (gs_pc s) \<or> gs_pc s = FGuardStop"
  shows "(gs_pc s = FGuardStop \<and> s' = s\<lparr>gs_done := True, gs_pc := FCloseUpstream\<rparr>) \<or>
    (gs_pc s = FCloseUpstream \<and> s' = (guarded_Close g s)\<lparr>gs_pc := FCloseClient\<rparr>) \<or>
    (gs_pc s = FCloseClient \<and> s' = s\<lparr>gs_clientClosed := True, gs_pc := FWgDone\<rparr>) \<or>
    (gs_pc s = FWgDone \<and> s' = s\<lparr>gs_wgDone := Suc (gs_wgDone s), gs_pc := FEnded\<rparr>)"
proof -
  have "gs_pc s = FGuardStop \<or> gs_pc s = FCloseUpstream \<or> gs_pc s = FCloseClient \<or> gs_pc s = FWgDone \<or> gs_pc s = FEnded"
    using pc by (auto simp: past_stop_def past_upstream_def)
  then show ?thesis using st by (elim disjE) simp_all
qed

lemma forward_step_close:
  assumes "forward_step g r s = Some s'" and inv: "close_inv s"
  shows "close_inv s'"
proof (cases "gs_pending s")
  case True
  then have "s' = guard_touch s" using assms(1) by (simp add: forward_step_def)
  with inv show ?thesis by (simp add: guard_touch_def close_inv_def)
next
  case False
  then have st: "forward_pc_step g (gs_pc s) r s = Some s'" using assms(1) by (simp add: forward_step_def)
  show ?thesis
  proof (cases "past_stop (gs_pc s) \<or> gs_pc s = FGuardStop")
    case True
    from forward_pc_deferred [OF st this] show ?thesis using inv by (elim disjE conjE) (simp_all add: close_inv_def)
  next
    case False
    with forward_pc_io [OF st] have "io_frame s s'" "\<not> past_stop (gs_pc s')" by simp_all
    with inv False past_stopD [of "gs_pc s"] past_stopD [of "gs_pc s'"] show ?thesis by (simp add: close_inv_def io_frame_def)
  qed
qed

lemma recorded_eq: "gs_moved s' = gs_moved s \<Longrightarrow> gs_pending s' = gs_pending s \<Longrightarrow> recorded s' = recorded s"
  by (simp add: recorded_def)

lemma time_inv_frame:
  assumes "time_inv g start s" and "gs_moved s' = gs_moved s" and "gs_pending s' = gs_pending s" and "gs_fired s' = gs_fired s"
    and "gs_clock s \<le> gs_clock s'" and "gs_last s' = gs_last s"
  shows "time_inv g start s'"
proof -
  have "\<forall>m \<in> set (gs_moved s). m \<le> gs_clock s'" using assms(1,5) unfolding time_inv_def by force
  then show ?thesis using assms recorded_eq [OF assms(2,3)] unfolding time_inv_def by simp
qed

lemma time_inv_io:
  assumes inv: "time_inv g start s" and fr: "io_frame s s'" and np: "\<not> gs_pending s"
  shows "time_inv g start s'"
proof (cases "gs_moved s' = gs_moved s \<and> gs_pending s' = gs_pending s")
  case True
  with fr show ?thesis by (intro time_inv_frame [OF inv]) (auto simp: io_frame_def)
next
  case False
  with fr have "gs_moved s' = gs_moved s @ [gs_clock s]" "gs_pending s'" by (auto simp: io_frame_def)
  with fr np inv show ?thesis by (auto simp: time_inv_def recorded_def io_frame_def)
qed

lemma forward_step_time:
  assumes "forward_step g r s = Some s'" and inv: "time_inv g start s"
  shows "time_inv g start s'"
proof (cases "gs_pending s")
  case True
  then have "s' = guard_touch s" using assms(1) by (simp add: forward_step_def)
  with inv show ?thesis by (simp add: guard_touch_def time_inv_def recorded_def)
next
  case False
  then have st: "forward_pc_step g (gs_pc s) r s = Some s'" using assms(1) by (simp add: forward_step_def)
  show ?thesis
  proof (cases "past_stop (gs_pc s) \<or> gs_pc s = FGuardStop")
    case True
    from forward_pc_deferred [OF st this] show ?thesis
      by (elim disjE conjE) (rule time_inv_frame [OF inv]; simp)+
  next
    case f: False
    with forward_pc_io [OF st] have "io_frame s s'" by simp
    from time_inv_io [OF inv this False] show ?thesis .
  qed
qed

lemma guard_step_inv:
  assumes st: "guard_step g s s'" and ci: "close_inv s" and ti: "time_inv g start s" and "0 < gr_timeout g" "gr_timeout g \<le> max_int64"
  shows "close_inv s' \<and> time_inv g start s'"
  using st
proof cases
  case (handler r)
  then show ?thesis using forward_step_close [OF _ ci] forward_step_time [OF _ ti] by blast
next
  case tick
  show ?thesis
  proof (cases "gs_watching s \<and> gs_last s + gr_timeout g \<le> gs_clock s")
    case True
    then have s': "s' = (onIdle s)\<lparr>gs_watching := False\<rparr>"
      using tick assms(4,5) time_Sub_ge_iff [of "gr_timeout g" "gs_clock s" "gs_last s"] by (simp add: guard_tick_def)
    have "close_inv s'" using ci True by (simp add: close_inv_def s' onIdle_def)
    moreover have "time_inv g start s'"
    proof -
      have "start + gr_timeout g \<le> gs_clock s" "\<forall>m \<in> set (recorded s). m + gr_timeout g \<le> gs_clock s"
        using ti True unfolding time_inv_def by force+
      then show ?thesis using ti by (simp add: time_inv_def s' onIdle_def recorded_def)
    qed
    ultimately show ?thesis by blast
  next
    case False
    then have "s' = s" using tick assms(4,5) time_Sub_ge_iff [of "gr_timeout g" "gs_clock s" "gs_last s"]
      by (auto simp: guard_tick_def split: if_splits)
    then show ?thesis using ci ti by simp
  qed
next
  case closes
  then have "gs_closing s" "s' = (guarded_Close g s)\<lparr>gs_closing := False\<rparr>" by (auto simp: onIdle_lc_def split: if_splits)
  then show ?thesis using ci time_inv_frame [OF ti, of s'] by (simp add: close_inv_def)
next
  case stopped
  then have "s' = s\<lparr>gs_watching := False\<rparr>" by (simp add: guard_stopped_def split: if_splits)
  then show ?thesis using ci ti by (simp add: close_inv_def time_inv_def recorded_def)
next
  case (elapse d)
  then show ?thesis using ci time_inv_frame [OF ti, of s'] by (simp add: close_inv_def)
qed

lemma guard_reach_inv:
  assumes "guard_reach g start lc s" and "\<not> lg_closed lc" and "0 < gr_timeout g" "gr_timeout g \<le> max_int64"
  shows "close_inv s \<and> time_inv g start s"
  using assms(1)
proof induction
  case init
  show ?case using assms(2)
    by (auto simp: forward_start_def close_inv_def time_inv_def recorded_def access_lines_def past_upstream_def past_client_def past_stop_def)
next
  case (step s s')
  then show ?case using guard_step_inv assms(3,4) by blast
qed

section \<open>A closed request ends\<close>

lemma pc_rank_bound: "pc_rank pc \<le> 8"
  by (cases pc) simp_all

lemma guarded_nothing [simp]:
  "guarded_body_Read [] s = s" "guarded_client_Write data 0 s = s"
  "guarded_up_Read [] err s = s\<lparr>gs_lc := lg_Read 0 err (gs_lc s)\<rparr>" "guarded_up_Write data 0 err s = s\<lparr>gs_lc := lg_Write 0 err (gs_lc s)\<rparr>"
  by (simp_all add: guarded_body_Read_def guarded_client_Write_def guarded_up_Read_def guarded_up_Write_def guarded_moved_def)

lemma closed_step:
  assumes "\<not> gs_pending s" and "gs_pc s \<noteq> FEnded"
  shows "\<exists>t. forward_step g (closed_io e (gs_pc s)) s = Some t \<and> \<not> gs_pending t \<and> pc_rank (gs_pc t) < pc_rank (gs_pc s)"
proof (cases "gs_pc s")
  case (FReadAll acc)
  then show ?thesis using assms by (simp add: forward_step_def read_all_end_def)
next
  case (FHead body)
  then show ?thesis using assms by (simp add: forward_step_def after_head_def split: option.split)
qed (use assms in \<open>simp_all add: forward_step_def copy_next_def relay_next_def\<close>)

lemma closed_run_settled: "\<not> gs_pending s \<Longrightarrow> pc_rank (gs_pc s) \<le> length es \<Longrightarrow> gs_pc (closed_run g es s) = FEnded"
proof (induction es arbitrary: s)
  case Nil
  then show ?case by (cases "gs_pc s") simp_all
next
  case (Cons e es)
  show ?case
  proof (cases "gs_pc s = FEnded")
    case True
    then show ?thesis using Cons.prems by (simp add: forward_step_def)
  next
    case False
    from closed_step [OF Cons.prems(1) this, of g e] obtain t
      where "forward_step g (closed_io e (gs_pc s)) s = Some t" "\<not> gs_pending t" "pc_rank (gs_pc t) < pc_rank (gs_pc s)" by blast
    with Cons show ?thesis by simp
  qed
qed

lemma closed_run_ends:
  assumes "9 \<le> length es"
  shows "gs_pc (closed_run g es s) = FEnded"
proof (cases "gs_pending s")
  case True
  obtain e es' where es: "es = e # es'" using assms by (cases es) simp_all
  then have "pc_rank (gs_pc (guard_touch s)) \<le> length es'" using assms pc_rank_bound le_trans by fastforce
  from closed_run_settled [OF _ this, of g] True show ?thesis by (simp add: es forward_step_def guard_touch_def)
next
  case False
  then show ?thesis using closed_run_settled pc_rank_bound [of "gs_pc s"] assms by simp
qed

lemma closed_run_reach: "guard_reach g start lc s \<Longrightarrow> guard_reach g start lc (closed_run g es s)"
proof (induction es arbitrary: s)
  case (Cons e es)
  then show ?case using guard_reach.step [OF Cons.prems guard_step.handler] by (simp split: option.split)
qed simp

section \<open>The handler alone\<close>

lemma forward_run_add: "forward_run g io (m + n) s = Option.bind (forward_run g io m s) (forward_run g io n)"
  by (induction m arbitrary: s) (simp_all split: option.split)

lemma gets_refl: "gets h g V V"
  unfolding gets_def by (metis forward_run.simps(1))

lemma gets_trans [trans]:
  assumes "gets h g U V" and "gets h g V W"
  shows "gets h g U W"
  unfolding gets_def
proof (intro allI impI)
  fix s assume "seen s = U \<and> \<not> gs_pending s"
  then obtain m t where t: "forward_run g (env_io h g) m s = Some t" "seen t = V" "\<not> gs_pending t" using assms(1) unfolding gets_def by blast
  then obtain n u where "forward_run g (env_io h g) n t = Some u" "seen u = W" "\<not> gs_pending u" using assms(2) unfolding gets_def by blast
  with t show "\<exists>n t. forward_run g (env_io h g) n s = Some t \<and> seen t = W \<and> \<not> gs_pending t"
    by (intro exI [of _ "m + n"] exI [of _ u]) (simp add: forward_run_add)
qed

lemma gets_op:
  assumes "\<And>s. seen s = V \<Longrightarrow> \<exists>t. forward_pc_step g (gs_pc s) (env_io h g (gs_pc s)) s = Some t \<and> seen t = W"
  shows "gets h g V W"
  unfolding gets_def
proof (intro allI impI)
  fix s assume s: "seen s = V \<and> \<not> gs_pending s"
  then obtain t where t: "forward_pc_step g (gs_pc s) (env_io h g (gs_pc s)) s = Some t" "seen t = W" using assms by blast
  then have run: "forward_run g (env_io h g) 1 s = Some t" using s by (simp add: forward_step_def)
  show "\<exists>n t. forward_run g (env_io h g) n s = Some t \<and> seen t = W \<and> \<not> gs_pending t"
  proof (cases "gs_pending t")
    case True
    then have "forward_run g (env_io h g) (Suc 1) s = Some (guard_touch t)" using s t by (simp add: forward_step_def)
    then show ?thesis using t(2) by (intro exI [of _ "Suc 1"] exI [of _ "guard_touch t"]) (simp add: seen_def guard_touch_def)
  next
    case False
    with run t(2) show ?thesis by blast
  qed
qed

lemma guarded_seen [simp]:
  "seen ((guarded_body_Read data s)\<lparr>gs_pc := pc\<rparr>) = (pc, gs_lc s, gs_client s, gs_up s, gs_lines s, gs_clock s)"
  "seen ((guarded_up_Read data err s)\<lparr>gs_pc := pc\<rparr>) =
     (pc, lg_Read (int (length data)) err (gs_lc s), gs_client s, gs_up s, gs_lines s, gs_clock s)"
  "seen ((guarded_up_Write data n err s)\<lparr>gs_pc := pc\<rparr>) =
     (pc, lg_Write (int (length (take n data))) err (gs_lc s), gs_client s, gs_up s @ take n data, gs_lines s, gs_clock s)"
  "seen ((guarded_client_Write data n s)\<lparr>gs_pc := pc\<rparr>) =
     (pc, gs_lc s, gs_client s @ take n data, gs_up s, gs_lines s, gs_clock s)"
  by (simp_all add: seen_def guarded_body_Read_def guarded_up_Read_def guarded_up_Write_def guarded_client_Write_def guarded_moved_def)

lemma seen_pc: "seen (s\<lparr>gs_pc := pc\<rparr>) = (pc, gs_lc s, gs_client s, gs_up s, gs_lines s, gs_clock s)"
  by (simp add: seen_def)

lemma seenD: "seen s = (pc, lc, cl, up, ls, now) \<Longrightarrow> gs_pc s = pc \<and> gs_lc s = lc \<and> gs_client s = cl \<and> gs_up s = up \<and> gs_lines s = ls \<and> gs_clock s = now"
  by (simp add: seen_def)

text \<open>The deferred calls.\<close>

lemma gets_deferred:
  "gets h g (FGuardStop, lc, cl, up, ls, now)
     (FEnded, snd (snd (snd (lg_Close now (gr_closeErr g) lc))), cl, up, ls @ fst (snd (snd (lg_Close now (gr_closeErr g) lc))), now)"
proof -
  have "gets h g (FGuardStop, lc, cl, up, ls, now) (FCloseUpstream, lc, cl, up, ls, now)"
    by (rule gets_op) (drule seenD, simp add: seen_def)
  also have "gets h g (FCloseUpstream, lc, cl, up, ls, now)
     (FCloseClient, snd (snd (snd (lg_Close now (gr_closeErr g) lc))), cl, up, ls @ fst (snd (snd (lg_Close now (gr_closeErr g) lc))), now)"
    by (rule gets_op) (drule seenD, simp add: seen_def guarded_Close_def split_beta)
  also have "gets h g (FCloseClient, lc', cl, up, ls', now) (FWgDone, lc', cl, up, ls', now)" for lc' ls'
    by (rule gets_op) (drule seenD, simp add: seen_def)
  also have "gets h g (FWgDone, lc', cl, up, ls', now) (FEnded, lc', cl, up, ls', now)" for lc' ls'
    by (rule gets_op) (drule seenD, simp add: seen_def)
  finally show ?thesis .
qed

lemma ends_with_gets: "gets h g U V \<Longrightarrow> ends_with h g V out now \<Longrightarrow> ends_with h g U out now"
  unfolding ends_with_def using gets_trans by blast

lemma ends_with_close:
  assumes "now = e_now (he_env h) (tick c)" and "gr_closeErr g = he_closeErr h"
  shows "ends_with h g (FGuardStop, lc, cl, up, [], now) (close_upstream h lc cl up c) now"
  unfolding ends_with_def close_upstream_def time_Now_def
  using gets_deferred [of h g lc cl up "[]" now] assms by (auto simp: Let_def split_beta)

lemma ends_with_reply:
  assumes "now = e_now (he_env h) (tick c)" and "gr_closeErr g = he_closeErr h"
  shows "ends_with h g (FReply code msg, lc, [], up, [], now) (close_upstream h lc (writeHTTPErr code msg) up c) now"
proof (rule ends_with_gets)
  show "gets h g (FReply code msg, lc, [], up, [], now) (FGuardStop, lc, writeHTTPErr code msg, up, [], now)"
    by (rule gets_op) (drule seenD, simp)
qed (rule ends_with_close [OF assms])

text \<open>The answer: one read with its bytes, one with the end of the stream.\<close>

lemma relay_next_end [simp]: "relay_next (read_end err) = FGuardStop"
  by (simp add: relay_next_def read_end_def split: option.split)

lemma lg_Read_end: "lg_Read n (read_end err) lc = lg_Read n err lc"
  by (simp add: lg_Read_def read_end_def note_relay_err_def relayErr_def split: option.split)

lemma ends_with_answer:
  assumes "now = e_now (he_env h) (tick c)" and "gr_closeErr g = he_closeErr h"
  shows "ends_with h g (FRelayRead, lc, [], up, [], now)
    (close_upstream h (lg_Read (int (length (fst (he_answer h)))) (snd (he_answer h)) lc) (fst (he_answer h)) up c) now"
proof (rule ends_with_gets)
  obtain ans err where a: "he_answer h = (ans, err)" by (cases "he_answer h")
  have lc: "lg_Read (int (length ans)) (read_end err) lc = lg_Read (int (length ans)) err lc" by (rule lg_Read_end)
  show "gets h g (FRelayRead, lc, [], up, [], now)
    (FGuardStop, lg_Read (int (length (fst (he_answer h)))) (snd (he_answer h)) lc, fst (he_answer h), up, [], now)"
  proof (cases "ans = []")
    case True
    then show ?thesis
      by - (rule gets_op, drule seenD, simp add: a lg_Read_end seen_def)
  next
    case False
    have "gets h g (FRelayRead, lc, [], up, [], now) (FRelayWrite ans (read_end err), lg_Read (int (length ans)) err lc, [], up, [], now)"
      by (rule gets_op) (drule seenD, simp add: False lg_Read_end a)
    also have "gets h g (FRelayWrite ans (read_end err), lc', [], up, [], now) (FGuardStop, lc', ans, up, [], now)" for lc'
      by (rule gets_op) (drule seenD, simp)
    finally show ?thesis by (simp add: a)
  qed
qed (rule ends_with_close [OF assms])

text \<open>A write to the upstream.\<close>

lemma up_write_res:
  assumes "up_write h i data lc = ((sent, err), lc')"
  shows "\<exists>n. write_io h i data = IoWrite n err \<and> sent = take n data \<and> lc' = lg_Write (int (length (take n data))) err lc \<and> (err = None \<longrightarrow> n = length data)"
proof (cases "he_write h i data")
  case (Pair n e)
  show ?thesis
  proof (cases e)
    case None
    with Pair assms show ?thesis by (intro exI [of _ "length data"]) (auto simp: up_write_def write_io_def)
  next
    case (Some x)
    with Pair assms show ?thesis by (intro exI [of _ n]) (auto simp: up_write_def write_io_def)
  qed
qed

lemma gets_head:
  assumes "up_write h 0 (forward_head (gr_range g) (gr_req g) body) lc = ((sent, err), lc')"
  shows "gets h g (FHead body, lc, cl, up, ls, now) (after_head g body, lc', cl, up @ sent, ls, now)"
proof -
  from up_write_res [OF assms] obtain n where n: "write_io h 0 (forward_head (gr_range g) (gr_req g) body) = IoWrite n err" "sent = take n (forward_head (gr_range g) (gr_req g) body)"
    "lc' = lg_Write (int (length (take n (forward_head (gr_range g) (gr_req g) body)))) err lc" by blast
  show ?thesis unfolding n(2,3) by (rule gets_op) (drule seenD, simp add: n(1) [simplified])
qed

lemma gets_body:
  assumes "up_write h 1 b lc = ((sent, err), lc')"
  shows "gets h g (FBody b, lc, cl, up, ls, now)
    (if err \<noteq> None then FReply 502 ''Body transfer failed'' else FRelayRead, lc', cl, up @ sent, ls, now)"
proof -
  from up_write_res [OF assms] obtain n where n: "write_io h 1 b = IoWrite n err" "sent = take n b" "lc' = lg_Write (int (length (take n b))) err lc" by blast
  show ?thesis unfolding n(2,3) by (rule gets_op) (drule seenD, simp add: n(1) [simplified])
qed

lemma copy_next_end: "err \<noteq> Some ErrEOF \<Longrightarrow> copy_next (read_end err) = (if err \<noteq> None then FReply 502 ''Body transfer failed'' else FRelayRead)"
  by (auto simp: copy_next_def read_end_def split: option.split)

lemma gets_copy:
  assumes send: "send_body h (gr_req g) None lc = ((sent, err), lc')" and has: "has_body (gr_req g)"
    and clean: "snd (rq_body (gr_req g)) \<noteq> Some ErrEOF"
  shows "gets h g (FCopyRead, lc, cl, up, ls, now)
    (if err \<noteq> None then FReply 502 ''Body transfer failed'' else FRelayRead, lc', cl, up @ sent, ls, now)"
proof -
  obtain data be where b: "rq_body (gr_req g) = (data, be)" by (cases "rq_body (gr_req g)")
  note next_end = copy_next_end [OF clean, unfolded b snd_conv]
  show ?thesis
  proof (cases "data = []")
    case True
    then have "sent = [] \<and> err = be \<and> lc' = lc" using send has b by (auto simp: send_body_def has_body_def)
    then show ?thesis
      by - (rule gets_op, drule seenD, simp add: b True next_end seen_pc)
  next
    case False
    obtain s1 e1 l1 where w: "up_write h 1 data lc = ((s1, e1), l1)" by (metis prod.collapse)
    with send has b False have r: "sent = s1" "lc' = l1" "err = (case e1 of None \<Rightarrow> be | Some e \<Rightarrow> Some e)"
      by (auto simp: send_body_def has_body_def split: option.splits)
    from up_write_res [OF w] obtain n where n: "write_io h 1 data = IoWrite n e1" "s1 = take n data" "l1 = lg_Write (int (length (take n data))) e1 lc"
      "e1 = None \<longrightarrow> n = length data" by blast
    have "gets h g (FCopyRead, lc, cl, up, ls, now) (FCopyWrite data (read_end be), lc, cl, up, ls, now)"
      by (rule gets_op) (drule seenD, simp add: b False)
    also have "gets h g (FCopyWrite data (read_end be), lc, cl, up, ls, now)
      (if e1 \<noteq> None \<or> length data \<noteq> n then FReply 502 ''Body transfer failed'' else copy_next (read_end be), l1, cl, up @ s1, ls, now)"
      unfolding n(2,3) by (rule gets_op) (drule seenD, simp add: n(1) [simplified])
    finally show ?thesis using n(4) by (cases e1) (simp_all add: r next_end)
  qed
qed

lemma gets_send:
  assumes send: "send_body h (gr_req g) body lc = ((sent, err), lc')" and clean: "snd (rq_body (gr_req g)) \<noteq> Some ErrEOF"
  shows "gets h g (after_head g body, lc, cl, up, ls, now)
    (if err \<noteq> None then FReply 502 ''Body transfer failed'' else FRelayRead, lc', cl, up @ sent, ls, now)"
proof (cases body)
  case (Some b)
  with send have "up_write h 1 b lc = ((sent, err), lc')" by (simp add: send_body_def)
  from gets_body [OF this] show ?thesis by (simp add: after_head_def Some)
next
  case None
  show ?thesis
  proof (cases "has_body (gr_req g)")
    case True
    with gets_copy [OF send [unfolded None] True clean] show ?thesis by (simp add: after_head_def None)
  next
    case False
    with send None have "sent = [] \<and> err = None \<and> lc' = lc" by (auto simp: send_body_def has_body_def)
    with False show ?thesis by (simp add: after_head_def None gets_refl)
  qed
qed

lemma ends_with_send:
  assumes "now = e_now (he_env h) (tick c)" and "gr_closeErr g = he_closeErr h" and "gr_range g = he_range h" and "gr_req g = req"
    and clean: "snd (rq_body req) \<noteq> Some ErrEOF" and re: "reframe_body req = Inr body"
  shows "ends_with h g (FHead body, lc, [], [], [], now) (forward_request h req lc c) now"
proof -
  obtain sh eh lh where head: "up_write h 0 (forward_head (he_range h) req body) lc = ((sh, eh), lh)" by (metis prod.collapse)
  obtain sent err ls where send: "send_body h req body lh = ((sent, err), ls)" by (metis prod.collapse)
  have "gets h g (FHead body, lc, [], [], [], now) (after_head g body, lh, [], sh, [], now)"
    using gets_head [of h g body lc sh eh lh "[]" "[]" "[]" now] head assms(3,4) by simp
  also have "gets h g (after_head g body, lh, [], sh, [], now)
    (if err \<noteq> None then FReply 502 ''Body transfer failed'' else FRelayRead, ls, [], sh @ sent, [], now)"
    using gets_send [of h g body lh sent err ls "[]" sh "[]" now] send clean assms(4) by simp
  finally have sent: "gets h g (FHead body, lc, [], [], [], now)
    (if err \<noteq> None then FReply 502 ''Body transfer failed'' else FRelayRead, ls, [], sh @ sent, [], now)" .
  show ?thesis
  proof (rule ends_with_gets [OF sent], cases err)
    case None
    then show "ends_with h g (if err \<noteq> None then FReply 502 ''Body transfer failed'' else FRelayRead, ls, [], sh @ sent, [], now)
      (forward_request h req lc c) now"
      using ends_with_answer [OF assms(1,2), of ls "sh @ sent"] re head send by (simp add: forward_request_def)
  next
    case (Some e)
    then show "ends_with h g (if err \<noteq> None then FReply 502 ''Body transfer failed'' else FRelayRead, ls, [], sh @ sent, [], now)
      (forward_request h req lc c) now"
      using ends_with_reply [OF assms(1,2), of _ _ ls "sh @ sent"] re head send by (simp add: forward_request_def)
  qed
qed

text \<open>The body that is read before it is sent on: in one read, and the limit or the end of the stream behind it.\<close>

lemma gets_read_all:
  assumes "reframe_body (gr_req g) = r" and has: "has_body (gr_req g)"
    and re: "rq_TransferEncoding (gr_req g) \<noteq> [] \<or> rq_ContentLength (gr_req g) < 0"
    and clean: "snd (rq_body (gr_req g)) \<noteq> Some ErrEOF"
  shows "gets h g (FReadAll [], lc, cl, up, ls, now) (case r of Inl (code, msg) \<Rightarrow> FReply code msg | Inr body \<Rightarrow> FHead body, lc, cl, up, ls, now)"
proof -
  obtain data be where b: "rq_body (gr_req g) = (data, be)" by (cases "rq_body (gr_req g)")
  let ?n = "maxReframedBody + 1"
  have pos: "0 < ?n" by (simp add: maxReframedBody_def)
  show ?thesis
  proof (cases "?n \<le> int (length data)")
    case True
    define d where "d = take (nat ?n) data"
    have d: "int (length d) = ?n" using True pos by (simp add: d_def)
    have "r = Inl (413, ''Body too large'')"
      using assms(1) has re b True d by (simp add: reframe_body_def read_limited_def has_body_def d_def)
    have "gets h g (FReadAll [], lc, cl, up, ls, now) (FReadAll d, lc, cl, up, ls, now)"
      by (rule gets_op) (drule seenD, use pos d True in \<open>simp add: b d_def\<close>)
    also have "gets h g (FReadAll d, lc, cl, up, ls, now) (read_all_end d, lc, cl, up, ls, now)"
      by (rule gets_op) (drule seenD, simp add: d seen_pc)
    finally show ?thesis using d by (simp add: \<open>r = _\<close> read_all_end_def)
  next
    case False
    then have r: "r = (case be of Some err \<Rightarrow> Inl (413, ''Body read failed'')
       | None \<Rightarrow> if int (length data) > maxReframedBody then Inl (413, ''Body too large'') else Inr (Some data))"
      using assms(1) has re b by (simp add: reframe_body_def read_limited_def has_body_def)
    have "gets h g (FReadAll [], lc, cl, up, ls, now)
      (case read_end be of None \<Rightarrow> FReadAll data | Some e \<Rightarrow> if e = ErrEOF then read_all_end data else FReply 413 ''Body read failed'', lc, cl, up, ls, now)"
      by (rule gets_op) (drule seenD, use pos False in \<open>simp add: b split: option.split\<close>)
    then show ?thesis using clean b by (cases be) (simp_all add: r read_end_def read_all_end_def split: if_splits)
  qed
qed

lemma ends_with_request:
  assumes "now = e_now (he_env h) (tick c)" and "gr_closeErr g = he_closeErr h" and "gr_range g = he_range h" and "gr_req g = req"
    and clean: "snd (rq_body req) \<noteq> Some ErrEOF"
  shows "ends_with h g (seen (forward_start g now lc)) (forward_request h req lc c) now"
proof (cases "has_body req \<and> (rq_TransferEncoding req \<noteq> [] \<or> rq_ContentLength req < 0)")
  case True
  have "gets h g (FReadAll [], lc, [], [], [], now)
    (case reframe_body req of Inl (code, msg) \<Rightarrow> FReply code msg | Inr body \<Rightarrow> FHead body, lc, [], [], [], now)"
    using gets_read_all [of g "reframe_body req"] True assms(4,5) by simp
  moreover have "ends_with h g (case reframe_body req of Inl (code, msg) \<Rightarrow> FReply code msg | Inr body \<Rightarrow> FHead body, lc, [], [], [], now)
    (forward_request h req lc c) now"
  proof (cases "reframe_body req")
    case (Inl cm)
    then show ?thesis using ends_with_reply [OF assms(1,2)] by (simp add: forward_request_def split_beta)
  next
    case (Inr body)
    then show ?thesis using ends_with_send [OF assms(1-5)] by simp
  qed
  ultimately have "ends_with h g (FReadAll [], lc, [], [], [], now) (forward_request h req lc c) now" by (rule ends_with_gets)
  with True assms(4) show ?thesis by (auto simp: seen_def forward_start_def)
next
  case False
  then have "reframe_body req = Inr None" by (auto simp: reframe_body_def has_body_def Let_def)
  from ends_with_send [OF assms this] False assms(4) show ?thesis by (auto simp: seen_def forward_start_def)
qed

section \<open>The guarded request\<close>

lemma idle_world_reach: "guard_reach sample_guarded 0 (new_relay sample_info 0) idle_world"
proof -
  let ?lc = "new_relay sample_info 0" and ?s = "(forward_start sample_guarded 0 (new_relay sample_info 0))\<lparr>gs_clock := 5\<rparr>"
  let ?r = "(guarded_body_Read ''abc'' ?s)\<lparr>gs_pc := FReadAll ''abc''\<rparr>"
  have "guard_reach sample_guarded 0 ?lc ?s"
    using guard_reach.step [OF guard_reach.init guard_step.elapse [of 5], of sample_guarded 0 ?lc] by (simp add: forward_start_def)
  moreover have "gs_pc ?s = FReadAll []" "\<not> gs_pending ?s" by code_simp+
  then have "forward_step sample_guarded (IoRead ''abc'' None) ?s = Some ?r"
    by (simp add: forward_step_def maxReframedBody_def)
  ultimately have "guard_reach sample_guarded 0 ?lc ?r" by (blast intro: guard_reach.step guard_step.handler)
  moreover have "gs_pending ?r" by code_simp
  then have "forward_step sample_guarded (IoRead [] None) ?r = Some (guard_touch ?r)" by (simp add: forward_step_def)
  ultimately have "guard_reach sample_guarded 0 ?lc (guard_touch ?r)" by (blast intro: guard_reach.step guard_step.handler)
  then have "guard_reach sample_guarded 0 ?lc ((guard_touch ?r)\<lparr>gs_clock := gs_clock (guard_touch ?r) + 35\<rparr>)"
    by (rule guard_reach.step) (rule guard_step.elapse, simp)
  moreover have "gs_clock (guard_touch ?r) = 5" by code_simp
  ultimately show ?thesis by (simp add: idle_world_def)
qed

text \<open>
  C11: The forwarded request and its idle guard, in every interleaving of handler, guard and clock, whatever the connections return. The access
  line is written once, when the upstream connection is first closed, by the handler or by the guard; neither closes a
  connection before the guard has fired or the handler has come to its deferred calls. When the handler has ended, both
  connections are closed, the guard is told to stop and \<open>wg.Done\<close> has been called once, which it never is before. And the guard fires only a
  whole timeout after the start of the request and after every move of bytes recorded by then, so a request that keeps moving is not cut.
\<close>

theorem guard_request_safe:
  assumes "guard_reach g start lc s" and "\<not> lg_closed lc" and "0 < gr_timeout g" "gr_timeout g \<le> max_int64"
  shows "access_lines (gs_lines s) = (if lg_closed (gs_lc s) then 1 else 0)
    \<and> (lg_closed (gs_lc s) \<or> gs_clientClosed s \<longrightarrow> gs_fired s \<noteq> None \<or> past_upstream (gs_pc s))
    \<and> (gs_pc s = FEnded \<longrightarrow> lg_closed (gs_lc s) \<and> gs_clientClosed s \<and> gs_done s)
    \<and> gs_wgDone s = (if gs_pc s = FEnded then 1 else 0)
    \<and> (\<forall>t moves. gs_fired s = Some (t, moves) \<longrightarrow>
        start + gr_timeout g \<le> t \<and> (\<forall>m \<in> set moves. m + gr_timeout g \<le> t))"
proof -
  from guard_reach_inv [OF assms] have "close_inv s" "time_inv g start s" by blast+
  then show ?thesis by (simp add: close_inv_def time_inv_def past_upstream_def past_client_def)
qed

theorem guard_request_safe_witness:
  "gs_fired idle_closed = Some (40, [5]) \<and> access_lines (gs_lines idle_closed) = 1"
proof -
  have t: "guard_tick sample_guarded idle_world = Some (the (guard_tick sample_guarded idle_world))"
    "onIdle_lc sample_guarded (the (guard_tick sample_guarded idle_world)) = Some idle_closed"
    "lg_closed (gs_lc idle_closed)" "gs_fired idle_closed = Some (40, [5])" by code_simp+
  have "guard_reach sample_guarded 0 (new_relay sample_info 0) idle_closed"
    using guard_reach.step [OF guard_reach.step [OF idle_world_reach guard_step.tick [OF t(1)]] guard_step.closes [OF t(2)]] .
  from guard_request_safe [OF this] t show ?thesis by (simp add: new_relay_def sample_guarded_def max_int64_def)
qed

text \<open>
  C12: A stalled request is ended. Once a timeout has passed since the last progress and the guard still watches, its next tick runs \<open>onIdle\<close>, which closes
  both connections; from there the handler, whatever it was doing and with whatever error the closed connections answer, returns
  within nine steps through its deferred calls, with one access line and one \<open>wg.Done\<close>.
\<close>

theorem idle_request_ends:
  assumes reach: "guard_reach g start lc s" and "\<not> lg_closed lc" and "0 < gr_timeout g" "gr_timeout g \<le> max_int64"
    and "gs_watching s" and "gs_last s + gr_timeout g \<le> gs_clock s" and es: "9 \<le> length es"
  shows "\<exists>i s'. guard_tick g s = Some i \<and> onIdle_lc g i = Some s' \<and> lg_closed (gs_lc s') \<and> gs_clientClosed s' \<and>
    (let t = closed_run g es s' in gs_pc t = FEnded \<and> access_lines (gs_lines t) = 1 \<and> gs_wgDone t = 1)"
proof -
  let ?i = "(onIdle s)\<lparr>gs_watching := False\<rparr>"
  let ?s = "(guarded_Close g ?i)\<lparr>gs_closing := False\<rparr>"
  have tick: "guard_tick g s = Some ?i"
    using assms(3-6) time_Sub_ge_iff [of "gr_timeout g" "gs_clock s" "gs_last s"] by (simp add: guard_tick_def)
  have lc: "onIdle_lc g ?i = Some ?s" by (simp add: onIdle_lc_def onIdle_def)
  have "guard_reach g start lc (closed_run g es ?s)"
    by (rule closed_run_reach) (rule guard_reach.step [OF guard_reach.step [OF reach guard_step.tick [OF tick]] guard_step.closes [OF lc]])
  from guard_reach_inv [OF this assms(2-4)] have "close_inv (closed_run g es ?s)" by blast
  moreover have "gs_pc (closed_run g es ?s) = FEnded" by (rule closed_run_ends [OF es])
  ultimately show ?thesis using tick lc by (simp add: Let_def close_inv_def onIdle_def)
qed

theorem idle_request_ends_witness:
  "gs_wgDone (closed_run sample_guarded (replicate 9 ErrClosed) idle_closed) = 1"
proof -
  have "gs_watching idle_world" "gs_last idle_world + 30 \<le> gs_clock idle_world" by code_simp+
  with idle_request_ends [OF idle_world_reach, of "replicate 9 ErrClosed"] show ?thesis
    by (auto simp: Let_def new_relay_def sample_guarded_def idle_closed_def max_int64_def simp del: closed_run.simps)
qed



end
