(* ===== verification/Spec2Isabelle.thy ===== *)
theory Spec2Isabelle
  imports Startup DialerFacts Proxies DnsProbes HttpGuard
begin

text \<open>
  ssh-gate: a SOCKS5 and HTTP proxy that sends connections either directly or through an SSH tunnel.

  \<^bold>\<open>The program.\<close> A client connects to a listener (\<open>listener.go\<close>) of the SOCKS5 server (\<open>socks5.go\<close>) or the HTTP proxy (\<open>httpproxy.go\<close>).
  Both hand the target to the one \<open>Opener\<close> (\<open>opener.go\<close>), which asks the rule engine (\<open>rules.go\<close>) for the route, resolves the name
  locally or through the resolvers behind the tunnel (\<open>dns.go\<close>), and dials the addresses in order, directly
  (\<open>routing.go\<close>) or through the SSH dialer (\<open>dialer.go\<close>), which keeps one SSH connection up and records every tunnel connection in the
  tracker (\<open>conntrack.go\<close>). The health server (\<open>health.go\<close>, \<open>webui.go\<close>, \<open>tcpinfo*.go\<close>) shows the tracker and the state of the tunnel (\<open>status.go\<close>). \<open>main.go\<close>
  reads the configuration, makes the key pair (\<open>keys.go\<close>, \<open>utils.go\<close>), wires the parts, reports to systemd (\<open>notify.go\<close>, \<open>journal*.go\<close>) and
  drains the relays at shutdown.

  \<^bold>\<open>Conventions.\<close> Strings are byte lists. A time is the number of nanoseconds since Go's zero time and a duration a number of
  nanoseconds, with saturating \<open>Sub\<close>; Go's \<open>int\<close> and \<open>int64\<close> wrap through \<open>wrap64\<close> where the code can overflow, ids are 64-bit words. A Go map is an
  association list with distinct keys, and a range over it visits it in an order that is a parameter. Errors are values
  of \<open>goerr\<close>; a function that can fail yields \<open>goerr + 'a\<close>, and a run-time panic is the value \<open>Panic\<close>. What the operating system, the
  network, the clock and the libraries answer is given by records of parameters, indexed by a counter
  where a later call may answer differently. Goroutines are interleaved by inductive step relations.

  \<^bold>\<open>Theories and sources.\<close>
  \<^item> \<open>Prelude\<close>, \<open>GoStrings\<close>, \<open>Netip\<close>, \<open>GoPath\<close>, \<open>GoTime\<close>: what the code uses of Go's standard library (integers, maps, \<open>strings\<close>, \<open>strconv\<close>, \<open>net\<close>, \<open>netip\<close>,
    \<open>filepath\<close>, durations with \<open>float64\<close> rounding), with the shared lemmas.
  \<^item> \<open>Errors\<close>, \<open>Routing\<close>: \<open>errors.go\<close>, \<open>routing.go\<close>.
  \<^item> \<open>Dns\<close>, \<open>DnsLookup\<close>, \<open>DnsCache\<close>: \<open>dns.go\<close>. A lookup asks the usable resolvers in order, pauses those that fail and asks the local resolver only where the policy
    allows it; the cache keeps its invariant and its bound, and serves an answer again within its lifetime.
  \<^item> \<open>DnsFlight\<close>, \<open>DnsFlightFacts\<close>, \<open>DnsProbes\<close>: the concurrent side of \<open>dns.go\<close>. \<open>ResolveAll\<close> and \<open>ResolveTunnel\<close> are cut where another goroutine may come in and interleaved
    with each other and with the purge loop. Calls of one key share one lookup, their answers are those of their own key, a probe of a
    paused resolver is alone, and a call that nothing disturbs computes what \<open>cachedLookup\<close> computes.
  \<^item> \<open>Rules\<close>, \<open>Opener\<close>: \<open>rules.go\<close>, \<open>opener.go\<close>. Listed domains go direct, private addresses are exactly the listed ranges, dials follow the order of the candidates.
  \<^item> \<open>Conntrack\<close>, \<open>ConntrackFacts\<close>: \<open>conntrack.go\<close>. The ring refines a bounded list, every reachable state is well formed, a connection's record has its byte counts,
    pages of the list are the sorted selection.
  \<^item> \<open>Listener\<close>: \<open>listener.go\<close>. \<open>Accept\<close> returns after any burst of transient errors, and only a closed listener is an error; the limiter counts the open connections.
  \<^item> \<open>Utils\<close>, \<open>Keys\<close>: \<open>utils.go\<close>, \<open>keys.go\<close>. File writes are atomic at every crash point; an existing key is never replaced, and the key pair is stable.
  \<^item> \<open>Config\<close>: the parsers and \<open>loadConfig\<close> of \<open>main.go\<close>. Every accepted configuration is valid.
  \<^item> \<open>Status\<close>, \<open>Dialer\<close>, \<open>DialerFacts\<close>: \<open>status.go\<close>, \<open>dialer.go\<close>. The host key is pinned over restarts, no connection leaks, at most one
    client is live over all interleavings of monitor, keepalive and stop.
  \<^item> \<open>Relay\<close>, \<open>Socks5\<close>, \<open>HttpProxy\<close>, \<open>Proxies\<close>: \<open>socks5.go\<close>, \<open>httpproxy.go\<close>. The drain counter is exact, each connection leaves one access line, a name that does not
    resolve is not dialed, forwarded requests are clean, CONNECT is transparent; neither proxy dials a private address through the
    tunnel.
  \<^item> \<open>HttpGuard\<close>: the forwarded request of \<open>httpproxy.go\<close> read by read and write by write, interleaved with its idle guard and the clock. Whoever closes
    first, there is one access line; only an idle request is cut, and a stalled one ends; undisturbed, the steps compute \<open>forward_request\<close>.
  \<^item> \<open>Web\<close>: \<open>health.go\<close>, \<open>webui.go\<close>, \<open>tcpinfo.go\<close>, \<open>tcpinfo_linux.go\<close>, \<open>tcpinfo_other.go\<close>. Requests under a foreign name get no data; the probe spares a live session.
  \<^item> \<open>Service\<close>: \<open>notify.go\<close>, \<open>journal.go\<close>, \<open>journal_linux.go\<close>, \<open>journal_other.go\<close>. Stopping is the last status; journal entries read back.
  \<^item> \<open>Startup\<close>: \<open>main\<close>, \<open>startProxies\<close>, \<open>shutdownServers\<close>, \<open>setupLogging\<close> of \<open>main.go\<close>. A run fails early or serves and stops in order.
  \<^item> This theory: a property of the configuration, the dialer and the tracker together.

  \<^bold>\<open>Interfaces.\<close> Locales state what a component relies on, and are interpreted on the model: \<open>bounded_store\<close> (Go maps), \<open>lookup_source\<close> and \<open>resolver\<close> (the two ways to
  resolve), \<open>dialing\<close> (direct and tunnel dials), \<open>bounded_log\<close> (the ring), \<open>persistent_listener\<close>, \<open>host_key_pinning\<close>.

  \<^bold>\<open>Termination and fuel.\<close> No operation of the program has fuel (the step counts of \<open>forward_run\<close> and \<open>closed_run\<close> belong to statements that give a sufficient one). Recursions are structural or have a termination proof; the two accept loops, which wait for ever on a
  silent network, are partial functions into \<open>option\<close>; that they return when the listener answers is proved.

  \<^bold>\<open>Not modelled.\<close> The SOCKS5 and SSH libraries, \<open>regexp\<close>, key generation and hashing, sockets and files are parameters, with what the code relies on as hypotheses.
  \<open>http.ReadRequest\<close> and the query parser give their result as input of the handlers, and the HTTP server and the JSON encoder behind \<open>Web\<close> are left out: a response is
  its code, headers and JSON tree. Debug and information log lines are left out; access lines and failure lines are modelled. \<open>singleflight.Group\<close> is a
  parameter with its documented laws (\<open>singleflight_doc\<close>), which a concrete group is shown to have. A ticker may tick at any time. The raw connection that \<open>TunnelTCPStats\<close> of
  \<open>dialer.go\<close> hands to \<open>readTCPStats\<close> is not part of the dialer's state: the health server takes the counters as an input. Of \<open>tunnelHTTPClient\<close> its dial is modelled. The transfer of a CONNECT has no guard, as in the
  code, and of a request the bytes that its reader had buffered when the guard closed it are taken to have been read. Compiled-in files under \<open>ui/\<close> are a parameter.
\<close>

section \<open>Configuration, dialer and tracker\<close>

definition dialing_tracker :: ConnTracker where
  "dialing_tracker = snd (Begin sample_clock sample_meta ''a.example'' 443 (NewConnTracker 1000 connHistoryMaxAge))"

text \<open>
  C35: A dial in progress keeps its record. With every configuration \<open>loadConfig\<close> accepts, each destination dial carries the configured deadline, and a record that
  has been dialing for no longer than that deadline is still active after stalled dials are dropped: the limit
  on \<open>SSH_DIAL_TIMEOUT\<close> keeps the tracker from losing a dial that can still succeed.
\<close>

theorem loaded_dial_keeps_record:
  assumes "loadConfig getenv = Inr cfg" and "tracker_inv t" and "maxAge t = connHistoryMaxAge" and "range_order rng"
    and "(i, r) \<in> set (active t)" and "time_Sub now (startedAt r) \<le> cfg_dialTimeout cfg"
  shows "(i, r) \<in> set (active (dropStalled clk rng now t))
    \<and> ssh_dial chan_open (dialer_config cfg) (Some c) network addr =
        ssh_dial (\<lambda>d. if d = Some (cfg_dialTimeout cfg) then chan_open d else (\<lambda>_ _. Inl (Panic ''no deadline''))) (dialer_config cfg) (Some c) network addr"
proof -
  have v: "0 < cfg_dialTimeout cfg" "cfg_dialTimeout cfg < connHistoryMaxAge"
    using loadConfig_valid_config [OF assms(1)] by (simp_all add: valid_config_def)
  have "\<not> stalled now t r" using assms(3,6) v(2) by (simp add: stalled_def)
  then have "(i, r) \<in> set (active (dropStalled clk rng now t))"
    using dropStalled_spec [OF assms(2,4), of clk now] assms(5) by simp
  moreover have "dc_dialTimeout (dialer_config cfg) = cfg_dialTimeout cfg" by (simp add: dialer_config_def)
  ultimately show ?thesis using v(1) by (simp add: ssh_dial_def)
qed

theorem loaded_dial_keeps_record_witness:
  "set (active (dropStalled sample_clock (\<lambda>xs. xs) (sample_clock 0 + 60 * time_Second) dialing_tracker)) \<noteq> {}"
proof -
  have inv: "tracker_inv dialing_tracker"
    unfolding dialing_tracker_def by (intro Begin_inv NewConnTracker_inv) (simp add: NewConnTracker_def Let_def)
  have age: "maxAge dialing_tracker = connHistoryMaxAge"
    by (simp add: dialing_tracker_def Begin_def ct_Now_def NewConnTracker_def Let_def)
  let ?r = "snd (hd (active dialing_tracker))"
  have r: "(1, ?r) \<in> set (active dialing_tracker)" and s: "startedAt ?r = sample_clock 0"
    by (simp_all add: dialing_tracker_def Begin_def ct_Now_def NewConnTracker_def Let_def)
  have "time_Sub (sample_clock 0 + 60 * time_Second) (startedAt ?r) \<le> cfg_dialTimeout sample_config"
    unfolding s by (simp add: sample_config_def time_Sub_def time_units min_int64_def max_int64_def)
  from loaded_dial_keeps_record [OF sample_config_loaded inv age range_order_id r this, THEN conjunct1, of sample_clock]
  show ?thesis by (metis empty_iff)
qed

end
